(* ===== verification/XPrelude.thy ===== *)
theory XPrelude
  imports Main "HOL-Library.Word" "HOL-Library.Multiset" "HOL-Library.AList"
    "HOL-Library.Char_ord" "HOL-Library.List_Lexorder" "HOL-Library.Signed_Division"
    "HOL-Library.Sublist"
begin

text \<open>
  The prelude of the development: the parts of the Go language and its standard library that the
  components use, and the generic lemmas they share.

  \<^item> Times are integers, the nanoseconds since Go's zero time, so \<open>0\<close> is the value for which
    \<^verbatim>\<open>Time.IsZero\<close> holds. Durations are integers too; \<open>time_sub\<close> saturates at the ends of the
    64-bit range, as \<^verbatim>\<open>Time.Sub\<close> does.
  \<^item> A Go \<^verbatim>\<open>int\<close> is an \<open>int\<close> kept in range by \<open>wrap64\<close> where a sum or product could leave it; an
    unsigned integer is a word of its width.
  \<^item> A Go string is its list of bytes.
  \<^item> A Go map is an association list with distinct keys, in an arbitrary order: the order Go's
    \<^verbatim>\<open>range\<close> happens to use. A statement that holds for every such list holds for every
    iteration order.
  \<^item> \<open>machine\<close> is the interface of a component that is driven by a sequence of calls: the initial
    state, the call, and an invariant that both keep. Its lemma gives the invariant in every
    state that a sequence of calls can reach; each stateful component interprets it.
\<close>

named_theorems go_simps \<open>unfolding rules of the Go runtime model\<close>

subsection \<open>Types\<close>

type_synonym gotime = int
type_synonym duration = int
type_synonym u8 = "8 word"
type_synonym u16 = "16 word"
type_synonym u32 = "32 word"
type_synonym u64 = "64 word"

subsection \<open>Integers and time\<close>

definition wrap64 :: "int \<Rightarrow> int" where
  "wrap64 x = (x + 2 ^ 63) mod 2 ^ 64 - 2 ^ 63"

definition time_sub :: "gotime \<Rightarrow> gotime \<Rightarrow> duration" where
  "time_sub t u = max (- (2 ^ 63)) (min (2 ^ 63 - 1) (t - u))"

abbreviation second :: duration where "second \<equiv> 1000000000"
abbreviation minute :: duration where "minute \<equiv> 60000000000"
abbreviation hour :: duration where "hour \<equiv> 3600000000000"

subsection \<open>Strings\<close>

definition has_prefix :: "string \<Rightarrow> string \<Rightarrow> bool" where
  "has_prefix s p = (take (length p) s = p)"

definition has_suffix :: "string \<Rightarrow> string \<Rightarrow> bool" where
  "has_suffix s p = (length p \<le> length s \<and> drop (length s - length p) s = p)"

fun str_contains :: "string \<Rightarrow> string \<Rightarrow> bool" where
  "str_contains [] p = (p = [])"
| "str_contains (c # s) p = (has_prefix (c # s) p \<or> str_contains s p)"

fun str_join :: "string \<Rightarrow> string list \<Rightarrow> string" where
  "str_join sep [] = []"
| "str_join sep [x] = x"
| "str_join sep (x # y # xs) = x @ sep @ str_join sep (y # xs)"


text \<open>The white space of \<^verbatim>\<open>unicode.IsSpace\<close>, in UTF-8; \<^verbatim>\<open>strings.TrimSpace\<close> removes it at both ends.\<close>

definition go_spaces :: "string list" where
  "go_spaces = [[CHR 0x09], [CHR 0x0A], [CHR 0x0B], [CHR 0x0C], [CHR 0x0D], [CHR 0x20],
     [CHR 0xC2, CHR 0x85], [CHR 0xC2, CHR 0xA0], [CHR 0xE1, CHR 0x9A, CHR 0x80],
     [CHR 0xE2, CHR 0x80, CHR 0x80], [CHR 0xE2, CHR 0x80, CHR 0x81],
     [CHR 0xE2, CHR 0x80, CHR 0x82], [CHR 0xE2, CHR 0x80, CHR 0x83],
     [CHR 0xE2, CHR 0x80, CHR 0x84], [CHR 0xE2, CHR 0x80, CHR 0x85],
     [CHR 0xE2, CHR 0x80, CHR 0x86], [CHR 0xE2, CHR 0x80, CHR 0x87],
     [CHR 0xE2, CHR 0x80, CHR 0x88], [CHR 0xE2, CHR 0x80, CHR 0x89],
     [CHR 0xE2, CHR 0x80, CHR 0x8A], [CHR 0xE2, CHR 0x80, CHR 0xA8],
     [CHR 0xE2, CHR 0x80, CHR 0xA9], [CHR 0xE2, CHR 0x80, CHR 0xAF],
     [CHR 0xE2, CHR 0x81, CHR 0x9F], [CHR 0xE3, CHR 0x80, CHR 0x80]]"

fun trim_with :: "string list \<Rightarrow> nat \<Rightarrow> string \<Rightarrow> string" where
  "trim_with ps 0 s = s"
| "trim_with ps (Suc n) s =
     (case find (\<lambda>p. has_prefix s p) ps of
        None \<Rightarrow> s | Some p \<Rightarrow> trim_with ps n (drop (length p) s))"

definition trim_space :: "string \<Rightarrow> string" where
  "trim_space s =
     (let l = trim_with go_spaces (length s) s
      in rev (trim_with (map rev go_spaces) (length l) (rev l)))"

text \<open>
  \<^verbatim>\<open>strings.ToLower\<close> as a comparison with ASCII text sees it: the ASCII capitals, and the two
  other letters whose lower case is ASCII, U+0130 and U+212A. The remaining capitals have a
  lower case outside ASCII and are left alone.
\<close>

definition lower_char :: "char \<Rightarrow> char" where
  "lower_char c = (let n = (of_char c :: nat) in if 65 \<le> n \<and> n \<le> 90 then char_of (n + 32) else c)"

fun to_lower :: "string \<Rightarrow> string" where
  "to_lower [] = []"
| "to_lower (c # s) =
     (if c = CHR 0xC4 \<and> take 1 s = [CHR 0xB0] then CHR ''i'' # to_lower (drop 1 s)
      else if c = CHR 0xE2 \<and> take 2 s = [CHR 0x84, CHR 0xAA] then CHR ''k'' # to_lower (drop 2 s)
      else lower_char c # to_lower s)"

text \<open>\<^verbatim>\<open>strings.Split\<close> and \<^verbatim>\<open>strings.SplitN\<close> at one byte, and the decimal text of a natural number (\<^verbatim>\<open>%d\<close>).\<close>

fun str_split :: "char \<Rightarrow> string \<Rightarrow> string list" where
  "str_split c [] = [[]]"
| "str_split c (x # xs) =
     (if x = c then [] # str_split c xs
      else (case str_split c xs of [] \<Rightarrow> [[x]] | w # ws \<Rightarrow> (x # w) # ws))"

fun str_splitn :: "nat \<Rightarrow> char \<Rightarrow> string \<Rightarrow> string list" where
  "str_splitn 0 c s = []"
| "str_splitn (Suc 0) c s = [s]"
| "str_splitn (Suc (Suc n)) c s =
     (let r = dropWhile (\<lambda>x. x \<noteq> c) s
      in if r = [] then [s] else takeWhile (\<lambda>x. x \<noteq> c) s # str_splitn (Suc n) c (tl r))"

definition digit_char :: "nat \<Rightarrow> char" where
  "digit_char n = char_of (48 + n mod 10)"

fun dec_str :: "nat \<Rightarrow> string" where
  "dec_str n = (if n < 10 then [digit_char n] else dec_str (n div 10) @ [digit_char n])"

declare dec_str.simps [simp del]

text \<open>The position of the last occurrence of a byte (\<^verbatim>\<open>strings.LastIndex\<close>), if there is one.\<close>

fun last_index :: "char \<Rightarrow> string \<Rightarrow> nat option" where
  "last_index c [] = None"
| "last_index c (x # xs) =
     (case last_index c xs of Some i \<Rightarrow> Some (Suc i)
      | None \<Rightarrow> if x = c then Some 0 else None)"

text \<open>
  \<^verbatim>\<open>string(rune(x))\<close>: the UTF-8 bytes of a code point, and those of the replacement character
  U+FFFD for a value that is no code point (negative, a surrogate, or above U+10FFFF).
\<close>

definition utf8_rune :: "int \<Rightarrow> string" where
  "utf8_rune r =
     (if r < 0 \<or> (0xD800 \<le> r \<and> r \<le> 0xDFFF) \<or> 0x10FFFF < r
      then [char_of (0xEF :: nat), char_of (0xBF :: nat), char_of (0xBD :: nat)]
      else let n = nat r in
        if n < 0x80 then [char_of n]
        else if n < 0x800 then [char_of (0xC0 + n div 64), char_of (0x80 + n mod 64)]
        else if n < 0x10000 then
          [char_of (0xE0 + n div 4096), char_of (0x80 + n div 64 mod 64), char_of (0x80 + n mod 64)]
        else
          [char_of (0xF0 + n div 262144), char_of (0x80 + n div 4096 mod 64),
           char_of (0x80 + n div 64 mod 64), char_of (0x80 + n mod 64)])"

subsection \<open>Maps\<close>

type_synonym ('k, 'v) gomap = "('k \<times> 'v) list"

abbreviation go_get :: "('k, 'v) gomap \<Rightarrow> 'k \<Rightarrow> 'v option" where
  "go_get m k \<equiv> map_of m k"

abbreviation go_set :: "'k \<Rightarrow> 'v \<Rightarrow> ('k, 'v) gomap \<Rightarrow> ('k, 'v) gomap" where
  "go_set k v m \<equiv> AList.update k v m"

abbreviation go_del :: "'k \<Rightarrow> ('k, 'v) gomap \<Rightarrow> ('k, 'v) gomap" where
  "go_del k m \<equiv> AList.delete k m"

abbreviation go_wf :: "('k, 'v) gomap \<Rightarrow> bool" where
  "go_wf m \<equiv> distinct (map fst m)"

text \<open>The element of a map of slices, strings or counters: the zero value where the key is missing.\<close>

definition go_get_or :: "'v \<Rightarrow> ('k, 'v) gomap \<Rightarrow> 'k \<Rightarrow> 'v" where
  "go_get_or d m k = (case go_get m k of None \<Rightarrow> d | Some v \<Rightarrow> v)"

subsection \<open>Components driven by a sequence of calls\<close>

locale machine =
  fixes init :: 's
    and step :: "'s \<Rightarrow> 'c \<Rightarrow> 's"
    and inv :: "'s \<Rightarrow> bool"
  assumes init_inv: "inv init"
    and step_inv: "inv s \<Longrightarrow> inv (step s c)"
begin

lemma run_inv_from: "inv s \<Longrightarrow> inv (foldl step s cs)"
  by (induction cs arbitrary: s) (auto intro: step_inv)

lemma run_inv: "inv (foldl step init cs)"
  by (rule run_inv_from) (rule init_inv)

end

text \<open>A machine with a measure that no call decreases.\<close>

locale monotone_machine = machine init step inv
  for init :: 's and step :: "'s \<Rightarrow> 'c \<Rightarrow> 's" and inv :: "'s \<Rightarrow> bool" +
  fixes rank :: "'s \<Rightarrow> 'r::preorder"
  assumes step_rank: "inv s \<Longrightarrow> rank s \<le> rank (step s c)"
begin

lemma run_rank: "inv s \<Longrightarrow> rank s \<le> rank (foldl step s cs)"
proof (induction cs arbitrary: s)
  case Nil
  then show ?case by simp
next
  case (Cons c cs)
  from Cons.prems have "rank s \<le> rank (step s c)" by (rule step_rank)
  also from Cons have "rank (step s c) \<le> rank (foldl step (step s c) cs)"
    by (auto intro: step_inv)
  finally show ?case by simp
qed

end

subsection \<open>Lemmas on integers and time\<close>

lemma wrap64_id [simp]: "- (2 ^ 63) \<le> x \<Longrightarrow> x < 2 ^ 63 \<Longrightarrow> wrap64 x = x"
  by (simp add: wrap64_def)

lemma wrap64_small [simp]: "- 1000000000000 \<le> x \<Longrightarrow> x \<le> 1000000000000 \<Longrightarrow> wrap64 x = x"
  by (rule wrap64_id) auto

lemma wrap64_wrap64_add [simp]: "wrap64 (wrap64 x + y) = wrap64 (x + y)"
proof -
  have "wrap64 x + y + 2 ^ 63 = (x + 2 ^ 63) mod 2 ^ 64 + y"
    by (simp add: wrap64_def)
  then have "(wrap64 x + y + 2 ^ 63) mod 2 ^ 64 = (x + y + 2 ^ 63) mod 2 ^ 64"
    by (simp only: mod_add_left_eq) (simp only: ac_simps)
  then show ?thesis by (simp only: wrap64_def)
qed

lemma wrap64_add_wrap64 [simp]: "wrap64 (x + wrap64 y) = wrap64 (x + y)"
  using wrap64_wrap64_add [of y x] by (simp add: add.commute)

lemma wrap64_idem [simp]: "wrap64 (wrap64 x) = wrap64 x"
  using wrap64_wrap64_add [of x 0] by simp

subsection \<open>Lemmas on maps\<close>

lemma go_get_set [simp]: "go_get (go_set k v m) k' = (if k' = k then Some v else go_get m k')"
  by (simp add: update_conv)

lemma go_get_del [simp]: "go_get (go_del k m) k' = (if k' = k then None else go_get m k')"
  by (simp add: delete_conv)

lemma go_wf_set [simp]: "go_wf m \<Longrightarrow> go_wf (go_set k v m)"
  by (rule distinct_update)

lemma go_wf_del [simp]: "go_wf m \<Longrightarrow> go_wf (go_del k m)"
  by (rule distinct_delete)

lemma go_wf_filter [simp]: "go_wf m \<Longrightarrow> go_wf (filter P m)"
  by (induction m) auto

lemma go_get_or_set [simp]: "go_get_or d (go_set k v m) k' = (if k' = k then v else go_get_or d m k')"
  by (simp add: go_get_or_def)

lemma go_get_or_del [simp]: "go_get_or d (go_del k m) k' = (if k' = k then d else go_get_or d m k')"
  by (simp add: go_get_or_def)

lemma go_get_or_Nil [simp]: "go_get_or d [] k = d"
  by (simp add: go_get_or_def)

lemma go_in_iff: "go_wf m \<Longrightarrow> (k, v) \<in> set m \<longleftrightarrow> go_get m k = Some v"
  by simp

lemma go_get_filter:
  "go_wf m \<Longrightarrow> go_get (filter P m) k = (case go_get m k of None \<Rightarrow> None
     | Some v \<Rightarrow> if P (k, v) then Some v else None)"
  by (induction m) (auto split: option.splits simp: map_of_eq_None_iff dest: map_of_SomeD)

lemma set_go_set: "set (go_set k v m) \<subseteq> insert (k, v) (set m)"
  by (induction m) auto

lemma set_go_del: "set (go_del k m) \<subseteq> set m"
  by (auto simp: AList.delete_eq)

lemma keys_go_set [simp]: "fst ` set (go_set k v m) = insert k (fst ` set m)"
  by (induction m) auto

lemma keys_go_del [simp]: "fst ` set (go_del k m) = fst ` set m - {k}"
  by (force simp: AList.delete_eq)

lemma length_go_set: "length (go_set k v m) = (if k \<in> fst ` set m then length m else Suc (length m))"
  by (induction m) auto

subsection \<open>Lemmas on strings\<close>

lemma has_prefix_prefix: "has_prefix s p \<longleftrightarrow> prefix p s"
  unfolding has_prefix_def prefix_def by (metis append_eq_conv_conj append_take_drop_id)

lemma has_suffix_suffix: "has_suffix s p \<longleftrightarrow> suffix p s"
  unfolding has_suffix_def suffix_def
  by (metis append_eq_conv_conj append_take_drop_id diff_diff_cancel length_append
      length_drop le_add2 add_diff_cancel_right')

lemma of_char_digit_char [simp]: "of_char (digit_char n) = (48 + n mod 10 :: nat)"
proof -
  have "48 + n mod 10 < (256 :: nat)" using mod_less_divisor [of 10 n] by linarith
  then show ?thesis by (simp add: digit_char_def)
qed

lemma dec_str_not_Nil [simp]: "dec_str n \<noteq> []"
  by (simp add: dec_str.simps [of n])

lemma set_dec_str: "c \<in> set (dec_str n) \<Longrightarrow> \<exists>d < 10. c = digit_char d"
proof (induction n rule: dec_str.induct)
  case (1 n)
  have *: "digit_char n = digit_char (n mod 10)" by (simp add: digit_char_def)
  from "1.prems" have "\<not> n < 10 \<and> c \<in> set (dec_str (n div 10)) \<or> c = digit_char n"
    by (auto simp: dec_str.simps [of n] split: if_splits)
  then show ?case
    using "1.IH" * by (metis mod_less_divisor zero_less_numeral)
qed

lemma str_contains_sublist: "str_contains s p \<longleftrightarrow> sublist p s"
  by (induction s) (auto simp: has_prefix_prefix sublist_Cons_right)

end
