(* ===== verification/EventModel.thy ===== *)
theory EventModel
  imports XPrelude
begin

text \<open>
  The records every component passes around, from \<^verbatim>\<open>pkg/model\<close>: severities, rule modes, events
  and alerts.

  An event's ULID is kept as the text its \<^verbatim>\<open>String\<close> method gives: 26 characters, all of them
  \<^verbatim>\<open>0\<close> in the zero value. Tags are a map of strings; a nil
  map and an empty one read alike and are both \<open>[]\<close>, and no code modelled here writes to a nil
  map. The sensor-specific payload \<^verbatim>\<open>Raw\<close> is never read by the components and is left out.
\<close>

datatype Severity =
  SeverityInfo | SeverityNotice | SeverityWarn | SeverityHigh | SeverityCritical

datatype Verdict = VerdictUnknown | VerdictBenign | VerdictSuspicious | VerdictMalicious

datatype RuleMode = ModeDetect | ModeQuarantine | ModeBlock

text \<open>
  The three enumerations are bytes in the source; no code modelled here makes a value other than
  the declared constants, so the \<^verbatim>\<open>unknown\<close> branch of their \<^verbatim>\<open>String\<close> methods has no counterpart.
\<close>

primrec Severity_String :: "Severity \<Rightarrow> string" where
  "Severity_String SeverityInfo = ''info''"
| "Severity_String SeverityNotice = ''notice''"
| "Severity_String SeverityWarn = ''warn''"
| "Severity_String SeverityHigh = ''high''"
| "Severity_String SeverityCritical = ''critical''"

definition ParseSeverity :: "string \<Rightarrow> Severity \<times> bool" where
  "ParseSeverity s =
     (if s = ''info'' then (SeverityInfo, True)
      else if s = ''notice'' then (SeverityNotice, True)
      else if s = ''warn'' \<or> s = ''warning'' then (SeverityWarn, True)
      else if s = ''high'' then (SeverityHigh, True)
      else if s = ''critical'' \<or> s = ''crit'' then (SeverityCritical, True)
      else (SeverityInfo, False))"

primrec Verdict_String :: "Verdict \<Rightarrow> string" where
  "Verdict_String VerdictBenign = ''benign''"
| "Verdict_String VerdictSuspicious = ''suspicious''"
| "Verdict_String VerdictMalicious = ''malicious''"
| "Verdict_String VerdictUnknown = ''unknown''"

primrec RuleMode_String :: "RuleMode \<Rightarrow> string" where
  "RuleMode_String ModeDetect = ''detect''"
| "RuleMode_String ModeQuarantine = ''quarantine''"
| "RuleMode_String ModeBlock = ''block''"

record ProcNode =
  pn_PID :: u32
  pn_Comm :: string
  pn_Argv :: "string list"
  pn_UID :: u32
  pn_StartNs :: u64
  pn_Image :: string
  pn_FirstAction :: gotime

record Event =
  ev_ID :: string
  ev_Time :: gotime
  ev_Sensor :: string
  ev_Severity :: Severity
  ev_Verdict :: Verdict
  ev_Host :: string
  ev_PID :: u32
  ev_TID :: u32
  ev_Comm :: string
  ev_UID :: u32
  ev_GID :: u32
  ev_CGroupID :: u64
  ev_Container :: string
  ev_Image :: string
  ev_ParentPID :: u32
  ev_ProcTree :: "ProcNode list"
  ev_Rule :: string
  ev_Tags :: "(string, string) gomap"

record Alert =
  al_Event :: Event
  al_RuleID :: string
  al_Reason :: string
  al_EvidenceIDs :: "string list"
  al_Mode :: RuleMode
  al_Action :: string
  al_Class :: int

text \<open>The zero values of the two structs, and \<^verbatim>\<open>NewEvent\<close> with its fresh ULID and clock reading.\<close>

definition zero_Event :: Event where
  "zero_Event = \<lparr>ev_ID = '''', ev_Time = 0, ev_Sensor = '''', ev_Severity = SeverityInfo,
     ev_Verdict = VerdictUnknown, ev_Host = '''', ev_PID = 0, ev_TID = 0, ev_Comm = '''',
     ev_UID = 0, ev_GID = 0, ev_CGroupID = 0, ev_Container = '''', ev_Image = '''',
     ev_ParentPID = 0, ev_ProcTree = [], ev_Rule = '''', ev_Tags = []\<rparr>"

definition zero_Alert :: Alert where
  "zero_Alert = \<lparr>al_Event = zero_Event, al_RuleID = '''', al_Reason = '''', al_EvidenceIDs = [],
     al_Mode = ModeDetect, al_Action = '''', al_Class = 0\<rparr>"

definition NewEvent :: "string \<Rightarrow> gotime \<Rightarrow> string \<Rightarrow> Severity \<Rightarrow> Event" where
  "NewEvent ulid now sensor sev =
     zero_Event\<lparr>ev_ID := ulid, ev_Time := now, ev_Sensor := sensor, ev_Severity := sev,
       ev_Tags := []\<rparr>"

text \<open>Reading a tag: the empty string where the key is missing.\<close>

definition tag :: "Event \<Rightarrow> string \<Rightarrow> string" where
  "tag ev k = go_get_or '''' (ev_Tags ev) k"

definition set_tag :: "string \<Rightarrow> string \<Rightarrow> Event \<Rightarrow> Event" where
  "set_tag k v ev = ev\<lparr>ev_Tags := go_set k v (ev_Tags ev)\<rparr>"

lemma tag_set_tag [simp]: "tag (set_tag k v ev) k' = (if k' = k then v else tag ev k')"
  by (simp add: tag_def set_tag_def)

lemma set_tag_frame [simp]:
  "ev_PID (set_tag k v ev) = ev_PID ev" "ev_ID (set_tag k v ev) = ev_ID ev"
  "ev_Comm (set_tag k v ev) = ev_Comm ev" "ev_Image (set_tag k v ev) = ev_Image ev"
  "ev_Time (set_tag k v ev) = ev_Time ev" "ev_Sensor (set_tag k v ev) = ev_Sensor ev"
  by (simp_all add: set_tag_def)

lemma NewEvent_sel [simp]:
  "ev_PID (NewEvent u t s v) = 0" "ev_Tags (NewEvent u t s v) = []"
  "ev_ID (NewEvent u t s v) = u" "ev_Time (NewEvent u t s v) = t"
  "tag (NewEvent u t s v) k = ''''"
  by (simp_all add: NewEvent_def zero_Event_def tag_def)

subsection \<open>Rules\<close>

datatype Category = CategoryWeakSignal | CategoryFact | CategoryIncident | CategoryHardDeny

primrec Category_String :: "Category \<Rightarrow> string" where
  "Category_String CategoryFact = ''fact''"
| "Category_String CategoryWeakSignal = ''weak_signal''"
| "Category_String CategoryIncident = ''incident''"
| "Category_String CategoryHardDeny = ''hard_deny''"

definition ParseCategory :: "string \<Rightarrow> Category \<times> bool" where
  "ParseCategory raw =
     (let s = to_lower (trim_space raw) in
      if s = '''' \<or> s = ''weak_signal'' then (CategoryWeakSignal, True)
      else if s = ''fact'' then (CategoryFact, True)
      else if s = ''incident'' then (CategoryIncident, True)
      else if s = ''hard_deny'' then (CategoryHardDeny, True)
      else (CategoryWeakSignal, False))"

primrec DefaultWeight :: "Category \<Rightarrow> int" where
  "DefaultWeight CategoryFact = 0"
| "DefaultWeight CategoryWeakSignal = 20"
| "DefaultWeight CategoryIncident = 50"
| "DefaultWeight CategoryHardDeny = 100"

record RuleRateLimit =
  rl_PerMinute :: u64
  rl_PerKey :: string

record SoakState =
  sk_Since :: gotime
  sk_FPCount :: u64
  sk_ConsecutiveCleanDays :: u64
  sk_ZeroFPSince :: gotime
  sk_Promotable :: bool

record Rule =
  ru_ID :: string
  ru_Desc :: string
  ru_Severity :: Severity
  ru_SeverityRaw :: string
  ru_Mode :: RuleMode
  ru_ModeRaw :: string
  ru_Mitre :: "string list"
  ru_Match :: string
  ru_Tags :: "string list"
  ru_Remediation :: string
  ru_TestID :: string
  ru_Soak :: SoakState
  ru_Class :: int
  ru_Category :: Category
  ru_CategoryRaw :: string
  ru_Weight :: int
  ru_RateLimit :: "RuleRateLimit option"

datatype rule_error = ParseError string string

definition NormalizeClass :: "Rule \<Rightarrow> int" where
  "NormalizeClass r = (if ru_Class r < 1 \<or> 3 < ru_Class r then 3 else ru_Class r)"

text \<open>\<^verbatim>\<open>NormalizeCategory\<close> and \<^verbatim>\<open>Normalize\<close> write to the rule also when they return an error.\<close>

definition NormalizeCategory :: "Rule \<Rightarrow> Rule \<times> rule_error option" where
  "NormalizeCategory r =
     (case ParseCategory (ru_CategoryRaw r) of (c, ok) \<Rightarrow>
        (r\<lparr>ru_Category := c\<rparr>,
         if \<not> ok then Some (ParseError ''category'' (ru_CategoryRaw r)) else None))"

definition EffectiveWeight :: "Rule \<Rightarrow> int" where
  "EffectiveWeight r = (if ru_Weight r \<noteq> 0 then ru_Weight r else DefaultWeight (ru_Category r))"

definition Normalize_mode :: "Rule \<Rightarrow> Rule \<times> rule_error option" where
  "Normalize_mode r =
     (if ru_ModeRaw r = '''' \<or> ru_ModeRaw r = ''detect'' then NormalizeCategory (r\<lparr>ru_Mode := ModeDetect\<rparr>)
      else if ru_ModeRaw r = ''quarantine'' then NormalizeCategory (r\<lparr>ru_Mode := ModeQuarantine\<rparr>)
      else if ru_ModeRaw r = ''block'' then NormalizeCategory (r\<lparr>ru_Mode := ModeBlock\<rparr>)
      else (r, Some (ParseError ''mode'' (ru_ModeRaw r))))"

definition Rule_Normalize :: "Rule \<Rightarrow> Rule \<times> rule_error option" where
  "Rule_Normalize r =
     (case ParseSeverity (ru_SeverityRaw r) of (s, ok) \<Rightarrow>
        if ok then Normalize_mode (r\<lparr>ru_Severity := s\<rparr>)
        else if ru_SeverityRaw r \<noteq> '''' then (r, Some (ParseError ''severity'' (ru_SeverityRaw r)))
        else Normalize_mode r)"

lemma ParseSeverity_String: "ParseSeverity (Severity_String s) = (s, True)"
  by (cases s) (simp_all add: ParseSeverity_def)

lemma ParseCategory_String: "ParseCategory (Category_String c) = (c, True)"
  by (cases c; simp only: Category_String.simps; code_simp)

end
