(* ===== verification/ActionLog.thy ===== *)
theory ActionLog
  imports XPrelude
begin

text \<open>
  The containment log, \<^verbatim>\<open>pkg/actionlog/state.go\<close>: the state every process lineage is in, the table
  of legal moves, and the history of the moves made.

  A \<^verbatim>\<open>ContainmentState\<close> is a string, as in the source, so the table is consulted on any string and
  refuses those it does not know. \<open>Log_Record\<close> returns the error or the new log; on an error the
  Go method leaves the log as it was. The mutex is not modelled: each method holds it from its
  first to its last access, so calls from several goroutines take effect one after the other.
\<close>

subsection \<open>States and the table of legal moves\<close>

type_synonym ContainmentState = string

abbreviation StateObserved :: ContainmentState where "StateObserved \<equiv> ''observed''"
abbreviation StateTriaged :: ContainmentState where "StateTriaged \<equiv> ''triaged''"
abbreviation StateSuspended :: ContainmentState where "StateSuspended \<equiv> ''suspended''"
abbreviation StateIsolated :: ContainmentState where "StateIsolated \<equiv> ''isolated''"
abbreviation StateContained :: ContainmentState where "StateContained \<equiv> ''contained''"
abbreviation StateRemediated :: ContainmentState where "StateRemediated \<equiv> ''remediated''"
abbreviation StateReleased :: ContainmentState where "StateReleased \<equiv> ''released''"
abbreviation StateTerminated :: ContainmentState where "StateTerminated \<equiv> ''terminated''"

definition AllStates :: "ContainmentState list" where
  "AllStates = [StateObserved, StateTriaged, StateSuspended, StateIsolated,
     StateContained, StateRemediated, StateReleased, StateTerminated]"

definition validTransitions :: "(ContainmentState, ContainmentState list) gomap" where
  "validTransitions =
    [(StateObserved, [StateTriaged, StateSuspended, StateIsolated, StateContained, StateTerminated]),
     (StateTriaged, [StateObserved, StateSuspended, StateIsolated, StateContained, StateReleased,
        StateTerminated]),
     (StateSuspended, [StateIsolated, StateContained, StateRemediated, StateReleased,
        StateTerminated]),
     (StateIsolated, [StateContained, StateRemediated, StateReleased, StateTerminated]),
     (StateContained, [StateRemediated, StateReleased, StateTerminated]),
     (StateRemediated, [StateReleased, StateTerminated]),
     (StateReleased, [StateObserved]),
     (StateTerminated, [])]"

definition CanTransition :: "ContainmentState \<Rightarrow> ContainmentState \<Rightarrow> bool" where
  "CanTransition from to =
     (if from = to then True
      else case go_get validTransitions from of
             None \<Rightarrow> False
           | Some allowed \<Rightarrow> to \<in> set allowed)"

subsection \<open>Transitions\<close>

record Transition =
  tr_LineageID :: u64
  tr_From :: ContainmentState
  tr_To :: ContainmentState
  tr_At :: gotime
  tr_Reason :: string
  tr_PlanID :: string
  tr_OperatorID :: string

datatype actionlog_error =
    LineageIDRequired
  | IllegalTransition ContainmentState ContainmentState
  | ReasonRequired
  | PlanOrOperatorRequired
  | FromMismatch ContainmentState ContainmentState

definition Transition_Validate :: "Transition \<Rightarrow> actionlog_error option" where
  "Transition_Validate t =
     (if tr_LineageID t = 0 then Some LineageIDRequired
      else if \<not> CanTransition (tr_From t) (tr_To t)
        then Some (IllegalTransition (tr_From t) (tr_To t))
      else if tr_Reason t = '''' then Some ReasonRequired
      else if tr_PlanID t = '''' \<and> tr_OperatorID t = '''' then Some PlanOrOperatorRequired
      else None)"

subsection \<open>The log\<close>

record Log =
  lg_state :: "(u64, ContainmentState) gomap"
  lg_history :: "(u64, Transition list) gomap"

definition Log_New :: Log where
  "Log_New = \<lparr>lg_state = [], lg_history = []\<rparr>"

definition Log_State :: "Log \<Rightarrow> u64 \<Rightarrow> ContainmentState" where
  "Log_State l lid = (case go_get (lg_state l) lid of Some s \<Rightarrow> s | None \<Rightarrow> StateObserved)"

text \<open>\<^verbatim>\<open>Record\<close> fills in \<^verbatim>\<open>From\<close> and \<^verbatim>\<open>At\<close> where the caller left them zero.\<close>

definition Log_stamp :: "gotime \<Rightarrow> ContainmentState \<Rightarrow> Transition \<Rightarrow> Transition" where
  "Log_stamp now current t =
     (let t1 = (if tr_From t = [] then t\<lparr>tr_From := current\<rparr> else t)
      in if tr_At t1 = 0 then t1\<lparr>tr_At := now\<rparr> else t1)"

definition Log_Record :: "gotime \<Rightarrow> Log \<Rightarrow> Transition \<Rightarrow> actionlog_error + Log" where
  "Log_Record now l t =
     (let current = (case go_get (lg_state l) (tr_LineageID t) of
                       None \<Rightarrow> StateObserved | Some s \<Rightarrow> s)
      in if tr_From t \<noteq> [] \<and> tr_From t \<noteq> current then Inl (FromMismatch (tr_From t) current)
         else let t' = Log_stamp now current t
              in case Transition_Validate t' of
                   Some err \<Rightarrow> Inl err
                 | None \<Rightarrow> Inr (l\<lparr>lg_state := go_set (tr_LineageID t') (tr_To t') (lg_state l),
                      lg_history := go_set (tr_LineageID t')
                        (go_get_or [] (lg_history l) (tr_LineageID t') @ [t'])
                        (lg_history l)\<rparr>))"

definition Log_History :: "Log \<Rightarrow> u64 \<Rightarrow> Transition list" where
  "Log_History l lid = go_get_or [] (lg_history l) lid"

definition Log_Snapshot :: "Log \<Rightarrow> (u64 \<times> ContainmentState) list" where
  "Log_Snapshot l = sort_key fst (lg_state l)"

definition Log_CountByState :: "Log \<Rightarrow> (ContainmentState, nat) gomap" where
  "Log_CountByState l =
     foldl (\<lambda>out e. go_set (snd e) (go_get_or 0 out (snd e) + 1) out) [] (lg_state l)"

definition Log_LineagesInState :: "Log \<Rightarrow> ContainmentState \<Rightarrow> u64 list" where
  "Log_LineagesInState l s = sort (map fst (filter (\<lambda>e. snd e = s) (lg_state l)))"

text \<open>The log after a call, whatever the call returned.\<close>

definition Log_step :: "Log \<Rightarrow> gotime \<times> Transition \<Rightarrow> Log" where
  "Log_step l c = (case Log_Record (fst c) l (snd c) of Inl _ \<Rightarrow> l | Inr l' \<Rightarrow> l')"

subsection \<open>The contract of the log\<close>

text \<open>
  The abstract view of one lineage: its history is a walk in the table of legal moves, from the
  state \<open>s\<close> to the state \<open>e\<close>, every move carrying what \<open>Transition_Validate\<close> asks for.
\<close>

fun legal_path :: "u64 \<Rightarrow> ContainmentState \<Rightarrow> Transition list \<Rightarrow> ContainmentState \<Rightarrow> bool" where
  "legal_path lid s [] e = (s = e)"
| "legal_path lid s (t # ts) e =
     (tr_LineageID t = lid \<and> tr_From t = s \<and> Transition_Validate t = None \<and>
      legal_path lid (tr_To t) ts e)"

definition log_inv :: "Log \<Rightarrow> bool" where
  "log_inv l \<longleftrightarrow> go_wf (lg_state l) \<and> go_wf (lg_history l) \<and>
     (\<forall>lid. legal_path lid StateObserved (Log_History l lid) (Log_State l lid))"

text \<open>The states that only an operator's release, a remediation or a termination leaves.\<close>

definition held_state :: "ContainmentState \<Rightarrow> bool" where
  "held_state s \<longleftrightarrow> s \<in> {StateSuspended, StateIsolated, StateContained, StateRemediated,
     StateTerminated}"

lemma legal_path_append:
  "legal_path lid s (ts @ us) e \<longleftrightarrow> (\<exists>m. legal_path lid s ts m \<and> legal_path lid m us e)"
  by (induction ts arbitrary: s) auto

text \<open>What an accepted call did: the one lineage moved, by a legal move from its current state.\<close>

lemma Log_Record_Inr:
  assumes "Log_Record now l t = Inr l'"
  obtains t' where "tr_LineageID t' = tr_LineageID t" "tr_To t' = tr_To t"
    "tr_From t' = Log_State l (tr_LineageID t)" "Transition_Validate t' = None"
    "lg_state l' = go_set (tr_LineageID t) (tr_To t) (lg_state l)"
    "lg_history l' = go_set (tr_LineageID t) (Log_History l (tr_LineageID t) @ [t']) (lg_history l)"
proof -
  let ?t' = "Log_stamp now (Log_State l (tr_LineageID t)) t"
  from assms have "tr_From t = [] \<or> tr_From t = Log_State l (tr_LineageID t)"
    and "Transition_Validate ?t' = None"
    and "l' = l\<lparr>lg_state := go_set (tr_LineageID ?t') (tr_To ?t') (lg_state l),
      lg_history := go_set (tr_LineageID ?t')
        (go_get_or [] (lg_history l) (tr_LineageID ?t') @ [?t']) (lg_history l)\<rparr>"
    by (auto simp: Log_Record_def Log_State_def Let_def split: if_splits option.splits)
  then show ?thesis
    by (intro that [of ?t']) (auto simp: Log_stamp_def Let_def Log_History_def)
qed

lemma Log_Record_State:
  assumes "Log_Record now l t = Inr l'"
  shows "Log_State l' lid = (if lid = tr_LineageID t then tr_To t else Log_State l lid)"
  using assms by (elim Log_Record_Inr) (simp add: Log_State_def)

lemma Log_Record_legal:
  assumes "Log_Record now l t = Inr l'"
  shows "CanTransition (Log_State l lid) (Log_State l' lid)"
proof -
  from assms obtain t' where t': "tr_To t' = tr_To t" "tr_From t' = Log_State l (tr_LineageID t)"
      "Transition_Validate t' = None"
    by (rule Log_Record_Inr)
  then have "CanTransition (Log_State l (tr_LineageID t)) (tr_To t)"
    by (simp add: Transition_Validate_def split: if_splits)
  with Log_Record_State [OF assms] show ?thesis by (simp add: CanTransition_def)
qed

lemma Log_Record_inv:
  assumes "log_inv l" and "Log_Record now l t = Inr l'"
  shows "log_inv l'"
proof -
  from assms(2) obtain t' where t': "tr_LineageID t' = tr_LineageID t" "tr_To t' = tr_To t"
      "tr_From t' = Log_State l (tr_LineageID t)" "Transition_Validate t' = None"
      "lg_state l' = go_set (tr_LineageID t) (tr_To t) (lg_state l)"
      "lg_history l' = go_set (tr_LineageID t) (Log_History l (tr_LineageID t) @ [t'])
         (lg_history l)"
    by (rule Log_Record_Inr)
  have "legal_path lid StateObserved (Log_History l' lid) (Log_State l' lid)" for lid
    using assms(1) t' Log_Record_State [OF assms(2), of lid]
    by (auto simp: log_inv_def Log_History_def legal_path_append)
  with assms(1) t' show ?thesis by (simp add: log_inv_def)
qed

lemma Log_step_inv: "log_inv l \<Longrightarrow> log_inv (Log_step l c)"
  by (auto simp: Log_step_def split: sum.split intro: Log_Record_inv)

lemma Log_New_inv: "log_inv Log_New"
  by (simp add: log_inv_def Log_New_def Log_History_def Log_State_def)

interpretation alog: machine Log_New Log_step log_inv
  by unfold_locales (auto intro: Log_New_inv Log_step_inv)

lemma CanTransition_refl [simp]: "CanTransition s s"
  by (simp add: CanTransition_def)

lemma Log_step_legal: "CanTransition (Log_State l lid) (Log_State (Log_step l c) lid)"
  by (auto simp: Log_step_def split: sum.split intro: Log_Record_legal)

text \<open>One legal move: a terminated lineage stays; a held one stays held or is released.\<close>

lemma CanTransition_terminated: "CanTransition StateTerminated s \<Longrightarrow> s = StateTerminated"
  by (simp add: CanTransition_def validTransitions_def split: if_splits)

lemma CanTransition_held:
  "CanTransition s s' \<Longrightarrow> held_state s \<Longrightarrow> held_state s' \<or> s' = StateReleased"
  by (auto simp: CanTransition_def validTransitions_def held_state_def split: if_splits)

subsection \<open>Properties\<close>


text \<open>
  "terminated" is absorbing: once a lineage is terminated, no sequence of calls moves it.
\<close>

theorem terminated_is_absorbing:
  assumes "Log_State l lid = StateTerminated"
  shows "Log_State (foldl Log_step l cs) lid = StateTerminated"
  using assms
proof (induction cs arbitrary: l)
  case Nil
  then show ?case by simp
next
  case (Cons c cs)
  with Log_step_legal [of l lid c] have "Log_State (Log_step l c) lid = StateTerminated"
    by (auto dest: CanTransition_terminated)
  with Cons.IH show ?case by simp
qed

definition sample_kill :: Transition where
  "sample_kill = \<lparr>tr_LineageID = 7, tr_From = '''', tr_To = StateTerminated, tr_At = 0,
     tr_Reason = ''kill'', tr_PlanID = ''p1'', tr_OperatorID = ''''\<rparr>"

definition sample_reopen :: Transition where
  "sample_reopen = \<lparr>tr_LineageID = 7, tr_From = '''', tr_To = StateObserved, tr_At = 0,
     tr_Reason = ''reopen'', tr_PlanID = '''', tr_OperatorID = ''ops''\<rparr>"

theorem terminated_is_absorbing_witness:
  "Log_State (Log_step Log_New (1, sample_kill)) 7 = StateTerminated \<and>
   Log_State (foldl Log_step (Log_step Log_New (1, sample_kill)) [(2, sample_reopen)]) 7
     = StateTerminated"
proof -
  have h: "Log_State (Log_step Log_New (1, sample_kill)) 7 = StateTerminated"
    by code_simp
  show ?thesis using h terminated_is_absorbing [OF h, of "[(2, sample_reopen)]"] by simp
qed

text \<open>
  C16: no silent de-escalation. A lineage that is suspended, isolated, contained, remediated or
  terminated and is found in any other state after a sequence of calls was in "released" after
  some prefix of them: the log offers no other way back.
\<close>

theorem deescalation_needs_release:
  assumes "held_state (Log_State l lid)"
    and "\<not> held_state (Log_State (foldl Log_step l cs) lid)"
  shows "\<exists>k \<le> length cs. Log_State (foldl Log_step l (take k cs)) lid = StateReleased"
  using assms
proof (induction cs arbitrary: l)
  case Nil
  then show ?case by simp
next
  case (Cons c cs)
  show ?case
  proof (cases "held_state (Log_State (Log_step l c) lid)")
    case True
    with Cons obtain k where "k \<le> length cs"
        "Log_State (foldl Log_step (Log_step l c) (take k cs)) lid = StateReleased"
      by auto
    then show ?thesis by (intro exI [of _ "Suc k"]) simp
  next
    case False
    with Cons.prems(1) Log_step_legal [of l lid c] have
      "Log_State (Log_step l c) lid = StateReleased" by (auto dest: CanTransition_held)
    then show ?thesis by (intro exI [of _ 1]) simp
  qed
qed

definition sample_release :: Transition where
  "sample_release = \<lparr>tr_LineageID = 7, tr_From = '''', tr_To = StateReleased, tr_At = 0,
     tr_Reason = ''cleared'', tr_PlanID = '''', tr_OperatorID = ''ops''\<rparr>"

definition sample_suspended_log :: Log where
  "sample_suspended_log = \<lparr>lg_state = [(7, StateSuspended)], lg_history = []\<rparr>"

theorem deescalation_needs_release_witness:
  "\<exists>k \<le> length [(1::gotime, sample_release), (2, sample_reopen)].
     Log_State (foldl Log_step sample_suspended_log
       (take k [(1, sample_release), (2, sample_reopen)])) 7 = StateReleased"
proof (rule deescalation_needs_release)
  show "held_state (Log_State sample_suspended_log 7)"
    by (simp add: held_state_def Log_State_def sample_suspended_log_def)
  show "\<not> held_state (Log_State (foldl Log_step sample_suspended_log
      [(1, sample_release), (2, sample_reopen)]) 7)"
    by code_simp
qed

lemma sort_map_fst: "sort (map fst xs) = map fst (sort_key fst xs)"
  by (rule properties_for_sort) (simp_all add: sorted_sort_key)

lemma count_by_fold:
  "go_get_or 0 (foldl (\<lambda>out e. go_set (snd e) (go_get_or 0 out (snd e) + 1) out) m es) s
     = go_get_or 0 m s + length (filter (\<lambda>e. snd e = s) es)"
  by (induction es arbitrary: m) auto

text \<open>
  The read operations agree with one another in every state a sequence of calls reaches: the
  snapshot lists every tracked lineage once, in ascending order and with its current state;
  \<^verbatim>\<open>LineagesInState\<close> is the snapshot restricted to that state; \<^verbatim>\<open>CountByState\<close> is its length.
\<close>

theorem log_queries_agree:
  "let l = foldl Log_step Log_New cs in
     sorted (map fst (Log_Snapshot l)) \<and> distinct (map fst (Log_Snapshot l)) \<and>
     ((lid, s) \<in> set (Log_Snapshot l) \<longleftrightarrow> go_get (lg_state l) lid = Some s) \<and>
     Log_LineagesInState l s = map fst (filter (\<lambda>e. snd e = s) (Log_Snapshot l)) \<and>
     go_get_or 0 (Log_CountByState l) s = length (Log_LineagesInState l s)"
proof -
  define l where "l = foldl Log_step Log_New cs"
  have wf: "go_wf (lg_state l)"
    using alog.run_inv [of cs] by (simp add: l_def log_inv_def)
  have "sorted (map fst (Log_Snapshot l)) \<and> distinct (map fst (Log_Snapshot l))"
    using wf by (simp add: Log_Snapshot_def flip: sort_map_fst)
  moreover have "(lid, s) \<in> set (Log_Snapshot l) \<longleftrightarrow> go_get (lg_state l) lid = Some s"
    using wf by (simp add: Log_Snapshot_def)
  moreover have "Log_LineagesInState l s = map fst (filter (\<lambda>e. snd e = s) (Log_Snapshot l))"
    by (simp add: Log_LineagesInState_def Log_Snapshot_def sort_map_fst filter_sort)
  moreover have "go_get_or 0 (Log_CountByState l) s = length (Log_LineagesInState l s)"
    unfolding Log_CountByState_def Log_LineagesInState_def count_by_fold by simp
  ultimately show ?thesis unfolding l_def Let_def by blast
qed

end
