(* ===== verification/Decision.thy ===== *)
theory Decision
  imports EventModel ActionLog
begin

text \<open>
  The decision component, \<^verbatim>\<open>pkg/decision\<close>: the \<^verbatim>\<open>ActionPlan\<close> record with its validator and
  constructors (\<^verbatim>\<open>actionplan.go\<close>), and the planner \<^verbatim>\<open>Plan\<close> that turns a score, an alert and the
  current containment state into a plan (\<^verbatim>\<open>plan.go\<close>).

  The fresh ULID of a plan and the clock readings are arguments. \<open>capability_checker\<close> is the
  interface \<^verbatim>\<open>CapabilityChecker\<close> that \<^verbatim>\<open>Plan\<close> calls last: an implementation may append warnings
  to the plan and change nothing else. The properties of \<^verbatim>\<open>Plan\<close> are proved against that interface
  and \<^verbatim>\<open>pkg/runtime\<close> provides it.
\<close>

subsection \<open>Action plans\<close>

record ActionPlan =
  ap_AlertID :: string
  ap_PlanID :: string
  ap_RuleID :: string
  ap_LineageID :: u64
  ap_ProcKey :: string
  ap_CreatedAt :: gotime
  ap_Score :: int
  ap_Tier :: string
  ap_Confidence :: string
  ap_Snapshot :: bool
  ap_Memscan :: bool
  ap_Delay :: duration
  ap_RequireStepUp :: bool
  ap_SuspendProcess :: bool
  ap_IsolateCgroup :: bool
  ap_BanRemoteIP :: bool
  ap_Tarpit :: bool
  ap_IsolateHost :: bool
  ap_RemediateFile :: bool
  ap_LockLocalUser :: bool
  ap_KillProcess :: bool
  ap_Reasons :: "string list"
  ap_Preconditions :: "string list"
  ap_CapabilityWarnings :: "string list"
  ap_Reversible :: bool
  ap_ExpiresAt :: gotime

definition zero_ActionPlan :: ActionPlan where
  "zero_ActionPlan = \<lparr>ap_AlertID = [], ap_PlanID = [], ap_RuleID = [], ap_LineageID = 0,
     ap_ProcKey = [], ap_CreatedAt = 0, ap_Score = 0, ap_Tier = [], ap_Confidence = [],
     ap_Snapshot = False, ap_Memscan = False, ap_Delay = 0, ap_RequireStepUp = False,
     ap_SuspendProcess = False, ap_IsolateCgroup = False, ap_BanRemoteIP = False,
     ap_Tarpit = False, ap_IsolateHost = False, ap_RemediateFile = False,
     ap_LockLocalUser = False, ap_KillProcess = False, ap_Reasons = [], ap_Preconditions = [],
     ap_CapabilityWarnings = [], ap_Reversible = False, ap_ExpiresAt = 0\<rparr>"

definition actionOrder :: "(string \<times> (ActionPlan \<Rightarrow> bool)) list" where
  "actionOrder =
    [(''snapshot'', ap_Snapshot),
     (''memscan'', ap_Memscan),
     (''delay'', \<lambda>p. 0 < ap_Delay p),
     (''require_step_up'', ap_RequireStepUp),
     (''suspend_process'', ap_SuspendProcess),
     (''isolate_cgroup'', ap_IsolateCgroup),
     (''ban_remote_ip'', ap_BanRemoteIP),
     (''tarpit'', ap_Tarpit),
     (''isolate_host'', ap_IsolateHost),
     (''remediate_file'', ap_RemediateFile),
     (''lock_local_user'', ap_LockLocalUser),
     (''kill_process'', ap_KillProcess)]"

definition Actions :: "ActionPlan \<Rightarrow> string list" where
  "Actions p = map fst (filter (\<lambda>a. snd a p) actionOrder)"

definition IsNoOp :: "ActionPlan \<Rightarrow> bool" where
  "IsNoOp p = (Actions p = [])"

definition HasDestructiveAction :: "ActionPlan \<Rightarrow> bool" where
  "HasDestructiveAction p = (ap_KillProcess p \<or> ap_RemediateFile p)"

definition IsHardAction :: "ActionPlan \<Rightarrow> bool" where
  "IsHardAction p = (ap_SuspendProcess p \<or> ap_IsolateCgroup p \<or> ap_IsolateHost p \<or>
     ap_BanRemoteIP p \<or> ap_KillProcess p \<or> ap_RemediateFile p \<or> ap_LockLocalUser p)"

definition HasExpired :: "ActionPlan \<Rightarrow> gotime \<Rightarrow> bool" where
  "HasExpired p now = (if ap_ExpiresAt p = 0 then False else ap_ExpiresAt p < now)"

datatype plan_error =
    NilPlan
  | NoProvenance
  | PlanIDRequired
  | ScoreOutOfRange int
  | KillReversible
  | RemediateReversible
  | IsolateHostNeedsPreconditions
  | KillNeedsSnapshot
  | TarpitNeedsReasons

definition ActionPlan_Validate :: "ActionPlan option \<Rightarrow> plan_error option" where
  "ActionPlan_Validate po =
     (case po of
        None \<Rightarrow> Some NilPlan
      | Some p \<Rightarrow>
          if ap_AlertID p = [] \<and> ap_RuleID p = [] then Some NoProvenance
          else if ap_PlanID p = [] then Some PlanIDRequired
          else if ap_Score p < 0 \<or> 100 < ap_Score p then Some (ScoreOutOfRange (ap_Score p))
          else if ap_KillProcess p \<and> ap_Reversible p then Some KillReversible
          else if ap_RemediateFile p \<and> ap_Reversible p then Some RemediateReversible
          else if ap_IsolateHost p \<and> ap_Preconditions p = [] then Some IsolateHostNeedsPreconditions
          else if ap_KillProcess p \<and> \<not> ap_Snapshot p then Some KillNeedsSnapshot
          else if ap_Tarpit p \<and> ap_Reasons p = [] then Some TarpitNeedsReasons
          else None)"

text \<open>
  The constructors. \<open>t1\<close> and \<open>t2\<close> are their two clock readings: \<^verbatim>\<open>CreatedAt\<close> first, then the one
  \<^verbatim>\<open>ExpiresAt\<close> counts from.
\<close>

definition NewNoOp :: "gotime \<Rightarrow> string \<Rightarrow> string \<Rightarrow> ActionPlan" where
  "NewNoOp t1 alertID planID =
     zero_ActionPlan\<lparr>ap_AlertID := alertID, ap_PlanID := planID, ap_CreatedAt := t1,
       ap_Tier := ''observed'', ap_Reversible := True\<rparr>"

definition NewSoftBlock :: "gotime \<Rightarrow> gotime \<Rightarrow> string \<Rightarrow> string \<Rightarrow> int \<Rightarrow> ActionPlan" where
  "NewSoftBlock t1 t2 alertID planID score =
     zero_ActionPlan\<lparr>ap_AlertID := alertID, ap_PlanID := planID, ap_CreatedAt := t1,
       ap_Score := score, ap_Tier := ''triaged'', ap_Delay := 2 * second,
       ap_RequireStepUp := True, ap_Reversible := True, ap_ExpiresAt := t2 + 15 * minute\<rparr>"

definition NewSuspend :: "gotime \<Rightarrow> gotime \<Rightarrow> string \<Rightarrow> string \<Rightarrow> int \<Rightarrow> ActionPlan" where
  "NewSuspend t1 t2 alertID planID score =
     zero_ActionPlan\<lparr>ap_AlertID := alertID, ap_PlanID := planID, ap_CreatedAt := t1,
       ap_Score := score, ap_Tier := ''suspended'', ap_Snapshot := True,
       ap_SuspendProcess := True, ap_IsolateCgroup := True, ap_BanRemoteIP := True,
       ap_Reversible := True, ap_ExpiresAt := t2 + 2 * hour\<rparr>"

definition NewIsolate :: "gotime \<Rightarrow> gotime \<Rightarrow> string \<Rightarrow> string \<Rightarrow> int \<Rightarrow> ActionPlan" where
  "NewIsolate t1 t2 alertID planID score =
     (NewSuspend t1 t2 alertID planID score)\<lparr>ap_Tier := ''isolated'', ap_Memscan := True,
       ap_LockLocalUser := True\<rparr>"

definition NewContain ::
  "gotime \<Rightarrow> gotime \<Rightarrow> string \<Rightarrow> string \<Rightarrow> int \<Rightarrow> string list \<Rightarrow> ActionPlan" where
  "NewContain t1 t2 alertID planID score preconditions =
     (NewIsolate t1 t2 alertID planID score)\<lparr>ap_Tier := ''contained'', ap_IsolateHost := True,
       ap_Preconditions := preconditions\<rparr>"

definition AddCapabilityWarning :: "string \<Rightarrow> string \<Rightarrow> ActionPlan \<Rightarrow> ActionPlan" where
  "AddCapabilityWarning missing action p =
     p\<lparr>ap_CapabilityWarnings :=
         ap_CapabilityWarnings p @ [action @ '' skipped: missing capability '' @ missing]\<rparr>"

subsection \<open>The tier ladder\<close>

datatype tier = tierObserved | tierTriaged | tierSuspended | tierIsolated | tierContained

primrec tier_rank :: "tier \<Rightarrow> nat" where
  "tier_rank tierObserved = 0"
| "tier_rank tierTriaged = 1"
| "tier_rank tierSuspended = 2"
| "tier_rank tierIsolated = 3"
| "tier_rank tierContained = 4"

instantiation tier :: linorder
begin

definition less_eq_tier :: "tier \<Rightarrow> tier \<Rightarrow> bool" where
  "less_eq_tier a b = (tier_rank a \<le> tier_rank b)"

definition less_tier :: "tier \<Rightarrow> tier \<Rightarrow> bool" where
  "less_tier a b = (tier_rank a < tier_rank b)"

instance
proof
  fix a b :: tier
  show "a \<le> b \<Longrightarrow> b \<le> a \<Longrightarrow> a = b"
    by (cases a; cases b) (simp_all add: less_eq_tier_def)
qed (auto simp: less_eq_tier_def less_tier_def)

end

definition tierFromScore :: "int \<Rightarrow> tier" where
  "tierFromScore score =
     (if 100 \<le> score then tierContained
      else if 90 \<le> score then tierIsolated
      else if 75 \<le> score then tierSuspended
      else if 50 \<le> score then tierTriaged
      else tierObserved)"

definition tierFromState :: "ContainmentState \<Rightarrow> tier" where
  "tierFromState s =
     (if s = StateContained then tierContained
      else if s = StateIsolated then tierIsolated
      else if s = StateSuspended then tierSuspended
      else if s = StateTriaged then tierTriaged
      else tierObserved)"

definition upgradeForCrownJewel :: "tier \<Rightarrow> string \<Rightarrow> tier" where
  "upgradeForCrownJewel base cjTier =
     (if cjTier = ''L1'' \<or> cjTier = ''L2''
      then (if base < tierSuspended then tierSuspended else base)
      else if cjTier = ''L3'' then (if base < tierTriaged then tierTriaged else base)
      else base)"

definition upgradeForRuleMode :: "tier \<Rightarrow> RuleMode \<Rightarrow> tier" where
  "upgradeForRuleMode base mode =
     (case mode of
        ModeQuarantine \<Rightarrow> if base < tierSuspended then tierSuspended else base
      | ModeBlock \<Rightarrow> if base < tierIsolated then tierIsolated else base
      | ModeDetect \<Rightarrow> base)"

subsection \<open>The planner\<close>

record Input =
  in_Alert :: Alert
  in_Score :: int
  in_LineageID :: u64
  in_ProcKey :: string
  in_Caps :: "(ActionPlan \<Rightarrow> ActionPlan) option"
  in_State :: "Log option"
  in_CrownJewelTier :: string
  in_AttributedIPs :: "string list"
  in_BastionAvailable :: bool
  in_OffHostMirrorAvailable :: bool

definition buildPlanForTier :: "gotime \<Rightarrow> gotime \<Rightarrow> tier \<Rightarrow> Input \<Rightarrow> ActionPlan" where
  "buildPlanForTier t1 t2 t inp =
     (let eid = ev_ID (al_Event (in_Alert inp)) in
      case t of
        tierContained \<Rightarrow>
          NewContain t1 t2 eid [] (in_Score inp) [''bastion_count>=2'', ''off_host_mirror'']
      | tierIsolated \<Rightarrow> NewIsolate t1 t2 eid [] (in_Score inp)
      | tierSuspended \<Rightarrow> NewSuspend t1 t2 eid [] (in_Score inp)
      | tierTriaged \<Rightarrow> NewSoftBlock t1 t2 eid [] (in_Score inp)
      | tierObserved \<Rightarrow> NewNoOp t1 eid [])"

text \<open>The four stages of \<^verbatim>\<open>Plan\<close>: the tier, the Layer-5 check, the attribution gates, the reasons.\<close>

definition plan_tier :: "Input \<Rightarrow> tier" where
  "plan_tier inp =
     (let t = upgradeForRuleMode
                (upgradeForCrownJewel (tierFromScore (in_Score inp)) (in_CrownJewelTier inp))
                (al_Mode (in_Alert inp))
      in case in_State inp of
           None \<Rightarrow> t
         | Some l \<Rightarrow> let currentTier = tierFromState (Log_State l (in_LineageID inp))
                     in if t < currentTier then currentTier else t)"

definition plan_layer5 :: "Input \<Rightarrow> ActionPlan \<Rightarrow> ActionPlan" where
  "plan_layer5 inp p =
     (if ap_IsolateHost p \<and> \<not> (in_BastionAvailable inp \<and> in_OffHostMirrorAvailable inp)
      then AddCapabilityWarning ''bastion+off-host-mirror'' ''isolate_host''
             (p\<lparr>ap_IsolateHost := False, ap_Tier := ''isolated''\<rparr>)
      else if ap_IsolateHost p
      then p\<lparr>ap_Preconditions := ap_Preconditions p @ [''bastion_count>=2'', ''off_host_mirror'']\<rparr>
      else p)"

definition plan_attribution :: "Input \<Rightarrow> ActionPlan \<Rightarrow> ActionPlan" where
  "plan_attribution inp p =
     (let p1 = (if ap_BanRemoteIP p \<and> in_AttributedIPs inp = []
                then p\<lparr>ap_BanRemoteIP := False,
                       ap_Reasons := ap_Reasons p @ [''ban_remote_ip skipped: no attributed remote IPs'']\<rparr>
                else p)
      in if ap_Tarpit p1 \<and> in_AttributedIPs inp = [] then p1\<lparr>ap_Tarpit := False\<rparr>
         else if ap_Tarpit p1
         then p1\<lparr>ap_Reasons := ap_Reasons p1 @
                   [''tarpit attribution: ['' @ str_join '' '' (in_AttributedIPs inp) @ '']'']\<rparr>
         else p1)"

definition plan_reasons :: "Input \<Rightarrow> ActionPlan \<Rightarrow> ActionPlan" where
  "plan_reasons inp p =
     (let p1 = (if al_Reason (in_Alert inp) \<noteq> []
                then p\<lparr>ap_Reasons := ap_Reasons p @ [al_Reason (in_Alert inp)]\<rparr> else p)
      in if in_CrownJewelTier inp \<noteq> []
         then p1\<lparr>ap_Reasons := ap_Reasons p1 @ [''crown-jewel tier='' @ in_CrownJewelTier inp]\<rparr>
         else p1)"

definition Plan :: "string \<Rightarrow> gotime \<Rightarrow> gotime \<Rightarrow> Input \<Rightarrow> ActionPlan" where
  "Plan planID t1 t2 inp =
     (let p0 = buildPlanForTier t1 t2 (plan_tier inp) inp;
          p1 = p0\<lparr>ap_PlanID := planID, ap_LineageID := in_LineageID inp,
                 ap_ProcKey := in_ProcKey inp, ap_RuleID := al_RuleID (in_Alert inp),
                 ap_Score := in_Score inp\<rparr>;
          p2 = (if ap_AlertID p1 = [] then p1\<lparr>ap_AlertID := ev_ID (al_Event (in_Alert inp))\<rparr>
                else p1);
          p3 = plan_reasons inp (plan_attribution inp (plan_layer5 inp p2))
      in case in_Caps inp of None \<Rightarrow> p3 | Some annotate \<Rightarrow> annotate p3)"

subsection \<open>The specification of the planner\<close>

text \<open>
  The tier a plan should have, as the documentation of \<^verbatim>\<open>Plan\<close> puts it: the highest of what the
  score, the crown-jewel tier, the rule mode and the current containment state each ask for; and
  Layer 5 gives way to Layer 4 unless both operator preconditions hold.
\<close>

definition cj_floor :: "string \<Rightarrow> tier" where
  "cj_floor cj = (if cj \<in> {''L1'', ''L2''} then tierSuspended
     else if cj = ''L3'' then tierTriaged else tierObserved)"

primrec mode_floor :: "RuleMode \<Rightarrow> tier" where
  "mode_floor ModeDetect = tierObserved"
| "mode_floor ModeQuarantine = tierSuspended"
| "mode_floor ModeBlock = tierIsolated"

definition state_floor :: "Log option \<Rightarrow> u64 \<Rightarrow> tier" where
  "state_floor lo lid = (case lo of None \<Rightarrow> tierObserved | Some l \<Rightarrow> tierFromState (Log_State l lid))"

definition tier_spec :: "Input \<Rightarrow> tier" where
  "tier_spec inp = Max {tierFromScore (in_Score inp), cj_floor (in_CrownJewelTier inp),
     mode_floor (al_Mode (in_Alert inp)), state_floor (in_State inp) (in_LineageID inp)}"

definition layer5_ok :: "Input \<Rightarrow> bool" where
  "layer5_ok inp \<longleftrightarrow> in_BastionAvailable inp \<and> in_OffHostMirrorAvailable inp"

definition effective_tier :: "Input \<Rightarrow> tier" where
  "effective_tier inp = (if layer5_ok inp then tier_spec inp else min tierIsolated (tier_spec inp))"

primrec tier_name :: "tier \<Rightarrow> string" where
  "tier_name tierObserved = ''observed''"
| "tier_name tierTriaged = ''triaged''"
| "tier_name tierSuspended = ''suspended''"
| "tier_name tierIsolated = ''isolated''"
| "tier_name tierContained = ''contained''"

text \<open>The actions of each tier, in the order they run; \<open>b\<close> says whether a remote IP is attributed.\<close>

primrec tier_actions :: "tier \<Rightarrow> bool \<Rightarrow> string list" where
  "tier_actions tierObserved b = []"
| "tier_actions tierTriaged b = [''delay'', ''require_step_up'']"
| "tier_actions tierSuspended b =
     [''snapshot'', ''suspend_process'', ''isolate_cgroup''] @ (if b then [''ban_remote_ip''] else [])"
| "tier_actions tierIsolated b =
     [''snapshot'', ''memscan'', ''suspend_process'', ''isolate_cgroup''] @
     (if b then [''ban_remote_ip''] else []) @ [''lock_local_user'']"
| "tier_actions tierContained b =
     [''snapshot'', ''memscan'', ''suspend_process'', ''isolate_cgroup''] @
     (if b then [''ban_remote_ip''] else []) @ [''isolate_host'', ''lock_local_user'']"

lemma Actions_concat: "Actions p = concat (map (\<lambda>a. if snd a p then [fst a] else []) actionOrder)"
proof -
  have "map fst (filter (\<lambda>a. snd a p) as) = concat (map (\<lambda>a. if snd a p then [fst a] else []) as)" for as
    by (induction as) simp_all
  then show ?thesis by (simp add: Actions_def)
qed

subsection \<open>Lemmas on tiers\<close>

lemmas tier_order = less_eq_tier_def less_tier_def

lemma tierObserved_least [simp]: "tierObserved \<le> t"
  by (simp add: tier_order)

lemma tierContained_greatest [simp]: "t \<le> tierContained"
  by (cases t) (simp_all add: tier_order)

lemma max_tierObserved [simp]: "max tierObserved t = t" "max t tierObserved = t"
  by (simp_all add: max.absorb1 max.absorb2)

lemma raise_tier: "(if b < (t::tier) then t else b) = max b t"
  by (auto simp: max_def)

lemma upgradeForCrownJewel_max: "upgradeForCrownJewel b cj = max b (cj_floor cj)"
  by (simp add: upgradeForCrownJewel_def cj_floor_def raise_tier)

lemma upgradeForRuleMode_max: "upgradeForRuleMode b m = max b (mode_floor m)"
  by (cases m) (simp_all add: upgradeForRuleMode_def raise_tier)

lemma plan_tier_max:
  "plan_tier inp = max (max (max (tierFromScore (in_Score inp)) (cj_floor (in_CrownJewelTier inp)))
     (mode_floor (al_Mode (in_Alert inp)))) (state_floor (in_State inp) (in_LineageID inp))"
  by (simp add: plan_tier_def upgradeForRuleMode_max upgradeForCrownJewel_max state_floor_def
      raise_tier split: option.split)

lemma plan_tier_spec: "plan_tier inp = tier_spec inp"
  unfolding plan_tier_max tier_spec_def by (simp add: max.assoc)

lemma tierFromScore_mono: "s \<le> s' \<Longrightarrow> tierFromScore s \<le> tierFromScore s'"
  by (auto simp: tierFromScore_def tier_order)

lemma tier_spec_mono:
  "s \<le> s' \<Longrightarrow> tier_spec (inp\<lparr>in_Score := s\<rparr>) \<le> tier_spec (inp\<lparr>in_Score := s'\<rparr>)"
  unfolding plan_tier_spec [symmetric] plan_tier_max
  using tierFromScore_mono [of s s'] by (auto intro: max.mono simp del: max.bounded_iff)

lemma effective_tier_mono:
  "s \<le> s' \<Longrightarrow> effective_tier (inp\<lparr>in_Score := s\<rparr>) \<le> effective_tier (inp\<lparr>in_Score := s'\<rparr>)"
  using tier_spec_mono [of s s' inp] 
  by (auto simp: effective_tier_def layer5_ok_def min_le_iff_disj)

lemma effective_tier_cases:
  "effective_tier inp =
     (if plan_tier inp = tierContained \<and> \<not> layer5_ok inp then tierIsolated else plan_tier inp)"
  by (cases "plan_tier inp")
    (simp_all add: effective_tier_def plan_tier_spec [symmetric] min_def tier_order)

subsection \<open>The interface of the capability checker and the planner behind it\<close>

locale capability_checker =
  fixes annotate :: "ActionPlan \<Rightarrow> ActionPlan"
  assumes annotate_appends:
    "\<exists>ws. annotate p = p\<lparr>ap_CapabilityWarnings := ap_CapabilityWarnings p @ ws\<rparr>"
begin

lemma annotate_frame [simp]:
  "ap_AlertID (annotate p) = ap_AlertID p" "ap_PlanID (annotate p) = ap_PlanID p"
  "ap_RuleID (annotate p) = ap_RuleID p" "ap_LineageID (annotate p) = ap_LineageID p"
  "ap_Score (annotate p) = ap_Score p" "ap_Tier (annotate p) = ap_Tier p"
  "ap_Snapshot (annotate p) = ap_Snapshot p" "ap_Memscan (annotate p) = ap_Memscan p"
  "ap_Delay (annotate p) = ap_Delay p" "ap_RequireStepUp (annotate p) = ap_RequireStepUp p"
  "ap_SuspendProcess (annotate p) = ap_SuspendProcess p"
  "ap_IsolateCgroup (annotate p) = ap_IsolateCgroup p"
  "ap_BanRemoteIP (annotate p) = ap_BanRemoteIP p" "ap_Tarpit (annotate p) = ap_Tarpit p"
  "ap_IsolateHost (annotate p) = ap_IsolateHost p"
  "ap_RemediateFile (annotate p) = ap_RemediateFile p"
  "ap_LockLocalUser (annotate p) = ap_LockLocalUser p"
  "ap_KillProcess (annotate p) = ap_KillProcess p" "ap_Reasons (annotate p) = ap_Reasons p"
  "ap_Preconditions (annotate p) = ap_Preconditions p"
  "ap_Reversible (annotate p) = ap_Reversible p" "ap_ExpiresAt (annotate p) = ap_ExpiresAt p"
  using annotate_appends [of p] by auto

lemma Validate_annotate [simp]: "ActionPlan_Validate (Some (annotate p)) = ActionPlan_Validate (Some p)"
  by (simp add: ActionPlan_Validate_def)

lemma Actions_annotate [simp]: "Actions (annotate p) = Actions p"
  by (simp add: Actions_def actionOrder_def)

end

text \<open>What each stage of the planner can change.\<close>

lemma plan_reasons_frame: "\<exists>rs. plan_reasons inp p = p\<lparr>ap_Reasons := rs\<rparr>"
  by (cases p) (simp add: plan_reasons_def Let_def)

lemma plan_attribution_frame:
  "\<exists>rs. plan_attribution inp p = p\<lparr>ap_Reasons := rs,
     ap_BanRemoteIP := ap_BanRemoteIP p \<and> in_AttributedIPs inp \<noteq> [],
     ap_Tarpit := ap_Tarpit p \<and> in_AttributedIPs inp \<noteq> []\<rparr>"
  by (cases p) (auto simp: plan_attribution_def Let_def)

lemma plan_layer5_frame:
  "\<exists>ws pre. (ap_IsolateHost p \<and> layer5_ok inp \<longrightarrow> pre \<noteq> []) \<and> plan_layer5 inp p = p\<lparr>ap_CapabilityWarnings := ws, ap_Preconditions := pre,
     ap_IsolateHost := ap_IsolateHost p \<and> layer5_ok inp,
     ap_Tier := (if ap_IsolateHost p \<and> \<not> layer5_ok inp then ''isolated'' else ap_Tier p)\<rparr>"
  by (cases p) (auto simp: plan_layer5_def layer5_ok_def AddCapabilityWarning_def Let_def)

lemmas plan_makers = buildPlanForTier_def NewContain_def NewIsolate_def NewSuspend_def
  NewSoftBlock_def NewNoOp_def zero_ActionPlan_def Let_def

lemma buildPlanForTier_AlertID [simp]:
  "ap_AlertID (buildPlanForTier t1 t2 t inp) = ev_ID (al_Event (in_Alert inp))"
  by (cases t) (simp_all add: plan_makers)

definition plan_body :: "string \<Rightarrow> gotime \<Rightarrow> gotime \<Rightarrow> Input \<Rightarrow> ActionPlan \<Rightarrow> bool" where
  "plan_body i t1 t2 inp p \<longleftrightarrow> (let b = buildPlanForTier t1 t2 (plan_tier inp) inp in
     \<exists>rs ws pre. (ap_IsolateHost b \<and> layer5_ok inp \<longrightarrow> pre \<noteq> []) \<and> p = b\<lparr>ap_PlanID := i, ap_LineageID := in_LineageID inp,
       ap_ProcKey := in_ProcKey inp, ap_RuleID := al_RuleID (in_Alert inp), ap_Score := in_Score inp,
       ap_CapabilityWarnings := ws, ap_Preconditions := pre, ap_Reasons := rs,
       ap_IsolateHost := ap_IsolateHost b \<and> layer5_ok inp,
       ap_Tier := (if ap_IsolateHost b \<and> \<not> layer5_ok inp then ''isolated'' else ap_Tier b),
       ap_BanRemoteIP := ap_BanRemoteIP b \<and> in_AttributedIPs inp \<noteq> [],
       ap_Tarpit := ap_Tarpit b \<and> in_AttributedIPs inp \<noteq> []\<rparr>)"

lemma plan_stages_body:
  assumes "b = buildPlanForTier t1 t2 (plan_tier inp) inp"
  shows "plan_body i t1 t2 inp (plan_reasons inp (plan_attribution inp (plan_layer5 inp
    (b\<lparr>ap_PlanID := i, ap_LineageID := in_LineageID inp, ap_ProcKey := in_ProcKey inp,
       ap_RuleID := al_RuleID (in_Alert inp), ap_Score := in_Score inp\<rparr>))))"
    (is "plan_body i t1 t2 inp (plan_reasons inp (plan_attribution inp (plan_layer5 inp ?b)))")
proof -
  obtain ws pre where 0: "ap_IsolateHost ?b \<and> layer5_ok inp \<longrightarrow> pre \<noteq> []"
    and 1: "plan_layer5 inp ?b = ?b\<lparr>ap_CapabilityWarnings := ws, ap_Preconditions := pre,
     ap_IsolateHost := ap_IsolateHost ?b \<and> layer5_ok inp,
     ap_Tier := (if ap_IsolateHost ?b \<and> \<not> layer5_ok inp then ''isolated'' else ap_Tier ?b)\<rparr>" (is "_ = ?c")
    using plan_layer5_frame [of ?b inp] by blast
  obtain rs where 2: "plan_attribution inp ?c = ?c\<lparr>ap_Reasons := rs,
     ap_BanRemoteIP := ap_BanRemoteIP ?c \<and> in_AttributedIPs inp \<noteq> [],
     ap_Tarpit := ap_Tarpit ?c \<and> in_AttributedIPs inp \<noteq> []\<rparr>" (is "_ = ?d")
    using plan_attribution_frame [of inp ?c] by blast
  obtain rs' where 3: "plan_reasons inp ?d = ?d\<lparr>ap_Reasons := rs'\<rparr>"
    using plan_reasons_frame [of inp ?d] by blast
  show ?thesis
    unfolding plan_body_def Let_def assms [symmetric] 1 2 3
    by (rule exI [of _ rs'], rule exI [of _ ws], rule exI [of _ pre]) (use 0 in simp)
qed

lemma AlertID_same: "ap_AlertID p = a \<Longrightarrow> p\<lparr>ap_AlertID := a\<rparr> = p"
  by (cases p) simp

lemma Plan_body:
  assumes "in_Caps inp = None"
  shows "plan_body i t1 t2 inp (Plan i t1 t2 inp)"
proof -
  let ?p1 = "(buildPlanForTier t1 t2 (plan_tier inp) inp)\<lparr>ap_PlanID := i,
    ap_LineageID := in_LineageID inp, ap_ProcKey := in_ProcKey inp,
    ap_RuleID := al_RuleID (in_Alert inp), ap_Score := in_Score inp\<rparr>"
  have "(if ap_AlertID ?p1 = [] then ?p1\<lparr>ap_AlertID := ev_ID (al_Event (in_Alert inp))\<rparr> else ?p1) = ?p1"
    using AlertID_same [of ?p1 "ev_ID (al_Event (in_Alert inp))"] by simp
  then show ?thesis
    using plan_stages_body [OF refl, of i t1 t2 inp] assms
    unfolding Plan_def Let_def by (simp only: option.case)
qed

text \<open>What the planner decides before the checker is asked.\<close>

lemma Plan_bare_fields:
  assumes "in_Caps inp = None" and b: "b = buildPlanForTier t1 t2 (plan_tier inp) inp"
  shows "ap_AlertID (Plan i t1 t2 inp) = ap_AlertID b" "ap_PlanID (Plan i t1 t2 inp) = i"
    "ap_RuleID (Plan i t1 t2 inp) = al_RuleID (in_Alert inp)"
    "ap_Score (Plan i t1 t2 inp) = in_Score inp"
    "ap_Snapshot (Plan i t1 t2 inp) = ap_Snapshot b" "ap_Memscan (Plan i t1 t2 inp) = ap_Memscan b"
    "ap_Delay (Plan i t1 t2 inp) = ap_Delay b"
    "ap_RequireStepUp (Plan i t1 t2 inp) = ap_RequireStepUp b"
    "ap_SuspendProcess (Plan i t1 t2 inp) = ap_SuspendProcess b"
    "ap_IsolateCgroup (Plan i t1 t2 inp) = ap_IsolateCgroup b"
    "ap_BanRemoteIP (Plan i t1 t2 inp) = (ap_BanRemoteIP b \<and> in_AttributedIPs inp \<noteq> [])"
    "ap_Tarpit (Plan i t1 t2 inp) = (ap_Tarpit b \<and> in_AttributedIPs inp \<noteq> [])"
    "ap_IsolateHost (Plan i t1 t2 inp) = (ap_IsolateHost b \<and> layer5_ok inp)"
    "ap_RemediateFile (Plan i t1 t2 inp) = ap_RemediateFile b"
    "ap_LockLocalUser (Plan i t1 t2 inp) = ap_LockLocalUser b"
    "ap_KillProcess (Plan i t1 t2 inp) = ap_KillProcess b"
    "ap_Reversible (Plan i t1 t2 inp) = ap_Reversible b"
    "ap_ExpiresAt (Plan i t1 t2 inp) = ap_ExpiresAt b"
    "ap_Tier (Plan i t1 t2 inp) = (if ap_IsolateHost b \<and> \<not> layer5_ok inp then ''isolated'' else ap_Tier b)"
    "ap_IsolateHost b \<and> layer5_ok inp \<Longrightarrow> ap_Preconditions (Plan i t1 t2 inp) \<noteq> []"
  using Plan_body [OF assms(1), of i t1 t2] unfolding plan_body_def Let_def b [symmetric] by auto

lemmas Plan_bare = Plan_bare_fields [OF _ refl]

lemma Plan_bare_tier:
  assumes "in_Caps inp = None"
  shows "ap_Tier (Plan i t1 t2 inp) = tier_name (effective_tier inp)"
  by (cases "plan_tier inp") (simp_all add: Plan_bare assms plan_makers effective_tier_cases)

lemma Plan_bare_actions:
  assumes "in_Caps inp = None"
  shows "Actions (Plan i t1 t2 inp) = tier_actions (effective_tier inp) (in_AttributedIPs inp \<noteq> [])"
  by (cases "plan_tier inp")
    (simp_all add: Plan_bare assms plan_makers effective_tier_cases Actions_concat actionOrder_def)

lemma Plan_bare_reversible:
  assumes "in_Caps inp = None"
  shows "ap_Reversible (Plan i t1 t2 inp) \<and> \<not> HasDestructiveAction (Plan i t1 t2 inp)"
  by (cases "plan_tier inp") (simp_all add: Plan_bare assms plan_makers HasDestructiveAction_def)

lemma Plan_bare_expiry:
  assumes "in_Caps inp = None"
  shows "ap_ExpiresAt (Plan i t1 t2 inp) =
    (case effective_tier inp of tierObserved \<Rightarrow> 0 | tierTriaged \<Rightarrow> t2 + 15 * minute
     | _ \<Rightarrow> t2 + 2 * hour)"
  by (cases "plan_tier inp") (simp_all add: Plan_bare assms plan_makers effective_tier_cases)

lemma Plan_bare_valid:
  assumes "in_Caps inp = None" "i \<noteq> []" "0 \<le> in_Score inp" "in_Score inp \<le> 100"
    "ev_ID (al_Event (in_Alert inp)) \<noteq> [] \<or> al_RuleID (in_Alert inp) \<noteq> []"
  shows "ActionPlan_Validate (Some (Plan i t1 t2 inp)) = None"
proof -
  have "\<not> ap_KillProcess (Plan i t1 t2 inp) \<and> \<not> ap_RemediateFile (Plan i t1 t2 inp) \<and>
      \<not> ap_Tarpit (Plan i t1 t2 inp)"
    by (cases "plan_tier inp") (simp_all add: Plan_bare assms plan_makers)
  then show ?thesis
    using assms by (auto simp: ActionPlan_Validate_def Plan_bare)
qed

text \<open>The only warning the planner adds itself is the one for the lowered host isolation.\<close>

lemma stage_warnings [simp]:
  "ap_CapabilityWarnings (plan_reasons inp p) = ap_CapabilityWarnings p"
  "ap_CapabilityWarnings (plan_attribution inp p) = ap_CapabilityWarnings p"
  by (simp_all add: plan_reasons_def plan_attribution_def Let_def)

lemma layer5_warnings:
  "ap_CapabilityWarnings (plan_layer5 inp p) = ap_CapabilityWarnings p @
     (if ap_IsolateHost p \<and> \<not> layer5_ok inp
      then [''isolate_host skipped: missing capability bastion+off-host-mirror''] else [])"
  by (simp add: plan_layer5_def layer5_ok_def AddCapabilityWarning_def)

lemma build_warnings [simp]:
  "ap_CapabilityWarnings (buildPlanForTier t1 t2 t inp) = []"
  "ap_IsolateHost (buildPlanForTier t1 t2 t inp) \<longleftrightarrow> t = tierContained"
  by (cases t; simp add: plan_makers)+

lemma Plan_bare_warnings:
  assumes "in_Caps inp = None"
  shows "ap_CapabilityWarnings (Plan i t1 t2 inp) =
    (if plan_tier inp = tierContained \<and> \<not> layer5_ok inp
     then [''isolate_host skipped: missing capability bastion+off-host-mirror''] else [])"
  by (simp add: Plan_def Let_def assms layer5_warnings)

text \<open>The checker runs last.\<close>

lemma plan_Caps_irrelevant:
  "plan_tier (inp\<lparr>in_Caps := co\<rparr>) = plan_tier inp"
  "buildPlanForTier t1 t2 t (inp\<lparr>in_Caps := co\<rparr>) = buildPlanForTier t1 t2 t inp"
  "plan_layer5 (inp\<lparr>in_Caps := co\<rparr>) = plan_layer5 inp"
  "plan_attribution (inp\<lparr>in_Caps := co\<rparr>) = plan_attribution inp"
  "plan_reasons (inp\<lparr>in_Caps := co\<rparr>) = plan_reasons inp"
  by (simp_all add: plan_tier_def buildPlanForTier_def plan_layer5_def plan_attribution_def
      plan_reasons_def Let_def fun_eq_iff split: option.split tier.split)

lemma Plan_annotated:
  "Plan i t1 t2 (inp\<lparr>in_Caps := co\<rparr>) =
     (case co of None \<Rightarrow> Plan i t1 t2 (inp\<lparr>in_Caps := None\<rparr>)
      | Some annotate \<Rightarrow> annotate (Plan i t1 t2 (inp\<lparr>in_Caps := None\<rparr>)))"
  by (cases co) (simp_all add: Plan_def Let_def plan_Caps_irrelevant)

lemma effective_tier_Caps [simp]: "effective_tier (inp\<lparr>in_Caps := co\<rparr>) = effective_tier inp"
  by (simp add: effective_tier_def layer5_ok_def tier_spec_def)

context capability_checker
begin

lemma Plan_tier: "ap_Tier (Plan i t1 t2 (inp\<lparr>in_Caps := Some annotate\<rparr>)) = tier_name (effective_tier inp)"
  by (simp add: Plan_annotated [where co = "Some annotate"] Plan_bare_tier)

lemma Plan_actions:
  "Actions (Plan i t1 t2 (inp\<lparr>in_Caps := Some annotate\<rparr>)) =
     tier_actions (effective_tier inp) (in_AttributedIPs inp \<noteq> [])"
  by (simp add: Plan_annotated [where co = "Some annotate"] Plan_bare_actions)

lemma Plan_valid:
  assumes "i \<noteq> []" "0 \<le> in_Score inp" "in_Score inp \<le> 100"
    "ev_ID (al_Event (in_Alert inp)) \<noteq> [] \<or> al_RuleID (in_Alert inp) \<noteq> []"
  shows "ActionPlan_Validate (Some (Plan i t1 t2 (inp\<lparr>in_Caps := Some annotate\<rparr>))) = None"
  using Plan_bare_valid [of "inp\<lparr>in_Caps := None\<rparr>" i t1 t2] assms
  by (simp add: Plan_annotated [where co = "Some annotate"])

lemma Plan_reversible:
  "ap_Reversible (Plan i t1 t2 (inp\<lparr>in_Caps := Some annotate\<rparr>)) \<and>
   \<not> HasDestructiveAction (Plan i t1 t2 (inp\<lparr>in_Caps := Some annotate\<rparr>))"
  using Plan_bare_reversible [of "inp\<lparr>in_Caps := None\<rparr>" i t1 t2]
  by (simp add: Plan_annotated [where co = "Some annotate"] HasDestructiveAction_def)

lemma Plan_expiry:
  "ap_ExpiresAt (Plan i t1 t2 (inp\<lparr>in_Caps := Some annotate\<rparr>)) =
    (case effective_tier inp of tierObserved \<Rightarrow> 0 | tierTriaged \<Rightarrow> t2 + 15 * minute
     | _ \<Rightarrow> t2 + 2 * hour)"
  by (simp add: Plan_annotated [where co = "Some annotate"] Plan_bare_expiry)

end

text \<open>No checker at all is the checker that adds nothing.\<close>

interpretation no_caps: capability_checker id
  by unfold_locales (auto intro: exI [of _ "[]"])

lemma Plan_no_caps: "Plan i t1 t2 (inp\<lparr>in_Caps := None\<rparr>) = Plan i t1 t2 (inp\<lparr>in_Caps := Some id\<rparr>)"
  by (simp add: Plan_annotated [where co = "Some id"])

end
