(* ===== verification/Capability.thy ===== *)
theory Capability
  imports Decision
begin

text \<open>
  The inventory of what this host can do, \<^verbatim>\<open>pkg/runtime/capabilityset.go\<close>: the probes that fill it
  in, the setters of the subsystems, and the warnings for the actions of a plan whose
  capabilities are missing.

  The probes read files, so they take the file system as an argument: the permission bits and the
  content of a path, \<open>None\<close> where \<^verbatim>\<open>Stat\<close> or \<^verbatim>\<open>ReadFile\<close> returns an error. \<open>AnnotatePlan\<close> provides the
  \<open>capability_checker\<close> interface of the planner.
\<close>

unbundle bit_operations_syntax

subsection \<open>The host\<close>

record hostfs =
  fs_mode :: "string \<Rightarrow> u32 option"
  fs_read :: "string \<Rightarrow> string option"

text \<open>An executable has one of the permission bits \<^verbatim>\<open>0111\<close>, that is \<open>73\<close>.\<close>

definition binaryExists :: "hostfs \<Rightarrow> string \<Rightarrow> bool" where
  "binaryExists fs p = (case fs_mode fs p of None \<Rightarrow> False | Some m \<Rightarrow> m AND 73 \<noteq> 0)"

definition isCgroupV2 :: "hostfs \<Rightarrow> bool" where
  "isCgroupV2 fs = (fs_mode fs ''/sys/fs/cgroup/cgroup.controllers'' \<noteq> None)"

definition readBoolSysctl :: "hostfs \<Rightarrow> string \<Rightarrow> bool \<Rightarrow> bool" where
  "readBoolSysctl fs path def =
     (case fs_read fs path of None \<Rightarrow> def
      | Some b \<Rightarrow> let s = trim_space b in s \<noteq> '''' \<and> s \<noteq> ''0'')"

definition kernelHasBPFLSM :: "hostfs \<Rightarrow> bool" where
  "kernelHasBPFLSM fs = (case fs_read fs ''/sys/kernel/security/lsm'' of None \<Rightarrow> False
     | Some b \<Rightarrow> str_contains b ''bpf'')"

definition readKernelVersion :: "hostfs \<Rightarrow> string" where
  "readKernelVersion fs = (case fs_read fs ''/proc/sys/kernel/osrelease'' of None \<Rightarrow> ''''
     | Some b \<Rightarrow> trim_space b)"

fun atoi_from :: "int \<Rightarrow> string \<Rightarrow> int" where
  "atoi_from n [] = n"
| "atoi_from n (c # s) =
     (let r = int (of_char c) in
      if r < 48 \<or> 57 < r then n else atoi_from (wrap64 (n * 10 + (r - 48))) s)"

definition atoi :: "string \<Rightarrow> int" where
  "atoi s = atoi_from 0 s"

definition kernelAtLeast :: "string \<Rightarrow> int \<Rightarrow> int \<Rightarrow> bool" where
  "kernelAtLeast release wantMajor wantMinor =
     (if release = '''' then False
      else case str_splitn 3 CHR ''.'' release of
             p0 # p1 # _ \<Rightarrow>
               (let major = atoi p0; minor = atoi p1
                in if wantMajor < major then True
                   else if major < wantMajor then False
                   else wantMinor \<le> minor)
           | _ \<Rightarrow> False)"

subsection \<open>The inventory\<close>

record CapabilitySet =
  cs_DiscoveredAt :: gotime
  cs_Kernel :: string
  cs_GOOS :: string
  cs_EBPFLoaded :: bool
  cs_BPFLSM :: bool
  cs_HasNFTables :: bool
  cs_HasCgroupV2 :: bool
  cs_HasUserNS :: bool
  cs_BPFSendSignal :: bool
  cs_BPFOverrideRet :: bool
  cs_NetbanReady :: bool
  cs_QuarantineReady :: bool
  cs_RemediateReady :: bool
  cs_SnapshotReady :: bool
  cs_MemscanReady :: bool
  cs_TarpitReady :: bool
  cs_BastionCount :: int
  cs_OffHostMirror :: bool
  cs_WebAuthnReady :: bool
  cs_WitnessedKnobs :: "(string, bool) gomap option"
  cs_Notes :: "string list"

text \<open>\<^verbatim>\<open>New\<close> and \<^verbatim>\<open>Discover\<close>; \<open>goos\<close> is the constant \<^verbatim>\<open>runtime.GOOS\<close> of the build.\<close>

definition CapabilitySet_New :: "string \<Rightarrow> CapabilitySet" where
  "CapabilitySet_New goos =
     \<lparr>cs_DiscoveredAt = 0, cs_Kernel = '''', cs_GOOS = goos, cs_EBPFLoaded = False,
      cs_BPFLSM = False, cs_HasNFTables = False, cs_HasCgroupV2 = False, cs_HasUserNS = False,
      cs_BPFSendSignal = False, cs_BPFOverrideRet = False, cs_NetbanReady = False,
      cs_QuarantineReady = False, cs_RemediateReady = False, cs_SnapshotReady = False,
      cs_MemscanReady = False, cs_TarpitReady = False, cs_BastionCount = 0,
      cs_OffHostMirror = False, cs_WebAuthnReady = False, cs_WitnessedKnobs = Some [],
      cs_Notes = []\<rparr>"

definition Discover :: "string \<Rightarrow> hostfs \<Rightarrow> gotime \<Rightarrow> CapabilitySet \<Rightarrow> CapabilitySet" where
  "Discover goos fs now c =
     (let c0 = c\<lparr>cs_DiscoveredAt := now, cs_Notes := []\<rparr> in
      if goos \<noteq> ''linux''
      then c0\<lparr>cs_Notes := [''non-linux: all linux-specific capabilities false'']\<rparr>
      else let kernel = readKernelVersion fs;
               c1 = c0\<lparr>cs_Kernel := kernel, cs_HasCgroupV2 := isCgroupV2 fs,
                 cs_HasNFTables := binaryExists fs ''/usr/sbin/nft'' \<or> binaryExists fs ''/sbin/nft'',
                 cs_HasUserNS := readBoolSysctl fs ''/proc/sys/kernel/unprivileged_userns_clone'' True,
                 cs_BPFLSM := kernelHasBPFLSM fs\<rparr>;
               c2 = (if kernelAtLeast kernel 5 3 then c1\<lparr>cs_BPFSendSignal := True\<rparr> else c1)
           in c2\<lparr>cs_BPFOverrideRet := readBoolSysctl fs ''/proc/sys/kernel/bpf_stats_enabled'' False\<rparr>)"

text \<open>The setters, which the daemon calls as its subsystems come up.\<close>

datatype cap_mark =
    MarkEBPFLoaded | MarkNetbanReady | MarkQuarantineReady | MarkRemediateReady
  | MarkSnapshotReady | MarkMemscanReady | MarkTarpitReady | MarkWebAuthnReady
  | MarkOffHostMirror

primrec Mark :: "cap_mark \<Rightarrow> CapabilitySet \<Rightarrow> CapabilitySet" where
  "Mark MarkEBPFLoaded c = c\<lparr>cs_EBPFLoaded := True\<rparr>"
| "Mark MarkNetbanReady c = c\<lparr>cs_NetbanReady := True\<rparr>"
| "Mark MarkQuarantineReady c = c\<lparr>cs_QuarantineReady := True\<rparr>"
| "Mark MarkRemediateReady c = c\<lparr>cs_RemediateReady := True\<rparr>"
| "Mark MarkSnapshotReady c = c\<lparr>cs_SnapshotReady := True\<rparr>"
| "Mark MarkMemscanReady c = c\<lparr>cs_MemscanReady := True\<rparr>"
| "Mark MarkTarpitReady c = c\<lparr>cs_TarpitReady := True\<rparr>"
| "Mark MarkWebAuthnReady c = c\<lparr>cs_WebAuthnReady := True\<rparr>"
| "Mark MarkOffHostMirror c = c\<lparr>cs_OffHostMirror := True\<rparr>"

definition SetBastionCount :: "int \<Rightarrow> CapabilitySet \<Rightarrow> CapabilitySet" where
  "SetBastionCount n c = c\<lparr>cs_BastionCount := n\<rparr>"

definition RecordWitness :: "string \<Rightarrow> CapabilitySet \<Rightarrow> CapabilitySet" where
  "RecordWitness key c =
     (let m = (case cs_WitnessedKnobs c of None \<Rightarrow> [] | Some m \<Rightarrow> m)
      in c\<lparr>cs_WitnessedKnobs := Some (go_set key True m)\<rparr>)"

text \<open>The copy \<^verbatim>\<open>Snapshot\<close> returns has the fields of the set, without its lock.\<close>

definition Capability_Snapshot :: "CapabilitySet \<Rightarrow> CapabilitySet" where
  "Capability_Snapshot c =
     c\<lparr>cs_WitnessedKnobs := (case cs_WitnessedKnobs c of None \<Rightarrow> None
         | Some m \<Rightarrow> Some (foldl (\<lambda>out e. go_set (fst e) (snd e) out) [] m))\<rparr>"

subsection \<open>The warnings of a plan\<close>

definition require :: "bool \<Rightarrow> string \<Rightarrow> string \<Rightarrow> string list" where
  "require have_it action missing =
     (if \<not> have_it then [action @ '' requires '' @ missing] else [])"

definition CanExecute :: "CapabilitySet \<Rightarrow> ActionPlan option \<Rightarrow> string list" where
  "CanExecute c po =
     (case po of None \<Rightarrow> [] | Some p \<Rightarrow>
       (if ap_Snapshot p then require (cs_SnapshotReady c) ''snapshot'' ''pkg/snapshot ready'' else []) @
       (if ap_Memscan p then require (cs_MemscanReady c) ''memscan'' ''pkg/memscan ready'' else []) @
       (if ap_SuspendProcess p
        then require (cs_QuarantineReady c) ''suspend_process'' ''pkg/quarantine ready'' else []) @
       (if ap_IsolateCgroup p
        then require (cs_HasCgroupV2 c) ''isolate_cgroup'' ''cgroup v2'' @
             require (cs_HasNFTables c) ''isolate_cgroup'' ''nftables binary'' @
             require (cs_QuarantineReady c) ''isolate_cgroup'' ''pkg/quarantine ready'' else []) @
       (if ap_BanRemoteIP p
        then require (cs_NetbanReady c) ''ban_remote_ip'' ''pkg/netban ready'' @
             require (cs_HasNFTables c) ''ban_remote_ip'' ''nftables binary'' else []) @
       (if ap_Tarpit p
        then require (cs_TarpitReady c) ''tarpit'' ''pkg/tarpit ready'' @
             require (cs_HasNFTables c) ''tarpit'' ''nftables binary'' else []) @
       (if ap_IsolateHost p
        then require (2 \<le> cs_BastionCount c) ''isolate_host'' ''BastionCount>=2'' @
             require (cs_OffHostMirror c) ''isolate_host'' ''off-host evidence mirror'' @
             require (cs_NetbanReady c) ''isolate_host'' ''pkg/netban ready'' else []) @
       (if ap_RemediateFile p
        then require (cs_RemediateReady c) ''remediate_file'' ''pkg/remediate ready'' else []) @
       (if ap_RequireStepUp p
        then require (cs_WebAuthnReady c) ''require_step_up'' ''WebAuthn endpoint live'' else []))"

definition AnnotatePlan :: "CapabilitySet \<Rightarrow> ActionPlan \<Rightarrow> ActionPlan" where
  "AnnotatePlan c p =
     foldl (\<lambda>q w. q\<lparr>ap_CapabilityWarnings := ap_CapabilityWarnings q @ [w]\<rparr>) p (CanExecute c (Some p))"

subsection \<open>The contract\<close>

text \<open>What each action needs, as a table, and whether the host has it.\<close>

definition action_needs :: "(string, string list) gomap" where
  "action_needs =
    [(''snapshot'', [''pkg/snapshot ready'']),
     (''memscan'', [''pkg/memscan ready'']),
     (''suspend_process'', [''pkg/quarantine ready'']),
     (''isolate_cgroup'', [''cgroup v2'', ''nftables binary'', ''pkg/quarantine ready'']),
     (''ban_remote_ip'', [''pkg/netban ready'', ''nftables binary'']),
     (''tarpit'', [''pkg/tarpit ready'', ''nftables binary'']),
     (''isolate_host'', [''BastionCount>=2'', ''off-host evidence mirror'', ''pkg/netban ready'']),
     (''remediate_file'', [''pkg/remediate ready'']),
     (''require_step_up'', [''WebAuthn endpoint live''])]"

definition host_has :: "CapabilitySet \<Rightarrow> (string, bool) gomap" where
  "host_has c =
    [(''pkg/snapshot ready'', cs_SnapshotReady c), (''pkg/memscan ready'', cs_MemscanReady c),
     (''pkg/quarantine ready'', cs_QuarantineReady c), (''cgroup v2'', cs_HasCgroupV2 c),
     (''nftables binary'', cs_HasNFTables c), (''pkg/netban ready'', cs_NetbanReady c),
     (''pkg/tarpit ready'', cs_TarpitReady c), (''BastionCount>=2'', 2 \<le> cs_BastionCount c),
     (''off-host evidence mirror'', cs_OffHostMirror c),
     (''pkg/remediate ready'', cs_RemediateReady c), (''WebAuthn endpoint live'', cs_WebAuthnReady c)]"

definition missing_needs :: "CapabilitySet \<Rightarrow> string \<Rightarrow> string list" where
  "missing_needs c a = filter (\<lambda>m. \<not> go_get_or False (host_has c) m) (go_get_or [] action_needs a)"

subsection \<open>Lemmas\<close>

lemma set_require [simp]:
  "set (require h a m) = (if h then {} else {a @ '' requires '' @ m})"
  by (simp add: require_def)

lemma missing_needs_table:
  "missing_needs c ''snapshot'' = (if cs_SnapshotReady c then [] else [''pkg/snapshot ready''])"
  "missing_needs c ''memscan'' = (if cs_MemscanReady c then [] else [''pkg/memscan ready''])"
  "missing_needs c ''delay'' = []"
  "missing_needs c ''require_step_up'' = (if cs_WebAuthnReady c then [] else [''WebAuthn endpoint live''])"
  "missing_needs c ''suspend_process'' = (if cs_QuarantineReady c then [] else [''pkg/quarantine ready''])"
  "set (missing_needs c ''isolate_cgroup'') = (if cs_HasCgroupV2 c then {} else {''cgroup v2''}) \<union>
     (if cs_HasNFTables c then {} else {''nftables binary''}) \<union>
     (if cs_QuarantineReady c then {} else {''pkg/quarantine ready''})"
  "set (missing_needs c ''ban_remote_ip'') = (if cs_NetbanReady c then {} else {''pkg/netban ready''}) \<union>
     (if cs_HasNFTables c then {} else {''nftables binary''})"
  "set (missing_needs c ''tarpit'') = (if cs_TarpitReady c then {} else {''pkg/tarpit ready''}) \<union>
     (if cs_HasNFTables c then {} else {''nftables binary''})"
  "set (missing_needs c ''isolate_host'') = (if 2 \<le> cs_BastionCount c then {} else {''BastionCount>=2''}) \<union>
     (if cs_OffHostMirror c then {} else {''off-host evidence mirror''}) \<union>
     (if cs_NetbanReady c then {} else {''pkg/netban ready''})"
  "missing_needs c ''remediate_file'' = (if cs_RemediateReady c then [] else [''pkg/remediate ready''])"
  "missing_needs c ''lock_local_user'' = []"
  "missing_needs c ''kill_process'' = []"
  by (simp_all add: missing_needs_def action_needs_def host_has_def go_get_or_def insert_commute)

definition plan_gaps :: "CapabilitySet \<Rightarrow> ActionPlan \<Rightarrow> string set" where
  "plan_gaps c p = (\<Union>a\<in>set (Actions p). (\<lambda>m. a @ '' requires '' @ m) ` set (missing_needs c a))"

lemma set_Actions: "set (Actions p) = (\<Union>a\<in>set actionOrder. if snd a p then {fst a} else {})"
  by (auto simp: Actions_def)

lemma plan_gaps_order:
  "plan_gaps c p = (\<Union>a\<in>set actionOrder.
     if snd a p then (\<lambda>m. fst a @ '' requires '' @ m) ` set (missing_needs c (fst a)) else {})"
  unfolding plan_gaps_def set_Actions by auto

lemma if_set_app: "set (if b then xs else []) = (if b then set xs else {})"
  by simp

lemma CanExecute_gaps: "set (CanExecute c (Some p)) = plan_gaps c p"
  unfolding plan_gaps_order actionOrder_def CanExecute_def
  by (simp only: option.case set_append if_set_app set_require list.set UN_insert UN_empty fst_conv
      snd_conv missing_needs_table image_Un image_insert image_empty Un_empty_right
      if_distrib [of set] if_distrib [of "image f" for f]) (simp add: Un_ac)

lemma foldl_warnings:
  "foldl (\<lambda>q w. q\<lparr>ap_CapabilityWarnings := ap_CapabilityWarnings q @ [w]\<rparr>) p ws =
     p\<lparr>ap_CapabilityWarnings := ap_CapabilityWarnings p @ ws\<rparr>"
  by (induction ws arbitrary: p) simp_all

lemma AnnotatePlan_appends:
  "AnnotatePlan c p = p\<lparr>ap_CapabilityWarnings := ap_CapabilityWarnings p @ CanExecute c (Some p)\<rparr>"
  by (simp add: AnnotatePlan_def foldl_warnings)

interpretation caps: capability_checker "AnnotatePlan c" for c
  by unfold_locales (auto simp: AnnotatePlan_appends)

text \<open>\<open>atoi\<close> reads back the decimal text of a number that fits in 63 bits.\<close>

lemma atoi_from_digit [simp]:
  "atoi_from n (digit_char d # s) = atoi_from (wrap64 (n * 10 + int (d mod 10))) s"
proof -
  have "\<not> 9 < d mod 10" using mod_less_divisor [of 10 d] by linarith
  then show ?thesis by (simp add: Let_def)
qed

lemma atoi_from_dec:
  "int n < 2 ^ 63 \<Longrightarrow> atoi_from 0 (dec_str n @ s) = atoi_from (int n) s"
proof (induction n arbitrary: s rule: dec_str.induct)
  case (1 n)
  show ?case
  proof (cases "n < 10")
    case True
    then show ?thesis
      using atoi_from_digit [of 0 n s] by (simp add: dec_str.simps [of n] del: atoi_from.simps)
  next
    case False
    then have "atoi_from 0 (dec_str n @ s) = atoi_from (int (n div 10)) (digit_char n # s)"
      using 1 by (simp add: dec_str.simps [of n] del: atoi_from.simps)
    also have "\<dots> = atoi_from (wrap64 (int n)) s"
      by (simp add: zdiv_int zmod_int mult.commute del: of_nat_mod atoi_from.simps)
    finally show ?thesis using 1 by simp
  qed
qed

lemma not_digit_stops: "s = [] \<or> of_char (hd s) < (48::nat) \<or> 57 < (of_char (hd s) :: nat) \<Longrightarrow> atoi_from n s = n"
  by (cases s) (auto simp: Let_def)

lemma atoi_dec_str: "int n < 2 ^ 63 \<Longrightarrow> atoi (dec_str n) = int n"
  using atoi_from_dec [of n "[]"] by (simp add: atoi_def)

lemma dec_str_no_dot: "CHR ''.'' \<notin> set (dec_str n)"
proof
  assume "CHR ''.'' \<in> set (dec_str n)"
  then obtain d where "d < 10" "CHR ''.'' = digit_char d" by (auto dest: set_dec_str)
  then have "of_char (CHR ''.'') = (48 + d mod 10 :: nat)" by (simp only: of_char_digit_char)
  then show False by simp
qed

lemma splitn_dec_str: "str_splitn (Suc (Suc k)) CHR ''.'' (dec_str a @ CHR ''.'' # s) =
    dec_str a # str_splitn (Suc k) CHR ''.'' s"
proof -
  have "\<forall>x\<in>set (dec_str a). x \<noteq> CHR ''.''" using dec_str_no_dot [of a] by auto
  then show ?thesis by (simp add: Let_def)
qed

lemma splitn_head: "\<exists>r. str_splitn (Suc (Suc k)) c s = takeWhile (\<lambda>x. x \<noteq> c) s # r"
  by (auto simp: Let_def dropWhile_eq_Nil_conv takeWhile_eq_all_conv [THEN iffD2])

text \<open>Whether a warning for \<open>p\<close> goes away when a subsystem comes up.\<close>

lemma go_get_or_mono:
  "list_all2 (\<lambda>x y. fst x = fst y \<and> (snd x \<longrightarrow> snd y)) m m' \<Longrightarrow> go_get_or False m k \<Longrightarrow>
     go_get_or False m' k"
  by (induction m m' rule: list_all2_induct) (auto simp: go_get_or_def split: if_splits)

lemma Mark_host_has: "go_get_or False (host_has c) m \<Longrightarrow> go_get_or False (host_has (Mark k c)) m"
  by (erule go_get_or_mono [rotated]) (cases k; simp add: host_has_def)

lemma Mark_missing: "set (missing_needs (Mark k c) a) \<subseteq> set (missing_needs c a)"
  using Mark_host_has by (auto simp: missing_needs_def)

subsection \<open>Properties\<close>

text \<open>
  The warnings are complete and exact: \<^verbatim>\<open>CanExecute\<close> warns about a plan precisely where one of
  the plan's enabled actions needs something this host does not have; so an empty answer means
  that every action of the plan has all it needs.
\<close>

theorem can_execute_exact:
  "w \<in> set (CanExecute c (Some p)) \<longleftrightarrow>
     (\<exists>a m. a \<in> set (Actions p) \<and> m \<in> set (go_get_or [] action_needs a) \<and>
        \<not> go_get_or False (host_has c) m \<and> w = a @ '' requires '' @ m)"
  by (auto simp: CanExecute_gaps plan_gaps_def missing_needs_def)

text \<open>
  A subsystem that comes up never adds a warning: the warnings after any sequence of \<^verbatim>\<open>Mark\<close>
  calls are among those before it.
\<close>

theorem marks_only_remove_warnings:
  "set (CanExecute (fold Mark ks c) (Some p)) \<subseteq> set (CanExecute c (Some p))"
proof (induction ks arbitrary: c)
  case Nil
  then show ?case by simp
next
  case (Cons k ks)
  have "set (CanExecute (Mark k c) (Some p)) \<subseteq> set (CanExecute c (Some p))"
    unfolding CanExecute_gaps plan_gaps_def using Mark_missing [of k c] by blast
  with Cons.IH [of "Mark k c"] show ?case by simp
qed

text \<open>
  \<^verbatim>\<open>kernelAtLeast\<close> is the lexicographic order on versions: on a release that starts with the
  decimal text of a major and a minor number and goes on with anything that is not a digit (or
  ends), it compares the pair with the wanted one.
\<close>

theorem kernelAtLeast_lexicographic:
  assumes "int major < 2 ^ 63" "int minor < 2 ^ 63"
    and "rest = [] \<or> of_char (hd rest) < (48::nat) \<or> 57 < (of_char (hd rest) :: nat)"
  shows "kernelAtLeast (dec_str major @ ''.'' @ dec_str minor @ rest) wantMajor wantMinor \<longleftrightarrow>
    wantMajor < int major \<or> (wantMajor = int major \<and> wantMinor \<le> int minor)"
proof -
  define tail where "tail = takeWhile (\<lambda>x. x \<noteq> CHR ''.'') rest"
  have tail: "tail = [] \<or> of_char (hd tail) < (48::nat) \<or> 57 < (of_char (hd tail) :: nat)"
    using assms(3) by (cases rest) (auto simp: tail_def)
  have "\<forall>x\<in>set (dec_str minor). x \<noteq> CHR ''.''" using dec_str_no_dot [of minor] by auto
  then obtain r where "str_splitn (Suc (Suc 0)) CHR ''.'' (dec_str minor @ rest) = (dec_str minor @ tail) # r"
    using splitn_head [of 0 "CHR ''.''" "dec_str minor @ rest"] by (auto simp: tail_def)
  then have "str_splitn 3 CHR ''.'' (dec_str major @ ''.'' @ dec_str minor @ rest) =
      dec_str major # (dec_str minor @ tail) # r"
    using splitn_dec_str [of "Suc 0" major "dec_str minor @ rest"] by (simp add: numeral_3_eq_3)
  then show ?thesis
    using assms atoi_dec_str [of major] atoi_from_dec [of minor tail] not_digit_stops [OF tail]
    by (auto simp: kernelAtLeast_def atoi_def Let_def)
qed

theorem kernelAtLeast_lexicographic_witness:
  "kernelAtLeast (dec_str 5 @ ''.'' @ dec_str 15 @ ''.0-generic'') 5 3 \<longleftrightarrow>
    (5::int) < int 5 \<or> ((5::int) = int 5 \<and> (3::int) \<le> int 15)"
  by (rule kernelAtLeast_lexicographic) simp_all

end
