(* ===== verification/Takeover.thy ===== *)
theory Takeover
  imports Capability
begin

text \<open>
  The takeover planner, \<^verbatim>\<open>pkg/takeover\<close>: signals and their weights (\<^verbatim>\<open>signal.go\<close>), the rolling
  list of signals of each lineage (\<^verbatim>\<open>aggregator.go\<close>), the composite score (\<^verbatim>\<open>scorer.go\<close>) and the
  glue to the decision planner (\<^verbatim>\<open>planner.go\<close>).

  A \<^verbatim>\<open>SignalKind\<close> is a string, as in the source. The scorer walks a Go map of kinds, whose order is
  not fixed: \<open>Score_groups\<close> takes the map as the list of its entries in the order of the walk. The
  set of remote IPs of a lineage is a list without repetitions. The action log is shared with the
  daemon, so the planner's operations take it as an argument.
\<close>

subsection \<open>Signals\<close>

type_synonym SignalKind = string

abbreviation SignalCanaryTouch :: SignalKind where "SignalCanaryTouch \<equiv> ''canary_touch''"
abbreviation SignalTaintExpand :: SignalKind where "SignalTaintExpand \<equiv> ''taint_expand''"
abbreviation SignalPassportMissing :: SignalKind where "SignalPassportMissing \<equiv> ''passport_missing''"
abbreviation SignalLOTL :: SignalKind where "SignalLOTL \<equiv> ''lotl''"
abbreviation SignalCapAbuse :: SignalKind where "SignalCapAbuse \<equiv> ''cap_abuse''"
abbreviation SignalNewBinary :: SignalKind where "SignalNewBinary \<equiv> ''new_binary''"
abbreviation SignalNewEndpoint :: SignalKind where "SignalNewEndpoint \<equiv> ''new_endpoint''"
abbreviation SignalParentMismatch :: SignalKind where "SignalParentMismatch \<equiv> ''parent_mismatch''"
abbreviation SignalCredAccess :: SignalKind where "SignalCredAccess \<equiv> ''cred_access''"
abbreviation SignalPersistence :: SignalKind where "SignalPersistence \<equiv> ''persistence''"
abbreviation SignalDefenseEvasion :: SignalKind where "SignalDefenseEvasion \<equiv> ''defense_evasion''"
abbreviation SignalLateralMove :: SignalKind where "SignalLateralMove \<equiv> ''lateral_move''"
abbreviation SignalRuleHit :: SignalKind where "SignalRuleHit \<equiv> ''rule_hit''"
abbreviation SignalShellAttempt :: SignalKind where "SignalShellAttempt \<equiv> ''shell_attempt''"
abbreviation SignalInterpAttempt :: SignalKind where "SignalInterpAttempt \<equiv> ''interp_attempt''"
abbreviation SignalDownloader :: SignalKind where "SignalDownloader \<equiv> ''downloader''"
abbreviation SignalReconTool :: SignalKind where "SignalReconTool \<equiv> ''recon_tool''"
abbreviation SignalPrivTool :: SignalKind where "SignalPrivTool \<equiv> ''priv_tool''"
abbreviation SignalForbiddenSyscall :: SignalKind where "SignalForbiddenSyscall \<equiv> ''forbidden_syscall''"
abbreviation SignalForbiddenWrite :: SignalKind where "SignalForbiddenWrite \<equiv> ''forbidden_write''"
abbreviation SignalForbiddenConnect :: SignalKind where "SignalForbiddenConnect \<equiv> ''forbidden_connect''"
abbreviation SignalRWXMemory :: SignalKind where "SignalRWXMemory \<equiv> ''rwx_memory''"
abbreviation SignalC2Beacon :: SignalKind where "SignalC2Beacon \<equiv> ''c2_beacon''"
abbreviation SignalDecoyTouch :: SignalKind where "SignalDecoyTouch \<equiv> ''decoy_touch''"
abbreviation SignalCrashLoop :: SignalKind where "SignalCrashLoop \<equiv> ''crash_loop''"
abbreviation SignalIdentityMismatch :: SignalKind where "SignalIdentityMismatch \<equiv> ''identity_mismatch''"
abbreviation SignalBase64Decode :: SignalKind where "SignalBase64Decode \<equiv> ''base64_decode''"
abbreviation SignalRecursiveDelete :: SignalKind where "SignalRecursiveDelete \<equiv> ''recursive_delete''"
abbreviation SignalChmodExec :: SignalKind where "SignalChmodExec \<equiv> ''chmod_exec''"
abbreviation SignalCredBrokerDeny :: SignalKind where "SignalCredBrokerDeny \<equiv> ''credbroker_deny''"
abbreviation SignalCredBrokerHoneyTouch :: SignalKind where
  "SignalCredBrokerHoneyTouch \<equiv> ''credbroker_honey_touch''"

definition AllKinds :: "SignalKind list" where
  "AllKinds =
    [SignalCanaryTouch, SignalTaintExpand, SignalPassportMissing,
     SignalLOTL, SignalCapAbuse, SignalNewBinary, SignalNewEndpoint,
     SignalParentMismatch, SignalCredAccess, SignalPersistence,
     SignalDefenseEvasion, SignalLateralMove, SignalRuleHit,
     SignalShellAttempt, SignalInterpAttempt, SignalDownloader,
     SignalReconTool, SignalPrivTool, SignalForbiddenSyscall,
     SignalForbiddenWrite, SignalForbiddenConnect, SignalRWXMemory,
     SignalC2Beacon, SignalDecoyTouch, SignalCrashLoop,
     SignalIdentityMismatch,
     SignalBase64Decode, SignalRecursiveDelete, SignalChmodExec,
     SignalCredBrokerDeny, SignalCredBrokerHoneyTouch]"

record Signal =
  sg_LineageID :: u64
  sg_Kind :: SignalKind
  sg_At :: gotime
  sg_Source :: string
  sg_Detail :: string
  sg_Weight :: int
  sg_Confidence :: string
  sg_RemoteIP :: string

type_synonym Weights = "(SignalKind, int) gomap"

definition DefaultWeights :: Weights where
  "DefaultWeights =
    [(SignalCanaryTouch, 80), (SignalPassportMissing, 75), (SignalDefenseEvasion, 85),
     (SignalTaintExpand, 35), (SignalCredAccess, 50), (SignalPersistence, 55),
     (SignalLateralMove, 50), (SignalParentMismatch, 40), (SignalCapAbuse, 45),
     (SignalLOTL, 25), (SignalNewBinary, 20), (SignalNewEndpoint, 15),
     (SignalRuleHit, 30),
     (SignalShellAttempt, 80), (SignalDownloader, 75), (SignalForbiddenWrite, 80),
     (SignalRWXMemory, 95), (SignalC2Beacon, 85), (SignalDecoyTouch, 85),
     (SignalCrashLoop, 80), (SignalIdentityMismatch, 90),
     (SignalBase64Decode, 35), (SignalRecursiveDelete, 40), (SignalChmodExec, 45),
     (SignalInterpAttempt, 70), (SignalReconTool, 75), (SignalPrivTool, 80),
     (SignalForbiddenSyscall, 50), (SignalForbiddenConnect, 60),
     (SignalCredBrokerDeny, 80), (SignalCredBrokerHoneyTouch, 95)]"

subsection \<open>The aggregator\<close>

record Aggregator =
  ag_ttl :: duration
  ag_signals :: "(u64, Signal list) gomap"
  ag_remoteIP :: "(u64, string list) gomap"

abbreviation DefaultSignalTTL :: duration where "DefaultSignalTTL \<equiv> 30 * minute"

definition NewAggregator :: "duration \<Rightarrow> Aggregator" where
  "NewAggregator ttl =
     \<lparr>ag_ttl = (if ttl \<le> 0 then DefaultSignalTTL else ttl), ag_signals = [], ag_remoteIP = []\<rparr>"

text \<open>\<^verbatim>\<open>evictOlder\<close> drops signals from the front up to the first one that is not before the cutoff.\<close>

definition evictOlder :: "Signal list \<Rightarrow> gotime \<Rightarrow> Signal list" where
  "evictOlder sigs cutoff = dropWhile (\<lambda>s. sg_At s < cutoff) sigs"

definition Signal_stamp :: "gotime \<Rightarrow> Signal \<Rightarrow> Signal" where
  "Signal_stamp now s = (if sg_At s = 0 then s\<lparr>sg_At := now\<rparr> else s)"

definition Aggregator_Record :: "gotime \<Rightarrow> Signal \<Rightarrow> Aggregator \<Rightarrow> Aggregator" where
  "Aggregator_Record now s0 a =
     (let s = Signal_stamp now s0;
          lid = sg_LineageID s;
          cutoff = sg_At s - ag_ttl a;
          a1 = a\<lparr>ag_signals :=
                 go_set lid (evictOlder (go_get_or [] (ag_signals a) lid) cutoff @ [s]) (ag_signals a)\<rparr>
      in if sg_RemoteIP s \<noteq> ''''
         then a1\<lparr>ag_remoteIP :=
                go_set lid (List.insert (sg_RemoteIP s) (go_get_or [] (ag_remoteIP a) lid)) (ag_remoteIP a)\<rparr>
         else a1)"

definition Aggregator_Snapshot :: "u64 \<Rightarrow> gotime \<Rightarrow> Aggregator \<Rightarrow> Aggregator \<times> Signal list" where
  "Aggregator_Snapshot lid now a =
     (let src = evictOlder (go_get_or [] (ag_signals a) lid) (now - ag_ttl a)
      in (a\<lparr>ag_signals := go_set lid src (ag_signals a)\<rparr>, src))"

definition AttributedIPs :: "Aggregator \<Rightarrow> u64 \<Rightarrow> string list" where
  "AttributedIPs a lid = sort (go_get_or [] (ag_remoteIP a) lid)"

definition Aggregator_Forget :: "u64 \<Rightarrow> Aggregator \<Rightarrow> Aggregator" where
  "Aggregator_Forget lid a =
     a\<lparr>ag_signals := go_del lid (ag_signals a), ag_remoteIP := go_del lid (ag_remoteIP a)\<rparr>"

definition Lineages_visit ::
    "gotime \<Rightarrow> (u64, Signal list) gomap \<times> u64 list \<Rightarrow> u64 \<times> Signal list \<Rightarrow>
     (u64, Signal list) gomap \<times> u64 list" where
  "Lineages_visit cutoff st e =
     (let sigs = evictOlder (snd e) cutoff; m = go_set (fst e) sigs (fst st)
      in if sigs \<noteq> [] then (m, snd st @ [fst e]) else (go_del (fst e) m, snd st))"

definition Aggregator_Lineages :: "gotime \<Rightarrow> Aggregator \<Rightarrow> Aggregator \<times> u64 list" where
  "Aggregator_Lineages now a =
     (let r = foldl (Lineages_visit (now - ag_ttl a)) (ag_signals a, []) (ag_signals a)
      in (a\<lparr>ag_signals := fst r\<rparr>, sort (snd r)))"

subsection \<open>The scorer\<close>

record ScorerCoRule =
  cr_ID :: string
  cr_Need :: "SignalKind list"
  cr_Window :: duration
  cr_Bonus :: int

record Scorer =
  sc_W :: Weights
  sc_CoRules :: "ScorerCoRule list"

definition DefaultCoRules :: "ScorerCoRule list" where
  "DefaultCoRules =
    [\<lparr>cr_ID = ''cooccur.dropper_chain'', cr_Need = [SignalBase64Decode, SignalChmodExec],
       cr_Window = 60 * second, cr_Bonus = 30\<rparr>,
     \<lparr>cr_ID = ''cooccur.beacon_then_shell'', cr_Need = [SignalC2Beacon, SignalShellAttempt],
       cr_Window = 90 * second, cr_Bonus = 35\<rparr>,
     \<lparr>cr_ID = ''cooccur.exfil_chain'', cr_Need = [SignalDecoyTouch, SignalForbiddenConnect],
       cr_Window = 5 * minute, cr_Bonus = 30\<rparr>,
     \<lparr>cr_ID = ''cooccur.recon_then_persist'', cr_Need = [SignalReconTool, SignalPersistence],
       cr_Window = 5 * minute, cr_Bonus = 25\<rparr>,
     \<lparr>cr_ID = ''cooccur.delete_after_shell'', cr_Need = [SignalShellAttempt, SignalRecursiveDelete],
       cr_Window = 2 * minute, cr_Bonus = 20\<rparr>,
     \<lparr>cr_ID = ''cooccur.identity_then_attack'', cr_Need = [SignalIdentityMismatch, SignalShellAttempt],
       cr_Window = 5 * minute, cr_Bonus = 40\<rparr>]"

definition NewScorer :: "Weights option \<Rightarrow> Scorer" where
  "NewScorer w = \<lparr>sc_W = (case w of None \<Rightarrow> DefaultWeights | Some w \<Rightarrow> w), sc_CoRules = DefaultCoRules\<rparr>"

record KindContribution =
  kc_Kind :: SignalKind
  kc_Count :: nat
  kc_Score :: int

record CoBonus =
  cb_RuleID :: string
  cb_Bonus :: int

record ScoreResult =
  rs_Score :: int
  rs_Contributions :: "KindContribution list"
  rs_CoBonuses :: "CoBonus list"

definition dimFactor :: "nat \<Rightarrow> int" where
  "dimFactor idx = (if idx = 0 then 100 else if idx = 1 then 50 else if idx = 2 then 25
     else if idx = 3 then 10 else 0)"

definition scaleInt :: "int \<Rightarrow> int \<Rightarrow> int" where
  "scaleInt weight factorPct = wrap64 (wrap64 (weight * factorPct) + 50) sdiv 100"

definition signal_weight :: "Scorer \<Rightarrow> SignalKind \<Rightarrow> Signal \<Rightarrow> int" where
  "signal_weight sc kind sig =
     (if sg_Weight sig \<le> 0 then go_get_or 0 (sc_W sc) kind else sg_Weight sig)"

definition kind_score :: "Scorer \<Rightarrow> SignalKind \<Rightarrow> Signal list \<Rightarrow> int" where
  "kind_score sc kind ksigs =
     foldl (\<lambda>acc e. wrap64 (acc + scaleInt (signal_weight sc kind (snd e)) (dimFactor (fst e))))
       0 (enumerate 0 ksigs)"

definition group_by_kind :: "Signal list \<Rightarrow> (SignalKind, Signal list) gomap" where
  "group_by_kind sigs =
     foldl (\<lambda>m s. go_set (sg_Kind s) (go_get_or [] m (sg_Kind s) @ [s]) m) [] sigs"

fun newest_from :: "gotime \<Rightarrow> Signal list \<Rightarrow> gotime" where
  "newest_from t [] = t"
| "newest_from t (s # ss) = newest_from (if t < sg_At s then sg_At s else t) ss"

text \<open>
  The loop over \<^verbatim>\<open>Need\<close>: \<open>None\<close> when a kind has no signal; before the first kind both bounds are Go's
  zero time, which a rule without kinds keeps.
\<close>

fun coRule_span :: "(SignalKind, Signal list) gomap \<Rightarrow> (gotime \<times> gotime) option \<Rightarrow> SignalKind list \<Rightarrow>
    (gotime \<times> gotime) option" where
  "coRule_span byKind acc [] = (case acc of None \<Rightarrow> Some (0, 0) | Some b \<Rightarrow> Some b)"
| "coRule_span byKind acc (k # ks) =
     (case go_get_or [] byKind k of
        [] \<Rightarrow> None
      | g # gs \<Rightarrow>
          (let newest = newest_from (sg_At g) gs
           in case acc of
                None \<Rightarrow> coRule_span byKind (Some (newest, newest)) ks
              | Some (mx, mn) \<Rightarrow>
                  coRule_span byKind (Some (if mx < newest then newest else mx,
                                            if newest < mn then newest else mn)) ks))"

definition evalCoRule :: "ScorerCoRule \<Rightarrow> (SignalKind, Signal list) gomap \<Rightarrow> int option" where
  "evalCoRule r byKind =
     (case coRule_span byKind None (cr_Need r) of
        None \<Rightarrow> None
      | Some (mx, mn) \<Rightarrow>
          if 0 < cr_Window r \<and> cr_Window r < time_sub mx mn then None else Some (cr_Bonus r))"

definition clamp100 :: "int \<Rightarrow> int" where
  "clamp100 tot = (let t = (if 100 < tot then 100 else tot) in if t < 0 then 0 else t)"

definition Score_groups :: "Scorer \<Rightarrow> (SignalKind, Signal list) gomap \<Rightarrow> ScoreResult" where
  "Score_groups sc byKind =
     (let r1 = foldl (\<lambda>acc e.
                 let kc = \<lparr>kc_Kind = fst e, kc_Count = length (snd e),
                           kc_Score = kind_score sc (fst e) (snd e)\<rparr>
                 in (wrap64 (fst acc + kc_Score kc), snd acc @ [kc])) (0, []) byKind;
          r2 = foldl (\<lambda>acc r. case evalCoRule r byKind of
                        None \<Rightarrow> acc
                      | Some b \<Rightarrow> (wrap64 (fst acc + b), snd acc @ [\<lparr>cb_RuleID = cr_ID r, cb_Bonus = b\<rparr>]))
                 (fst r1, []) (sc_CoRules sc)
      in \<lparr>rs_Score = clamp100 (fst r2), rs_Contributions = snd r1, rs_CoBonuses = snd r2\<rparr>)"

definition Score :: "Scorer \<Rightarrow> Signal list \<Rightarrow> ScoreResult" where
  "Score sc sigs =
     (if sigs = [] then \<lparr>rs_Score = 0, rs_Contributions = [], rs_CoBonuses = []\<rparr>
      else Score_groups sc (group_by_kind sigs))"

subsection \<open>The planner\<close>

record Planner =
  pl_Agg :: Aggregator
  pl_Scorer :: Scorer
  pl_Caps :: "(ActionPlan \<Rightarrow> ActionPlan) option"
  pl_MinScoreToPlan :: int
  pl_ResolveCJTier :: "(Alert \<Rightarrow> string) option"
  pl_PreconditionProbe :: "(bool \<times> bool) option"

record PlannerConfig =
  pc_TTL :: duration
  pc_Weights :: "Weights option"
  pc_Caps :: "(ActionPlan \<Rightarrow> ActionPlan) option"
  pc_MinScoreToPlan :: int
  pc_ResolveCJTier :: "(Alert \<Rightarrow> string) option"
  pc_PreconditionProbe :: "(bool \<times> bool) option"

definition NewPlanner :: "PlannerConfig \<Rightarrow> Planner" where
  "NewPlanner c =
     \<lparr>pl_Agg = NewAggregator (pc_TTL c), pl_Scorer = NewScorer (pc_Weights c), pl_Caps = pc_Caps c,
      pl_MinScoreToPlan = (if pc_MinScoreToPlan c \<le> 0 then 50 else pc_MinScoreToPlan c),
      pl_ResolveCJTier = pc_ResolveCJTier c, pl_PreconditionProbe = pc_PreconditionProbe c\<rparr>"

definition OnSignal :: "gotime \<Rightarrow> Signal \<Rightarrow> Planner \<Rightarrow> Planner" where
  "OnSignal now s p = p\<lparr>pl_Agg := Aggregator_Record now s (pl_Agg p)\<rparr>"

text \<open>
  \<^verbatim>\<open>itoa\<close> fills a 12-byte buffer from its end; an index below zero panics (\<open>None\<close>). \<open>itoa_digits i n\<close>
  is the loop with \<open>i\<close> bytes still free; \<open>-n\<close> wraps for the smallest integer, and the loop then
  does not run.
\<close>

function itoa_digits :: "nat \<Rightarrow> int \<Rightarrow> string \<Rightarrow> (nat \<times> string) option" where
  "itoa_digits i n acc =
     (if n \<le> 0 then Some (i, acc)
      else if i = 0 then None
      else itoa_digits (i - 1) (n div 10) (digit_char (nat (n mod 10)) # acc))"
  by auto
termination by (relation "measure (\<lambda>(i, n, acc). nat n)") auto

declare itoa_digits.simps [simp del]

definition itoa :: "int \<Rightarrow> string option" where
  "itoa n =
     (if n = 0 then Some ''0''
      else case itoa_digits 12 (if n < 0 then wrap64 (- n) else n) [] of
             None \<Rightarrow> None
           | Some (i, s) \<Rightarrow> if n < 0 then (if i = 0 then None else Some (CHR ''-'' # s)) else Some s)"

definition signal_text :: "Signal \<Rightarrow> string" where
  "signal_text s = (if sg_Detail s \<noteq> '''' then sg_Kind s @ '':'' @ sg_Detail s else sg_Kind s)"

definition syntheticEvent :: "string \<Rightarrow> gotime \<Rightarrow> Signal \<Rightarrow> Event" where
  "syntheticEvent ulid now s =
     set_tag ''last_signal'' (signal_text s)
       ((NewEvent ulid now ''takeover.planner'' SeverityHigh)\<lparr>ev_Time := sg_At s\<rparr>)"

definition lineageReason :: "ScoreResult \<Rightarrow> Signal \<Rightarrow> string option" where
  "lineageReason res latest =
     (case itoa (rs_Score res) of
        None \<Rightarrow> None
      | Some d \<Rightarrow> Some (''takeover score='' @ d @ '' last='' @ signal_text latest))"

text \<open>The fresh values a planning call draws: two ULIDs and three clock readings.\<close>

record fresh =
  fr_event :: string
  fr_plan :: string
  fr_t0 :: gotime
  fr_t1 :: gotime
  fr_t2 :: gotime

definition plan_input :: "Log option \<Rightarrow> Planner \<Rightarrow> Alert \<Rightarrow> ScoreResult \<Rightarrow> u64 \<Rightarrow> Input" where
  "plan_input st p alert res lid =
     \<lparr>in_Alert = alert, in_Score = rs_Score res, in_LineageID = lid, in_ProcKey = '''',
      in_Caps = pl_Caps p, in_State = st,
      in_CrownJewelTier = (case pl_ResolveCJTier p of None \<Rightarrow> '''' | Some f \<Rightarrow> f alert),
      in_AttributedIPs = AttributedIPs (pl_Agg p) lid,
      in_BastionAvailable = (case pl_PreconditionProbe p of None \<Rightarrow> False | Some b \<Rightarrow> fst b),
      in_OffHostMirrorAvailable = (case pl_PreconditionProbe p of None \<Rightarrow> False | Some b \<Rightarrow> snd b)\<rparr>"

definition planWithAlert :: "fresh \<Rightarrow> Log option \<Rightarrow> Planner \<Rightarrow> Alert \<Rightarrow> ScoreResult \<Rightarrow> u64 \<Rightarrow> ActionPlan" where
  "planWithAlert fr st p alert res lid =
     Plan (fr_plan fr) (fr_t1 fr) (fr_t2 fr) (plan_input st p alert res lid)"

definition takeover_alert :: "fresh \<Rightarrow> string \<Rightarrow> Signal \<Rightarrow> Alert" where
  "takeover_alert fr reason s =
     zero_Alert\<lparr>al_Event := syntheticEvent (fr_event fr) (fr_t0 fr) s,
       al_RuleID := ''takeover.composite'', al_Reason := reason\<rparr>"

text \<open>\<^verbatim>\<open>Plan\<close>: the planner after the call and the plan, if any; the outer \<open>None\<close> is a panic.\<close>

definition Planner_Plan ::
    "fresh \<Rightarrow> Log option \<Rightarrow> u64 \<Rightarrow> gotime \<Rightarrow> Planner \<Rightarrow> (Planner \<times> ActionPlan option) option" where
  "Planner_Plan fr st lid now p =
     (let (a, sigs) = Aggregator_Snapshot lid now (pl_Agg p);
          p1 = p\<lparr>pl_Agg := a\<rparr>
      in if sigs = [] then Some (p1, None)
         else let res = Score (pl_Scorer p) sigs in
           if rs_Score res < pl_MinScoreToPlan p \<and>
              (case st of None \<Rightarrow> True | Some l \<Rightarrow> Log_State l lid = StateObserved)
           then Some (p1, None)
           else case lineageReason res (last sigs) of
                  None \<Rightarrow> None
                | Some reason \<Rightarrow>
                    Some (p1, Some (planWithAlert fr st p1 (takeover_alert fr reason (last sigs)) res lid)))"

definition PlanFromAlert ::
    "fresh \<Rightarrow> Log option \<Rightarrow> Alert \<Rightarrow> u64 \<Rightarrow> gotime \<Rightarrow> Planner \<Rightarrow> Planner \<times> ActionPlan" where
  "PlanFromAlert fr st alert lid now p =
     (let (a, sigs) = Aggregator_Snapshot lid now (pl_Agg p);
          p1 = p\<lparr>pl_Agg := a\<rparr>
      in (p1, planWithAlert fr st p1 alert (Score (pl_Scorer p) sigs) lid))"

definition Planner_Forget :: "u64 \<Rightarrow> Planner \<Rightarrow> Planner" where
  "Planner_Forget lid p = p\<lparr>pl_Agg := Aggregator_Forget lid (pl_Agg p)\<rparr>"

subsection \<open>The score in closed form\<close>

lemma foldl_wrap64:
  "wrap64 a = a \<Longrightarrow> foldl (\<lambda>acc e. wrap64 (acc + f e)) a es = wrap64 (a + sum_list (map f es))"
  by (induction es arbitrary: a) (simp_all add: add.assoc)

lemma wrap64_0 [simp]: "wrap64 0 = 0"
  by (rule wrap64_small) simp_all

lemma kind_score_sum:
  "kind_score sc k xs =
     wrap64 (\<Sum>e\<leftarrow>enumerate 0 xs. scaleInt (signal_weight sc k (snd e)) (dimFactor (fst e)))"
  by (simp add: kind_score_def foldl_wrap64)

lemma group_by_kind_snoc:
  "group_by_kind (sigs @ [s]) =
     go_set (sg_Kind s) (go_get_or [] (group_by_kind sigs) (sg_Kind s) @ [s]) (group_by_kind sigs)"
  by (simp add: group_by_kind_def)

lemma group_by_kind_Nil [simp]: "group_by_kind [] = []"
  by (simp add: group_by_kind_def)

lemma group_wf [simp]: "go_wf (group_by_kind sigs)"
  by (induction sigs rule: rev_induct) (simp_all add: group_by_kind_snoc)

lemma group_get [simp]: "go_get_or [] (group_by_kind sigs) k = filter (\<lambda>s. sg_Kind s = k) sigs"
  by (induction sigs rule: rev_induct) (auto simp: group_by_kind_snoc)

lemma group_keys [simp]: "fst ` set (group_by_kind sigs) = sg_Kind ` set sigs"
  by (induction sigs rule: rev_induct) (simp_all add: group_by_kind_snoc)

lemma go_get_or_entry: "go_wf m \<Longrightarrow> (k, v) \<in> set m \<Longrightarrow> v = go_get_or d m k"
  by (simp add: go_get_or_def)

lemma sum_entries:
  assumes "go_wf m"
  shows "(\<Sum>e\<leftarrow>m. f (fst e) (snd e)) = (\<Sum>k\<in>fst ` set m. f k (go_get_or d m k))"
proof -
  have "(\<Sum>e\<leftarrow>m. f (fst e) (snd e)) = (\<Sum>k\<leftarrow>map fst m. f k (go_get_or d m k))"
    using go_get_or_entry [OF assms, of _ _ d]
    by (auto intro!: arg_cong [where f = sum_list] simp: comp_def)
  also have "\<dots> = (\<Sum>k\<in>fst ` set m. f k (go_get_or d m k))"
    using sum.distinct_set_conv_list [OF assms, of "\<lambda>k. f k (go_get_or d m k)"] by simp
  finally show ?thesis .
qed

definition kinds_total :: "Scorer \<Rightarrow> Signal list \<Rightarrow> int" where
  "kinds_total sc sigs =
     (\<Sum>k\<in>sg_Kind ` set sigs. kind_score sc k (filter (\<lambda>s. sg_Kind s = k) sigs))"

definition fired :: "Scorer \<Rightarrow> (SignalKind, Signal list) gomap \<Rightarrow> CoBonus list" where
  "fired sc byKind = map (\<lambda>r. \<lparr>cb_RuleID = cr_ID r, cb_Bonus = cr_Bonus r\<rparr>)
     (filter (\<lambda>r. evalCoRule r byKind \<noteq> None) (sc_CoRules sc))"

lemma evalCoRule_bonus: "evalCoRule r m = Some b \<Longrightarrow> b = cr_Bonus r"
  by (auto simp: evalCoRule_def split: option.splits if_splits)

lemma coRule_fold:
  assumes "wrap64 t = t"
  shows "foldl (\<lambda>acc r. case evalCoRule r m of None \<Rightarrow> acc
      | Some b \<Rightarrow> (wrap64 (fst acc + b), snd acc @ [\<lparr>cb_RuleID = cr_ID r, cb_Bonus = b\<rparr>])) (t, bs) rs =
    (let fs = map (\<lambda>r. \<lparr>cb_RuleID = cr_ID r, cb_Bonus = cr_Bonus r\<rparr>)
                (filter (\<lambda>r. evalCoRule r m \<noteq> None) rs)
     in (wrap64 (t + sum_list (map cb_Bonus fs)), bs @ fs))"
  using assms
  by (induction rs arbitrary: t bs)
    (auto simp: Let_def add.assoc dest: evalCoRule_bonus split: option.split)

lemma kinds_fold:
  assumes "wrap64 t = t"
  shows "foldl (\<lambda>acc e. let kc = g e in (wrap64 (fst acc + kc_Score kc), snd acc @ [kc])) (t, ks) es =
    (wrap64 (t + (\<Sum>e\<leftarrow>es. kc_Score (g e))), ks @ map g es)"
  using assms by (induction es arbitrary: t ks) (simp_all add: Let_def add.assoc)

lemma Score_groups_closed:
  "rs_Score (Score_groups sc m) =
     clamp100 (wrap64 ((\<Sum>e\<leftarrow>m. kind_score sc (fst e) (snd e)) + sum_list (map cb_Bonus (fired sc m))))"
  "rs_CoBonuses (Score_groups sc m) = fired sc m"
  "rs_Contributions (Score_groups sc m) =
     map (\<lambda>e. \<lparr>kc_Kind = fst e, kc_Count = length (snd e), kc_Score = kind_score sc (fst e) (snd e)\<rparr>) m"
  unfolding Score_groups_def kinds_fold [OF wrap64_0] coRule_fold [OF wrap64_idem]
  by (simp_all add: Let_def coRule_fold fired_def)

lemma Score_closed:
  "rs_Score (Score sc sigs) =
     clamp100 (wrap64 (kinds_total sc sigs + sum_list (map cb_Bonus (rs_CoBonuses (Score sc sigs)))))"
proof (cases "sigs = []")
  case True
  then show ?thesis by (simp add: Score_def kinds_total_def clamp100_def)
next
  case False
  then show ?thesis
    using sum_entries [of "group_by_kind sigs" "kind_score sc" "[]"]
    by (simp add: Score_def Score_groups_closed kinds_total_def)
qed

lemma clamp100_range: "0 \<le> clamp100 x \<and> clamp100 x \<le> 100"
  by (simp add: clamp100_def Let_def)

lemma clamp100_mono: "x \<le> y \<Longrightarrow> clamp100 x \<le> clamp100 y"
  by (simp add: clamp100_def Let_def)

lemma Score_range: "0 \<le> rs_Score (Score sc sigs) \<and> rs_Score (Score sc sigs) \<le> 100"
  by (metis Score_closed clamp100_range)

text \<open>A rule looks only at the signals of the kinds it needs.\<close>

lemma coRule_span_cong:
  "(\<And>k. k \<in> set ks \<Longrightarrow> go_get_or [] m k = go_get_or [] m' k) \<Longrightarrow>
     coRule_span m acc ks = coRule_span m' acc ks"
proof (induction ks arbitrary: acc)
  case Nil
  then show ?case by simp
next
  case (Cons k ks)
  have IH: "coRule_span m acc ks = coRule_span m' acc ks" for acc
    using Cons by simp
  have "go_get_or [] m k = go_get_or [] m' k" using Cons.prems by simp
  then show ?case by (simp only: coRule_span.simps IH)
qed

lemma evalCoRule_cong:
  "(\<And>k. k \<in> set (cr_Need r) \<Longrightarrow> go_get_or [] m k = go_get_or [] m' k) \<Longrightarrow> evalCoRule r m = evalCoRule r m'"
  using coRule_span_cong [of "cr_Need r" m m' None] by (simp add: evalCoRule_def)

lemma fired_cong:
  "(\<And>r k. r \<in> set (sc_CoRules sc) \<Longrightarrow> k \<in> set (cr_Need r) \<Longrightarrow> go_get_or [] m k = go_get_or [] m' k) \<Longrightarrow>
     fired sc m = fired sc m'"
  unfolding fired_def
  by (rule arg_cong [where f = "map _"], rule filter_cong [OF refl]) (metis evalCoRule_cong)

definition co_kinds :: "Scorer \<Rightarrow> SignalKind set" where
  "co_kinds sc = (\<Union>r\<in>set (sc_CoRules sc). set (cr_Need r))"

lemma bonuses_other_kind:
  assumes "sg_Kind s \<notin> co_kinds sc" "sigs \<noteq> []"
  shows "rs_CoBonuses (Score sc (sigs @ [s])) = rs_CoBonuses (Score sc sigs)"
  using assms by (auto simp: Score_def Score_groups_closed co_kinds_def intro!: fired_cong)

lemma kind_score_snoc:
  "kind_score sc k (xs @ [s]) = wrap64 (kind_score sc k xs + scaleInt (signal_weight sc k s) (dimFactor (length xs)))"
  by (simp add: kind_score_sum enumerate_append_eq)

lemma scaleInt_0 [simp]: "scaleInt w 0 = 0"
  by (simp add: scaleInt_def)

lemma kind_score_wrapped [simp]: "wrap64 (kind_score sc k xs) = kind_score sc k xs"
  by (simp add: kind_score_sum)

lemma kinds_total_snoc:
  assumes "sg_Kind s \<in> sg_Kind ` set sigs"
  shows "kinds_total sc (sigs @ [s]) = kinds_total sc sigs +
    (kind_score sc (sg_Kind s) (filter (\<lambda>x. sg_Kind x = sg_Kind s) sigs @ [s])
     - kind_score sc (sg_Kind s) (filter (\<lambda>x. sg_Kind x = sg_Kind s) sigs))"
proof -
  let ?K = "sg_Kind ` set sigs" and ?k = "sg_Kind s"
  have "kinds_total sc (sigs @ [s]) =
      (\<Sum>k\<in>?K. kind_score sc k (filter (\<lambda>x. sg_Kind x = k) (sigs @ [s])))"
    using assms by (simp add: kinds_total_def insert_absorb)
  also have "\<dots> = kind_score sc ?k (filter (\<lambda>x. sg_Kind x = ?k) (sigs @ [s])) +
      (\<Sum>k\<in>?K - {?k}. kind_score sc k (filter (\<lambda>x. sg_Kind x = k) (sigs @ [s])))"
    using assms by (simp only: sum.remove finite_imageI finite_set)
  also have "(\<Sum>k\<in>?K - {?k}. kind_score sc k (filter (\<lambda>x. sg_Kind x = k) (sigs @ [s]))) =
      (\<Sum>k\<in>?K - {?k}. kind_score sc k (filter (\<lambda>x. sg_Kind x = k) sigs))"
    by (rule sum.cong) auto
  finally show ?thesis
    using assms sum.remove [of ?K ?k "\<lambda>k. kind_score sc k (filter (\<lambda>x. sg_Kind x = k) sigs)"]
    by (simp add: kinds_total_def)
qed

subsection \<open>Bounds on the score\<close>

lemma go_get_or_all: "(\<forall>e\<in>set m. P (snd e)) \<Longrightarrow> P d \<Longrightarrow> P (go_get_or d m k)"
  by (fastforce simp: go_get_or_def split: option.split dest: map_of_SomeD)

lemma default_weight_range: "0 \<le> go_get_or 0 DefaultWeights k \<and> go_get_or 0 DefaultWeights k \<le> 100"
  by (rule go_get_or_all) (simp_all add: DefaultWeights_def)

lemma dimFactor_range: "0 \<le> dimFactor i \<and> dimFactor i \<le> 100"
  by (simp add: dimFactor_def)

lemma scaleInt_range:
  assumes "0 \<le> w" "w \<le> 100" "0 \<le> f" "f \<le> 100"
  shows "0 \<le> scaleInt w f \<and> scaleInt w f \<le> 100"
proof -
  have "w * f \<le> 100 * 100" using assms by (intro mult_mono) auto
  moreover have "0 \<le> w * f" using assms by simp
  ultimately show ?thesis
    by (auto simp: scaleInt_def signed_divide_int_def sgn_if)
qed

lemma scaleInt_100: "0 \<le> w \<Longrightarrow> w \<le> 100 \<Longrightarrow> scaleInt w 100 = w"
  by (simp add: scaleInt_def signed_divide_int_def sgn_if)

text \<open>The load under which no sum of the scorer leaves the 64-bit range.\<close>

definition sane_load :: "Signal list \<Rightarrow> bool" where
  "sane_load sigs \<longleftrightarrow> length sigs \<le> 1000000 \<and> (\<forall>s\<in>set sigs. sg_Weight s \<le> 100)"

lemma signal_weight_range:
  "sg_Weight s \<le> 100 \<Longrightarrow> 0 \<le> signal_weight (NewScorer None) k s \<and> signal_weight (NewScorer None) k s \<le> 100"
  using default_weight_range [of k] by (simp add: signal_weight_def NewScorer_def)

definition kind_raw :: "Scorer \<Rightarrow> SignalKind \<Rightarrow> Signal list \<Rightarrow> int" where
  "kind_raw sc k xs = (\<Sum>e\<leftarrow>enumerate 0 xs. scaleInt (signal_weight sc k (snd e)) (dimFactor (fst e)))"

lemma kind_raw_snoc:
  "kind_raw sc k (xs @ [s]) = kind_raw sc k xs + scaleInt (signal_weight sc k s) (dimFactor (length xs))"
  by (simp add: kind_raw_def enumerate_append_eq)

lemma kind_raw_range:
  "\<forall>s\<in>set xs. sg_Weight s \<le> 100 \<Longrightarrow>
     0 \<le> kind_raw (NewScorer None) k xs \<and> kind_raw (NewScorer None) k xs \<le> 100 * int (length xs)"
proof (induction xs rule: rev_induct)
  case Nil
  then show ?case by (simp add: kind_raw_def)
next
  case (snoc s xs)
  then show ?case
    using scaleInt_range [of "signal_weight (NewScorer None) k s" "dimFactor (length xs)"]
      signal_weight_range [of s k] dimFactor_range [of "length xs"]
    by (auto simp: kind_raw_snoc)
qed

lemma kind_score_raw:
  assumes "sane_load xs"
  shows "kind_score (NewScorer None) k xs = kind_raw (NewScorer None) k xs"
  using assms kind_raw_range [of xs k]
  by (auto simp: kind_score_sum kind_raw_def [symmetric] sane_load_def intro: wrap64_small)

lemma sane_filter: "sane_load sigs \<Longrightarrow> sane_load (filter P sigs)"
  using length_filter_le [of P sigs] by (auto simp: sane_load_def simp del: length_filter_le)

lemma kind_score_range:
  assumes "sane_load xs"
  shows "0 \<le> kind_score (NewScorer None) k xs \<and> kind_score (NewScorer None) k xs \<le> 100000000"
  using assms kind_raw_range [of xs k] by (auto simp: kind_score_raw sane_load_def)

lemma kinds_total_range:
  assumes "sane_load sigs"
  shows "0 \<le> kinds_total (NewScorer None) sigs \<and> kinds_total (NewScorer None) sigs \<le> 100000000000000"
proof -
  let ?f = "\<lambda>k. kind_score (NewScorer None) k (filter (\<lambda>s. sg_Kind s = k) sigs)"
  have f: "0 \<le> ?f k \<and> ?f k \<le> 100000000" for k
    using kind_score_range [OF sane_filter [OF assms]] by blast
  have "card (sg_Kind ` set sigs) \<le> length sigs"
    using card_image_le [of "set sigs" sg_Kind] card_length [of sigs] by (simp add: order_trans)
  then have card: "int (card (sg_Kind ` set sigs)) \<le> 1000000"
    using assms by (simp add: sane_load_def)
  have "sum ?f (sg_Kind ` set sigs) \<le> int (card (sg_Kind ` set sigs)) * 100000000"
    using sum_bounded_above [of "sg_Kind ` set sigs" ?f 100000000] f by simp
  moreover have "0 \<le> sum ?f (sg_Kind ` set sigs)" using f by (simp add: sum_nonneg)
  ultimately show ?thesis using card by (simp add: kinds_total_def)
qed

lemma bonus_range:
  "0 \<le> sum_list (map cb_Bonus (fired (NewScorer w) m)) \<and> sum_list (map cb_Bonus (fired (NewScorer w) m)) \<le> 180"
  by (simp add: fired_def NewScorer_def DefaultCoRules_def)

lemma Score_bonus_range:
  "0 \<le> sum_list (map cb_Bonus (rs_CoBonuses (Score (NewScorer w) sigs))) \<and>
     sum_list (map cb_Bonus (rs_CoBonuses (Score (NewScorer w) sigs))) \<le> 180"
  using bonus_range by (simp add: Score_def Score_groups_closed)

lemma Score_sane:
  assumes "sane_load sigs"
  shows "rs_Score (Score (NewScorer None) sigs) =
    clamp100 (kinds_total (NewScorer None) sigs +
      sum_list (map cb_Bonus (rs_CoBonuses (Score (NewScorer None) sigs))))"
  using kinds_total_range [OF assms] Score_bonus_range [of None sigs]
  by (subst Score_closed) (simp del: One_nat_def)

lemma kind_le_total:
  assumes "sane_load sigs" "k \<in> sg_Kind ` set sigs"
  shows "kind_score (NewScorer None) k (filter (\<lambda>s. sg_Kind s = k) sigs) \<le> kinds_total (NewScorer None) sigs"
  unfolding kinds_total_def
  by (rule member_le_sum) (use assms kind_score_range [OF sane_filter [OF assms(1)]] in auto)

lemma kind_raw_first:
  assumes "\<forall>x\<in>set (s # xs). sg_Weight x \<le> 100"
  shows "signal_weight (NewScorer None) k s \<le> kind_raw (NewScorer None) k (s # xs)"
  using assms
proof (induction xs rule: rev_induct)
  case Nil
  then show ?case
    using signal_weight_range [of s k] by (simp add: kind_raw_def dimFactor_def scaleInt_100)
next
  case (snoc x xs)
  have "0 \<le> scaleInt (signal_weight (NewScorer None) k x) (dimFactor (length (s # xs)))"
    using snoc.prems signal_weight_range [of x k] dimFactor_range [of "length (s # xs)"]
      scaleInt_range [of "signal_weight (NewScorer None) k x" "dimFactor (length (s # xs))"] by simp
  with snoc show ?case using kind_raw_snoc [of _ k "s # xs" x] by simp
qed

text \<open>A signal of a kind that no rule names: what it adds, and that it takes nothing away.\<close>

lemma kinds_total_snoc_new:
  assumes "sg_Kind s \<notin> sg_Kind ` set sigs"
  shows "kinds_total sc (sigs @ [s]) = kinds_total sc sigs + kind_score sc (sg_Kind s) [s]"
proof -
  let ?f = "\<lambda>k. kind_score sc k (filter (\<lambda>x. sg_Kind x = k) (sigs @ [s]))"
  have none: "filter (\<lambda>x. sg_Kind x = sg_Kind s) sigs = []"
    using assms by (intro filter_False ballI notI) (metis imageI)
  have "kinds_total sc (sigs @ [s]) = ?f (sg_Kind s) + sum ?f (sg_Kind ` set sigs)"
    using assms by (simp add: kinds_total_def)
  also have "sum ?f (sg_Kind ` set sigs) = kinds_total sc sigs"
    unfolding kinds_total_def using assms by (intro sum.cong) auto
  finally show ?thesis by (simp add: none)
qed

lemma kinds_total_snoc_mono:
  assumes "sane_load (sigs @ [s])"
  shows "kinds_total (NewScorer None) sigs \<le> kinds_total (NewScorer None) (sigs @ [s])"
proof (cases "sg_Kind s \<in> sg_Kind ` set sigs")
  case False
  have "sane_load [s]" using assms by (simp add: sane_load_def)
  with False show ?thesis
    using kind_score_range [of "[s]" "sg_Kind s"] by (simp add: kinds_total_snoc_new)
next
  case True
  let ?xs = "filter (\<lambda>x. sg_Kind x = sg_Kind s) sigs"
  have sane: "sane_load (?xs @ [s])" "sane_load ?xs"
    using sane_filter [OF assms, of "\<lambda>x. sg_Kind x = sg_Kind s"] by (auto simp: sane_load_def)
  have "0 \<le> scaleInt (signal_weight (NewScorer None) (sg_Kind s) s) (dimFactor (length ?xs))"
    using assms signal_weight_range [of s "sg_Kind s"] dimFactor_range [of "length ?xs"]
      scaleInt_range [of "signal_weight (NewScorer None) (sg_Kind s) s" "dimFactor (length ?xs)"]
    by (simp add: sane_load_def)
  with True show ?thesis
    by (simp add: kinds_total_snoc kind_score_raw sane kind_raw_snoc)
qed

lemma dimFactor_tail: "4 \<le> n \<Longrightarrow> dimFactor n = 0"
  by (simp add: dimFactor_def)

lemma flood_step:
  assumes "4 \<le> length (filter (\<lambda>x. sg_Kind x = sg_Kind s) sigs)" "sg_Kind s \<notin> co_kinds sc"
  shows "rs_Score (Score sc (sigs @ [s])) = rs_Score (Score sc sigs)"
proof -
  let ?xs = "filter (\<lambda>x. sg_Kind x = sg_Kind s) sigs"
  have "?xs \<noteq> []" using assms(1) by (metis list.size(3) not_numeral_le_zero)
  then have k: "sg_Kind s \<in> sg_Kind ` set sigs" and ne: "sigs \<noteq> []"
    unfolding filter_empty_conv by (metis imageI, auto)
  have "dimFactor (length ?xs) = 0" by (rule dimFactor_tail) (rule assms(1))
  then have "kinds_total sc (sigs @ [s]) = kinds_total sc sigs"
    using k by (simp add: kinds_total_snoc kind_score_snoc)
  then show ?thesis
    using bonuses_other_kind [OF assms(2) ne] Score_closed [of sc "sigs @ [s]"] Score_closed [of sc sigs]
    by simp
qed

text \<open>The first four signals of one kind at weight \<open>w\<close>.\<close>

lemma kind_raw_const:
  assumes "\<forall>s\<in>set xs. signal_weight sc k s = w"
  shows "kind_raw sc k xs = (\<Sum>i<length xs. scaleInt w (dimFactor i))"
  using assms
proof (induction xs rule: rev_induct)
  case Nil
  then show ?case by (simp add: kind_raw_def)
next
  case (snoc x xs)
  then show ?case by (simp add: kind_raw_snoc)
qed

lemma dim_sum:
  assumes "\<And>i. 0 \<le> scaleInt w (dimFactor i)"
  shows "(\<Sum>i<n. scaleInt w (dimFactor i)) \<le> scaleInt w 100 + scaleInt w 50 + scaleInt w 25 + scaleInt w 10"
proof -
  let ?f = "\<lambda>i. scaleInt w (dimFactor i)"
  have "sum ?f {..<n} \<le> sum ?f {..<max n 4}"
    using assms by (intro sum_mono2) auto
  also have "\<dots> = sum ?f {..<4} + sum ?f {4..<max n 4}"
    by (metis atLeast0LessThan max.cobounded2 sum.atLeastLessThan_concat zero_le)
  also have "sum ?f {4..<max n 4} = 0"
    by (rule sum.neutral) (simp add: dimFactor_def)
  also have "sum ?f {..<4} = scaleInt w 100 + scaleInt w 50 + scaleInt w 25 + scaleInt w 10"
    by (simp add: eval_nat_numeral dimFactor_def)
  finally show ?thesis by simp
qed

lemma no_bonus_one_kind:
  assumes "\<forall>s\<in>set sigs. sg_Kind s = k" "k \<notin> co_kinds (NewScorer None)"
  shows "rs_CoBonuses (Score (NewScorer None) sigs) = []"
proof (cases "sigs = []")
  case False
  have "\<forall>r\<in>set DefaultCoRules. evalCoRule r (group_by_kind sigs) = None"
  proof
    fix r assume r: "r \<in> set DefaultCoRules"
    then obtain j js where need: "cr_Need r = j # js" by (auto simp: DefaultCoRules_def)
    then have "j \<noteq> k" using r assms(2) by (auto simp: co_kinds_def NewScorer_def)
    then have "filter (\<lambda>s. sg_Kind s = j) sigs = []"
      using assms(1) by (auto simp: filter_empty_conv)
    then show "evalCoRule r (group_by_kind sigs) = None" by (simp add: evalCoRule_def need)
  qed
  with False show ?thesis
    by (simp add: Score_def Score_groups_closed fired_def NewScorer_def filter_empty_conv)
qed (simp add: Score_def)

lemma one_kind_total:
  assumes "\<forall>s\<in>set sigs. sg_Kind s = k" "sigs \<noteq> []"
  shows "kinds_total sc sigs = kind_score sc k sigs"
proof -
  have "sg_Kind ` set sigs = {k}" using assms by (cases sigs) auto
  moreover have "filter (\<lambda>s. sg_Kind s = k) sigs = sigs" using assms(1) by (simp add: filter_id_conv)
  ultimately show ?thesis by (simp add: kinds_total_def)
qed

definition weak_kinds :: "SignalKind list" where
  "weak_kinds = [SignalLOTL, SignalNewBinary, SignalNewEndpoint]"

lemma weak_weight: "k \<in> set weak_kinds \<Longrightarrow> go_get_or 0 DefaultWeights k \<in> {25, 20, 15}"
proof -
  have "list_all (\<lambda>k. go_get_or 0 DefaultWeights k \<in> set [25, 20, 15]) weak_kinds" by code_simp
  then show "k \<in> set weak_kinds \<Longrightarrow> ?thesis" by (simp add: list_all_iff)
qed

lemma weak_scale: "w \<in> {25, 20, 15} \<Longrightarrow> scaleInt w 100 + scaleInt w 50 + scaleInt w 25 + scaleInt w 10 \<le> 47"
  by (auto simp: scaleInt_def signed_divide_int_def)

lemma weak_kind_score:
  assumes "k \<in> set weak_kinds" "\<forall>s\<in>set sigs. sg_Weight s \<le> 0" "length sigs \<le> 1000000"
  shows "kind_score (NewScorer None) k sigs \<le> 47"
proof -
  let ?w = "go_get_or 0 DefaultWeights k"
  have "0 \<le> scaleInt ?w (dimFactor i)" for i
    using scaleInt_range default_weight_range dimFactor_range by simp
  moreover have "\<forall>s\<in>set sigs. signal_weight (NewScorer None) k s = ?w"
    using assms(2) by (simp add: signal_weight_def NewScorer_def)
  ultimately have "kind_raw (NewScorer None) k sigs \<le>
      scaleInt ?w 100 + scaleInt ?w 50 + scaleInt ?w 25 + scaleInt ?w 10"
    using dim_sum [of ?w "length sigs"] kind_raw_const [of sigs "NewScorer None" k ?w] by simp
  also have "\<dots> \<le> 47"
    using weak_weight [OF assms(1)] by (rule weak_scale)
  finally have "kind_raw (NewScorer None) k sigs \<le> 47" .
  moreover have "sane_load sigs" unfolding sane_load_def using assms(2,3) by fastforce
  ultimately show ?thesis by (simp add: kind_score_raw)
qed

subsection \<open>Properties of the score\<close>

text \<open>
  C13: the score does not depend on the order in which Go walks its maps: for every order of the
  groups the score and the bonuses are the same, and the contributions are the same rows in
  another order.
\<close>

theorem score_order_independent:
  assumes "mset m = mset (group_by_kind sigs)"
  shows "rs_Score (Score_groups sc m) = rs_Score (Score_groups sc (group_by_kind sigs)) \<and>
    rs_CoBonuses (Score_groups sc m) = rs_CoBonuses (Score_groups sc (group_by_kind sigs)) \<and>
    mset (rs_Contributions (Score_groups sc m)) = mset (rs_Contributions (Score_groups sc (group_by_kind sigs)))"
proof -
  have "mset (map fst m) = mset (map fst (group_by_kind sigs))" using assms by simp
  then have "go_wf m" using group_wf [of sigs] mset_eq_imp_distinct_iff by blast
  then have "go_get m = go_get (group_by_kind sigs)"
    using mset_eq_setD [OF assms] group_wf [of sigs] by (simp only: map_of_inject_set)
  then have "fired sc m = fired sc (group_by_kind sigs)"
    by (intro fired_cong) (simp add: go_get_or_def)
  moreover have "(\<Sum>e\<leftarrow>m. kind_score sc (fst e) (snd e)) =
      (\<Sum>e\<leftarrow>group_by_kind sigs. kind_score sc (fst e) (snd e))"
    by (simp only: sum_mset_sum_list [symmetric] mset_map assms)
  ultimately show ?thesis by (simp only: Score_groups_closed mset_map assms)
qed

definition sig_at :: "SignalKind \<Rightarrow> gotime \<Rightarrow> Signal" where
  "sig_at k t = \<lparr>sg_LineageID = 7, sg_Kind = k, sg_At = t, sg_Source = '''', sg_Detail = '''',
     sg_Weight = 0, sg_Confidence = '''', sg_RemoteIP = ''''\<rparr>"

theorem score_order_independent_witness:
  "let sigs = [sig_at SignalBase64Decode 1, sig_at SignalChmodExec 2];
       m = [(SignalChmodExec, [sig_at SignalChmodExec 2]), (SignalBase64Decode, [sig_at SignalBase64Decode 1])]
   in rs_Score (Score_groups (NewScorer None) m) = rs_Score (Score_groups (NewScorer None) (group_by_kind sigs))"
proof -
  have "mset [(SignalChmodExec, [sig_at SignalChmodExec 2]), (SignalBase64Decode, [sig_at SignalBase64Decode 1])]
      = mset (group_by_kind [sig_at SignalBase64Decode 1, sig_at SignalChmodExec 2])"
    by (simp add: group_by_kind_def sig_at_def go_get_or_def add_mset_commute)
  from score_order_independent [OF this, of "NewScorer None"] show ?thesis by (simp add: Let_def)
qed

text \<open>The score of any list of signals, under any weights and rules, is between 0 and 100.\<close>

theorem score_bounded: "0 \<le> rs_Score (Score sc sigs) \<and> rs_Score (Score sc sigs) \<le> 100"
  by (rule Score_range)

text \<open>
  C26: flooding with one kind is capped: once a lineage has four signals of a kind that no
  co-occurrence rule names, any number of further signals of that kind leaves the score as it is.
\<close>

theorem same_kind_flood_capped:
  assumes "4 \<le> length (filter (\<lambda>x. sg_Kind x = k) sigs)" "k \<notin> co_kinds sc"
    and "\<forall>s\<in>set extra. sg_Kind s = k"
  shows "rs_Score (Score sc (sigs @ extra)) = rs_Score (Score sc sigs)"
  using assms(3)
proof (induction extra rule: rev_induct)
  case Nil
  then show ?case by simp
next
  case (snoc s extra)
  then show ?case using assms(1,2) flood_step [of s "sigs @ extra" sc] by simp
qed

theorem same_kind_flood_capped_witness:
  "rs_Score (Score (NewScorer None) (replicate 4 (sig_at SignalNewEndpoint 5) @ replicate 3 (sig_at SignalNewEndpoint 6)))
     = rs_Score (Score (NewScorer None) (replicate 4 (sig_at SignalNewEndpoint 5)))"
  by (rule same_kind_flood_capped [where k = SignalNewEndpoint])
    (simp_all add: sig_at_def co_kinds_def NewScorer_def DefaultCoRules_def)

text \<open>
  No number of signals of one weak kind (up to a million live at once) reaches 50, the
  lowest score the planner acts on.
\<close>

theorem weak_flood_never_plans:
  assumes "k \<in> set weak_kinds" "\<forall>s\<in>set sigs. sg_Kind s = k \<and> sg_Weight s \<le> 0" "length sigs \<le> 1000000"
  shows "rs_Score (Score (NewScorer None) sigs) < 50"
proof (cases "sigs = []")
  case False
  have "k \<notin> co_kinds (NewScorer None)"
    using assms(1) by (auto simp: weak_kinds_def co_kinds_def NewScorer_def DefaultCoRules_def)
  then have "rs_CoBonuses (Score (NewScorer None) sigs) = []"
    using no_bonus_one_kind [of sigs k] assms(2) by simp
  moreover have "sane_load sigs" using assms(2,3) by (auto simp: sane_load_def)
  moreover have "kinds_total (NewScorer None) sigs \<le> 47"
    using one_kind_total [of sigs k] weak_kind_score [of k sigs] assms False by simp
  ultimately show ?thesis by (simp add: Score_sane clamp100_def Let_def)
qed (simp add: Score_def)

theorem weak_flood_never_plans_witness:
  "rs_Score (Score (NewScorer None) (replicate 9 (sig_at SignalLOTL 5))) < 50"
  by (rule weak_flood_never_plans [where k = SignalLOTL]) (simp_all add: weak_kinds_def sig_at_def)

definition tier1_kinds :: "SignalKind list" where
  "tier1_kinds = [SignalCanaryTouch, SignalPassportMissing, SignalDefenseEvasion,
     SignalShellAttempt, SignalDownloader, SignalForbiddenWrite, SignalRWXMemory, SignalC2Beacon,
     SignalDecoyTouch, SignalCrashLoop, SignalIdentityMismatch, SignalReconTool, SignalPrivTool,
     SignalCredBrokerDeny, SignalCredBrokerHoneyTouch]"

lemma tier1_weight: "k \<in> set tier1_kinds \<Longrightarrow> 75 \<le> go_get_or 0 DefaultWeights k"
proof -
  have "list_all (\<lambda>k. 75 \<le> go_get_or 0 DefaultWeights k) tier1_kinds" by code_simp
  then show "k \<in> set tier1_kinds \<Longrightarrow> ?thesis" by (simp add: list_all_iff)
qed

text \<open>
  One deterministic signal is enough: if the first signal of a tier-1 kind carries no weight
  of its own, the score reaches the "suspended" tier, whatever else the lineage did.
\<close>

theorem tier1_signal_suspends:
  assumes "sane_load sigs" "k \<in> set tier1_kinds"
    and "filter (\<lambda>x. sg_Kind x = k) sigs = s # rest" "sg_Weight s \<le> 0"
  shows "tierSuspended \<le> tierFromScore (rs_Score (Score (NewScorer None) sigs))"
proof -
  have k: "k \<in> sg_Kind ` set sigs"
    using assms(3) by (metis (mono_tags, lifting) filter_eq_ConsD imageI in_set_conv_decomp)
  have "sane_load (s # rest)" using sane_filter [OF assms(1)] assms(3) by metis
  then have "signal_weight (NewScorer None) k s \<le> kind_score (NewScorer None) k (s # rest)"
    using kind_raw_first [of s rest k] by (auto simp: kind_score_raw sane_load_def)
  then have "75 \<le> kinds_total (NewScorer None) sigs"
    using kind_le_total [OF assms(1) k] assms(3,4) tier1_weight [OF assms(2)]
    by (simp add: signal_weight_def NewScorer_def)
  then have "75 \<le> rs_Score (Score (NewScorer None) sigs)"
    using Score_bonus_range [of None sigs] by (simp add: Score_sane [OF assms(1)] clamp100_def Let_def)
  then show ?thesis using tierFromScore_mono [of 75] by (simp add: tierFromScore_def)
qed

theorem tier1_signal_suspends_witness:
  "tierSuspended \<le> tierFromScore (rs_Score (Score (NewScorer None)
     [sig_at SignalNewBinary 3, sig_at SignalShellAttempt 4, sig_at SignalLOTL 5]))"
  by (rule tier1_signal_suspends [where k = SignalShellAttempt and s = "sig_at SignalShellAttempt 4" and rest = "[]"])
    (simp_all add: sane_load_def sig_at_def tier1_kinds_def)

text \<open>
  Evidence accumulates: a further signal of a kind that no co-occurrence rule names never
  lowers the score.
\<close>

theorem more_evidence_no_lower:
  assumes "sane_load (sigs @ [s])" "sg_Kind s \<notin> co_kinds (NewScorer None)"
  shows "rs_Score (Score (NewScorer None) sigs) \<le> rs_Score (Score (NewScorer None) (sigs @ [s]))"
proof (cases "sigs = []")
  case True
  then show ?thesis using Score_range [of "NewScorer None" "[s]"] by (simp add: Score_def)
next
  case False
  have "sane_load sigs" using assms(1) by (simp add: sane_load_def)
  then show ?thesis
    using kinds_total_snoc_mono [OF assms(1)] bonuses_other_kind [OF assms(2) False]
    by (simp add: Score_sane assms(1) clamp100_mono)
qed

theorem more_evidence_no_lower_witness:
  "rs_Score (Score (NewScorer None) [sig_at SignalLOTL 3])
     \<le> rs_Score (Score (NewScorer None) ([sig_at SignalLOTL 3] @ [sig_at SignalCredAccess 4]))"
  by (rule more_evidence_no_lower)
    (simp_all add: sane_load_def sig_at_def co_kinds_def NewScorer_def DefaultCoRules_def)

subsection \<open>The aggregator against its specification\<close>

datatype agg_call = ARecord gotime Signal | ASnapshot u64 gotime | AForget u64 | ALineages gotime

primrec agg_step :: "Aggregator \<Rightarrow> agg_call \<Rightarrow> Aggregator" where
  "agg_step a (ARecord now s) = Aggregator_Record now s a"
| "agg_step a (ASnapshot lid now) = fst (Aggregator_Snapshot lid now a)"
| "agg_step a (AForget lid) = Aggregator_Forget lid a"
| "agg_step a (ALineages now) = fst (Aggregator_Lineages now a)"

text \<open>The specification: all the signals recorded for a lineage since it was last forgotten.\<close>

primrec spec_step :: "u64 \<Rightarrow> Signal list \<Rightarrow> agg_call \<Rightarrow> Signal list" where
  "spec_step lid ss (ARecord now s) = (if sg_LineageID s = lid then ss @ [Signal_stamp now s] else ss)"
| "spec_step lid ss (ASnapshot l now) = ss"
| "spec_step lid ss (AForget l) = (if l = lid then [] else ss)"
| "spec_step lid ss (ALineages now) = ss"

definition recorded :: "agg_call list \<Rightarrow> u64 \<Rightarrow> Signal list" where
  "recorded cs lid = foldl (spec_step lid) [] cs"

primrec call_times :: "agg_call \<Rightarrow> gotime list" where
  "call_times (ARecord now s) = [sg_At (Signal_stamp now s)]"
| "call_times (ASnapshot l now) = [now]"
| "call_times (AForget l) = []"
| "call_times (ALineages now) = [now]"

definition trace_times :: "agg_call list \<Rightarrow> gotime list" where
  "trace_times cs = concat (map call_times cs)"

lemma recorded_simps [simp]: "recorded [] lid = []" "recorded (cs @ [c]) lid = spec_step lid (recorded cs lid) c"
  by (simp_all add: recorded_def)

lemma trace_times_simps [simp]: "trace_times [] = []" "trace_times (cs @ [c]) = trace_times cs @ call_times c"
  by (simp_all add: trace_times_def)

lemma Signal_stamp_sel [simp]:
  "sg_LineageID (Signal_stamp now s) = sg_LineageID s" "sg_RemoteIP (Signal_stamp now s) = sg_RemoteIP s"
  by (simp_all add: Signal_stamp_def)

lemma ttl_frame [simp]: "ag_ttl (agg_step a c) = ag_ttl a"
  by (cases c) (simp_all add: Aggregator_Record_def Aggregator_Snapshot_def Aggregator_Forget_def
      Aggregator_Lineages_def Let_def)

lemma visit_all:
  assumes "distinct (map fst es)" "go_wf m"
  shows "go_wf (fst (foldl (Lineages_visit c) (m, out) es)) \<and>
    (\<forall>k. go_get_or [] (fst (foldl (Lineages_visit c) (m, out) es)) k =
       (case go_get es k of None \<Rightarrow> go_get_or [] m k | Some sigs \<Rightarrow> evictOlder sigs c)) \<and>
    snd (foldl (Lineages_visit c) (m, out) es) =
      out @ map fst (filter (\<lambda>e. evictOlder (snd e) c \<noteq> []) es)"
  using assms
proof (induction es arbitrary: m out)
  case (Cons e es)
  have none: "go_get es (fst e) = None" using Cons.prems by (simp add: map_of_eq_None_iff)
  define mo where "mo = Lineages_visit c (m, out) e"
  have mo: "go_wf (fst mo)" "\<And>k. go_get_or [] (fst mo) k = (if k = fst e then evictOlder (snd e) c else go_get_or [] m k)"
    "snd mo = out @ (if evictOlder (snd e) c \<noteq> [] then [fst e] else [])"
    using Cons.prems by (auto simp: mo_def Lineages_visit_def Let_def)
  obtain m' out' where mo': "mo = (m', out')" by (cases mo)
  show ?case
    using Cons.IH [of m' out'] Cons.prems mo none by (auto simp: mo_def [symmetric] mo' split: option.split)
qed (simp add: go_get_or_def)

lemma Lineages_spec:
  assumes "go_wf (ag_signals a)"
  shows "go_wf (ag_signals (fst (Aggregator_Lineages now a)))"
    "go_get_or [] (ag_signals (fst (Aggregator_Lineages now a))) k =
       evictOlder (go_get_or [] (ag_signals a) k) (now - ag_ttl a)"
    "sorted (snd (Aggregator_Lineages now a))" "distinct (snd (Aggregator_Lineages now a))"
    "k \<in> set (snd (Aggregator_Lineages now a)) \<longleftrightarrow> snd (Aggregator_Snapshot k now a) \<noteq> []"
proof -
  note v = visit_all [OF assms assms, of "now - ag_ttl a" "[]"]
  show "go_wf (ag_signals (fst (Aggregator_Lineages now a)))"
    using v by (simp add: Aggregator_Lineages_def Let_def)
  show "go_get_or [] (ag_signals (fst (Aggregator_Lineages now a))) k =
       evictOlder (go_get_or [] (ag_signals a) k) (now - ag_ttl a)"
    using v by (auto simp: Aggregator_Lineages_def Let_def go_get_or_def evictOlder_def split: option.split)
  show "sorted (snd (Aggregator_Lineages now a))" "distinct (snd (Aggregator_Lineages now a))"
    using v assms by (simp_all add: Aggregator_Lineages_def Let_def distinct_map_filter)
  show "k \<in> set (snd (Aggregator_Lineages now a)) \<longleftrightarrow> snd (Aggregator_Snapshot k now a) \<noteq> []"
    using v assms go_get_or_entry [OF assms, of k _ "[]"]
    by (force simp: Aggregator_Lineages_def Aggregator_Snapshot_def Let_def go_get_or_def
        evictOlder_def image_iff split: option.splits)
qed

text \<open>
  The simulation: what the aggregator holds is the end of what was recorded, and every signal it
  dropped had expired at the time of some call.
\<close>

definition agg_sim :: "agg_call list \<Rightarrow> Aggregator \<Rightarrow> bool" where
  "agg_sim cs a \<longleftrightarrow> go_wf (ag_signals a) \<and>
     (\<forall>lid. \<exists>pre. recorded cs lid = pre @ go_get_or [] (ag_signals a) lid \<and>
        (\<forall>s\<in>set pre. \<exists>x\<in>set (trace_times cs). sg_At s < x - ag_ttl a)) \<and>
     (\<forall>lid. set (go_get_or [] (ag_remoteIP a) lid) = sg_RemoteIP ` set (recorded cs lid) - {''''} \<and>
        distinct (go_get_or [] (ag_remoteIP a) lid))"

lemma evictOlder_split: "\<exists>pre. xs = pre @ evictOlder xs c \<and> (\<forall>s\<in>set pre. sg_At s < c)"
  unfolding evictOlder_def
  by (rule exI [of _ "takeWhile (\<lambda>s. sg_At s < c) xs"]) (auto dest: set_takeWhileD)

lemma sim_evict:
  assumes "rec = pre @ sigs" "\<forall>s\<in>set pre. \<exists>x\<in>X. sg_At s < x - ttl" "now \<in> X"
  shows "\<exists>pre. rec = pre @ evictOlder sigs (now - ttl) \<and> (\<forall>s\<in>set pre. \<exists>x\<in>X. sg_At s < x - ttl)"
proof -
  obtain p2 where "sigs = p2 @ evictOlder sigs (now - ttl)" "\<forall>s\<in>set p2. sg_At s < now - ttl"
    using evictOlder_split [of sigs "now - ttl"] by blast
  then show ?thesis using assms by (intro exI [of _ "pre @ p2"]) auto
qed

lemma agg_sim_ips:
  assumes "agg_sim cs a"
  shows "set (go_get_or [] (ag_remoteIP (agg_step a c)) lid) = sg_RemoteIP ` set (recorded (cs @ [c]) lid) - {''''} \<and>
    distinct (go_get_or [] (ag_remoteIP (agg_step a c)) lid)"
  using assms
  by (cases c) (auto simp: agg_sim_def Aggregator_Record_def Aggregator_Snapshot_def
      Aggregator_Forget_def Aggregator_Lineages_def Let_def)

lemma agg_sim_signals:
  assumes "agg_sim cs a"
  shows "\<exists>pre. recorded (cs @ [c]) lid = pre @ go_get_or [] (ag_signals (agg_step a c)) lid \<and>
    (\<forall>s\<in>set pre. \<exists>x\<in>set (trace_times (cs @ [c])). sg_At s < x - ag_ttl a)"
proof -
  obtain pre where pre: "recorded cs lid = pre @ go_get_or [] (ag_signals a) lid"
    "\<forall>s\<in>set pre. \<exists>x\<in>set (trace_times (cs @ [c])). sg_At s < x - ag_ttl a"
    using assms unfolding agg_sim_def by (metis Un_iff set_append trace_times_simps(2))
  have evict: "\<exists>pre. recorded cs lid = pre @ evictOlder (go_get_or [] (ag_signals a) lid) (now - ag_ttl a) \<and>
      (\<forall>s\<in>set pre. \<exists>x\<in>set (trace_times (cs @ [c])). sg_At s < x - ag_ttl a)"
    if "now \<in> set (call_times c)" for now
    by (rule sim_evict [OF pre]) (use that in simp)
  show ?thesis
  proof (cases c)
    case (ARecord now s)
    then show ?thesis
      using pre evict [of "sg_At (Signal_stamp now s)"]
      by (cases "sg_LineageID s = lid") (auto simp: Aggregator_Record_def Let_def)
  next
    case (ASnapshot l now)
    then show ?thesis
      using pre evict [of now] by (cases "l = lid") (auto simp: Aggregator_Snapshot_def Let_def)
  next
    case (AForget l)
    then show ?thesis using pre by (cases "l = lid") (auto simp: Aggregator_Forget_def)
  next
    case (ALineages now)
    then show ?thesis
      using evict [of now] Lineages_spec(2) [of a now lid] assms by (simp add: agg_sim_def)
  qed
qed

lemma agg_step_wf: "go_wf (ag_signals a) \<Longrightarrow> go_wf (ag_signals (agg_step a c))"
  by (cases c) (simp_all add: Aggregator_Record_def Aggregator_Snapshot_def Aggregator_Forget_def
      Lineages_spec(1) Let_def)

lemma agg_sim_step: "agg_sim cs a \<Longrightarrow> agg_sim (cs @ [c]) (agg_step a c)"
  using agg_sim_signals [of cs a c] agg_sim_ips [of cs a c] agg_step_wf [of a c]
  unfolding agg_sim_def [of "cs @ [c]"] by (simp add: agg_sim_def [of cs] del: recorded_simps trace_times_simps)

lemma agg_sim_run: "agg_sim cs (foldl agg_step (NewAggregator ttl) cs)"
proof (induction cs rule: rev_induct)
  case Nil
  then show ?case by (simp add: agg_sim_def NewAggregator_def)
qed (simp add: agg_sim_step)

interpretation aggm: machine "NewAggregator ttl" agg_step "\<lambda>a. go_wf (ag_signals a)" for ttl
  by unfold_locales (simp_all add: NewAggregator_def agg_step_wf)

lemma ttl_run [simp]: "ag_ttl (foldl agg_step a cs) = ag_ttl a"
  by (induction cs arbitrary: a) simp_all

lemma evictOlder_sorted:
  "sorted (map sg_At xs) \<Longrightarrow> evictOlder xs c = filter (\<lambda>s. c \<le> sg_At s) xs"
proof (induction xs)
  case (Cons s xs)
  show ?case
  proof (cases "sg_At s < c")
    case True
    with Cons show ?thesis by (simp add: evictOlder_def)
  next
    case False
    then have "\<forall>x\<in>set (s # xs). c \<le> sg_At x" using Cons.prems by auto
    then have "filter (\<lambda>s. c \<le> sg_At s) (s # xs) = s # xs" by (rule filter_True)
    with False show ?thesis by (simp only: evictOlder_def dropWhile.simps if_False)
  qed
qed (simp add: evictOlder_def)

lemma recorded_times: "sg_At ` set (recorded cs lid) \<subseteq> set (trace_times cs)"
proof (induction cs rule: rev_induct)
  case (snoc c cs)
  then show ?case by (cases c) (auto split: if_splits)
qed simp

lemma recorded_sorted: "sorted (trace_times cs) \<Longrightarrow> sorted (map sg_At (recorded cs lid))"
proof (induction cs rule: rev_induct)
  case (snoc c cs)
  then have "sorted (map sg_At (recorded cs lid))" by (simp add: sorted_append)
  with snoc.prems recorded_times [of cs lid] show ?case
    by (cases c) (auto simp: sorted_append)
qed simp

subsection \<open>Properties of the aggregator and the planner\<close>



text \<open>
  C28: attribution is exact. The attributed IPs of a lineage are, sorted and without repetitions,
  precisely the non-empty remote IPs of the signals recorded for that lineage since it was last
  forgotten: no other lineage's traffic is ever charged to it.
\<close>

theorem attribution_exact:
  "let ips = AttributedIPs (foldl agg_step (NewAggregator ttl) cs) lid in
     sorted ips \<and> distinct ips \<and> set ips = {sg_RemoteIP s | s. s \<in> set (recorded cs lid)} - {''''}"
  using agg_sim_run [of cs ttl] by (auto simp: agg_sim_def AttributedIPs_def)

text \<open>
  The lineages a tick visits are, in ascending order and without repetitions, precisely
  those that have a live signal.
\<close>

theorem lineages_are_live:
  "let a = foldl agg_step (NewAggregator ttl) cs; ls = snd (Aggregator_Lineages now a) in
     sorted ls \<and> distinct ls \<and> (lid \<in> set ls \<longleftrightarrow> snd (Aggregator_Snapshot lid now a) \<noteq> [])"
  unfolding Let_def
  using Lineages_spec(3-5) [OF aggm.run_inv [of ttl cs]] by blast

lemma digit_char_mod [simp]: "digit_char (n mod 10) = digit_char n"
  by (simp add: digit_char_def)

lemma itoa_digits_dec:
  "0 < n \<Longrightarrow> n < 10 ^ i \<Longrightarrow>
     itoa_digits i n acc = Some (i - length (dec_str (nat n)), dec_str (nat n) @ acc)"
proof (induction i arbitrary: n acc)
  case (Suc i)
  have d: "digit_char (nat (n mod 10)) = digit_char (nat n)"
    using Suc.prems by (simp add: nat_mod_distrib)
  show ?case
  proof (cases "n < 10")
    case True
    then have "nat n < 10" "n div 10 = 0" using Suc.prems by auto
    with Suc.prems d show ?thesis
      by (simp add: itoa_digits.simps [of "Suc i" n] itoa_digits.simps [of i 0] dec_str.simps [of "nat n"])
  next
    case False
    have "nat (n div 10) = nat n div 10" using False by (simp add: nat_div_distrib)
    moreover have "0 < n div 10" "n div 10 < 10 ^ i" using False Suc.prems by auto
    ultimately show ?thesis
      using Suc.IH [of "n div 10" "digit_char (nat n) # acc"] False d
      by (simp add: itoa_digits.simps [of "Suc i" n] dec_str.simps [of "nat n"])
  qed
qed simp

lemma itoa_digits_panic: "10 ^ i \<le> n \<Longrightarrow> itoa_digits i n acc = None"
proof (induction i arbitrary: n acc)
  case 0
  then show ?case by (simp add: itoa_digits.simps [of 0 n])
next
  case (Suc i)
  have "(10 * 10 ^ i) div 10 \<le> n div 10" by (rule zdiv_mono1) (use Suc.prems in simp_all)
  then have "10 ^ i \<le> n div 10" by simp
  moreover have "0 < n" using Suc.prems by (smt (verit) zero_less_power)
  ultimately show ?case using Suc.IH by (simp add: itoa_digits.simps [of "Suc i" n])
qed

lemma itoa_dec: "0 \<le> n \<Longrightarrow> n < 10 ^ 12 \<Longrightarrow> itoa n = Some (dec_str (nat n))"
proof (cases "n = 0")
  case True
  moreover have "itoa 0 = Some (dec_str 0)" by code_simp
  ultimately show ?thesis by simp
qed (use itoa_digits_dec [of n 12 "[]"] in \<open>simp add: itoa_def\<close>)

text \<open>
  \<^verbatim>\<open>itoa\<close> is right as far as its buffer goes: below \<open>10 ^ 12\<close> it gives the decimal text, which
  \<^verbatim>\<open>atoi\<close> reads back; from there on its 12-byte buffer is too short and the index panics.
\<close>

theorem itoa_exact:
  assumes "0 \<le> n"
  shows "if n < 10 ^ 12 then itoa n = Some (dec_str (nat n)) \<and> atoi (dec_str (nat n)) = n else itoa n = None"
  using assms itoa_dec [of n] atoi_dec_str [of "nat n"] itoa_digits_panic [of 12 n "[]"]
  by (auto simp: itoa_def not_less)

theorem itoa_exact_witness:
  "if (4207::int) < 10 ^ 12 then itoa 4207 = Some (dec_str (nat 4207)) \<and> atoi (dec_str (nat 4207)) = 4207
   else itoa 4207 = None"
  by (rule itoa_exact) simp

lemma lineageReason_total: "\<exists>r. lineageReason (Score sc sigs) s = Some r"
  using Score_range [of sc sigs] itoa_dec [of "rs_Score (Score sc sigs)"] by (simp add: lineageReason_def)

lemma Planner_Plan_cases:
  obtains "Planner_Plan fr st lid now p =
      Some (p\<lparr>pl_Agg := fst (Aggregator_Snapshot lid now (pl_Agg p))\<rparr>, None)"
    "snd (Aggregator_Snapshot lid now (pl_Agg p)) = [] \<or>
      rs_Score (Score (pl_Scorer p) (snd (Aggregator_Snapshot lid now (pl_Agg p)))) < pl_MinScoreToPlan p \<and>
      (case st of None \<Rightarrow> True | Some l \<Rightarrow> Log_State l lid = StateObserved)"
  | reason where "Planner_Plan fr st lid now p =
      Some (p\<lparr>pl_Agg := fst (Aggregator_Snapshot lid now (pl_Agg p))\<rparr>,
        Some (planWithAlert fr st (p\<lparr>pl_Agg := fst (Aggregator_Snapshot lid now (pl_Agg p))\<rparr>)
          (takeover_alert fr reason (last (snd (Aggregator_Snapshot lid now (pl_Agg p)))))
          (Score (pl_Scorer p) (snd (Aggregator_Snapshot lid now (pl_Agg p)))) lid))"
    "snd (Aggregator_Snapshot lid now (pl_Agg p)) \<noteq> []"
    "pl_MinScoreToPlan p \<le> rs_Score (Score (pl_Scorer p) (snd (Aggregator_Snapshot lid now (pl_Agg p)))) \<or>
      (\<exists>l. st = Some l \<and> Log_State l lid \<noteq> StateObserved)"
proof -
  let ?sigs = "snd (Aggregator_Snapshot lid now (pl_Agg p))"
  let ?skip = "?sigs = [] \<or> rs_Score (Score (pl_Scorer p) ?sigs) < pl_MinScoreToPlan p \<and>
      (case st of None \<Rightarrow> True | Some l \<Rightarrow> Log_State l lid = StateObserved)"
  obtain reason where r: "lineageReason (Score (pl_Scorer p) ?sigs) (last ?sigs) = Some reason"
    using lineageReason_total by blast
  show thesis
  proof (cases ?skip)
    case True
    then show ?thesis using that(1) by (auto simp: Planner_Plan_def Let_def case_prod_beta)
  next
    case False
    then show ?thesis
      using that(2) [of reason] r
      by (auto simp: Planner_Plan_def Let_def case_prod_beta not_less split: option.splits)
  qed
qed

text \<open>
  C27: the planner never panics, and emits a plan for a lineage precisely when the lineage has a
  live signal and either its score reaches the threshold or the action log holds it in a state
  other than "observed".
\<close>

theorem planner_emits_exactly:
  "let sigs = snd (Aggregator_Snapshot lid now (pl_Agg p)) in
   \<exists>p' po. Planner_Plan fr st lid now p = Some (p', po) \<and>
     (po \<noteq> None \<longleftrightarrow> sigs \<noteq> [] \<and>
        (pl_MinScoreToPlan p \<le> rs_Score (Score (pl_Scorer p) sigs) \<or>
         (\<exists>l. st = Some l \<and> Log_State l lid \<noteq> StateObserved)))"
  by (cases rule: Planner_Plan_cases [of fr st lid now p]) (auto simp: Let_def split: option.splits)

end
