(* ===== verification/Enforce.thy ===== *)
theory Enforce
  imports XPrelude
begin

text \<open>
  The enforcement primitives, \<^verbatim>\<open>pkg/enforce\<close>: the panic switch (\<^verbatim>\<open>panic.go\<close>) and the tracker of
  stopped processes (\<^verbatim>\<open>quarantine.go\<close>).

  What the operating system answers is an argument: whether the pinned file exists, how a write
  or a removal ends, whether a signal is delivered. A quarantine call returns the new tracker,
  its result, and the signals it sent, delivered or not. \<open>send\<close> may be nil in the source; then
  nothing is sent and every call succeeds.
\<close>

subsection \<open>The panic switch\<close>

record PanicSwitch =
  ps_PinPath :: string
  ps_armed :: bool

definition NewPanicSwitch :: "bool \<Rightarrow> string \<Rightarrow> PanicSwitch" where
  "NewPanicSwitch pinned pinPath =
     \<lparr>ps_PinPath = (if pinPath = '''' then ''/sys/fs/bpf/xhelix/xh_panic'' else pinPath),
      ps_armed = pinned\<rparr>"

definition Armed :: "PanicSwitch \<Rightarrow> bool" where
  "Armed p = ps_armed p"

text \<open>
  \<open>Arm\<close> and \<open>Disarm\<close> take and return whether the pinned file exists. A write that fails may or may
  not have created the file.
\<close>

datatype pin_write = MkdirFails | WriteFails bool | Written
datatype pin_remove = Removed | NotExist | RemoveFails
datatype panic_error = MkdirError | WriteError | RemoveError

definition Arm :: "pin_write \<Rightarrow> PanicSwitch \<times> bool \<Rightarrow> (PanicSwitch \<times> bool) \<times> panic_error option" where
  "Arm w st =
     (let p = (fst st)\<lparr>ps_armed := True\<rparr> in
      case w of
        MkdirFails \<Rightarrow> ((p, snd st), Some MkdirError)
      | WriteFails pinned \<Rightarrow> ((p, snd st \<or> pinned), Some WriteError)
      | Written \<Rightarrow> ((p, True), None))"

definition Disarm :: "pin_remove \<Rightarrow> PanicSwitch \<times> bool \<Rightarrow> (PanicSwitch \<times> bool) \<times> panic_error option" where
  "Disarm r st =
     (let p = (fst st)\<lparr>ps_armed := False\<rparr> in
      case r of
        Removed \<Rightarrow> ((p, False), None)
      | NotExist \<Rightarrow> ((p, snd st), None)
      | RemoveFails \<Rightarrow> ((p, snd st), Some RemoveError))"

subsection \<open>The quarantine\<close>

datatype os_signal = SIGSTOP | SIGCONT | SIGKILL

datatype enforce_error = InvalidPID | NotQuarantined | SendFailed

record QuarantineRecord =
  qr_PID :: u32
  qr_Comm :: string
  qr_Image :: string
  qr_StoppedAt :: gotime
  qr_ResumedAt :: gotime
  qr_KilledAt :: gotime
  qr_RuleID :: string
  qr_SnapshotID :: string
  qr_State :: string

record Quarantine =
  qu_send :: bool
  qu_records :: "(u32, QuarantineRecord) gomap"

type_synonym sent = "(u32 \<times> os_signal) list"

definition NewQuarantine :: "bool \<Rightarrow> Quarantine" where
  "NewQuarantine has_send = \<lparr>qu_send = has_send, qu_records = []\<rparr>"

definition Stop_fresh ::
    "gotime \<Rightarrow> bool \<Rightarrow> u32 \<Rightarrow> string \<Rightarrow> string \<Rightarrow> string \<Rightarrow> Quarantine \<Rightarrow>
     Quarantine \<times> (enforce_error + QuarantineRecord) \<times> sent" where
  "Stop_fresh now delivered pid comm img ruleID q =
     (let r = \<lparr>qr_PID = pid, qr_Comm = comm, qr_Image = img, qr_StoppedAt = now, qr_ResumedAt = 0,
               qr_KilledAt = 0, qr_RuleID = ruleID, qr_SnapshotID = [], qr_State = ''stopped''\<rparr>
      in if qu_send q \<and> \<not> delivered then (q, Inl SendFailed, [(pid, SIGSTOP)])
         else (q\<lparr>qu_records := go_set pid r (qu_records q)\<rparr>, Inr r,
               if qu_send q then [(pid, SIGSTOP)] else []))"

definition Quarantine_Stop ::
    "gotime \<Rightarrow> bool \<Rightarrow> u32 \<Rightarrow> string \<Rightarrow> string \<Rightarrow> string \<Rightarrow> Quarantine \<Rightarrow>
     Quarantine \<times> (enforce_error + QuarantineRecord) \<times> sent" where
  "Quarantine_Stop now delivered pid comm img ruleID q =
     (if pid = 0 \<or> pid = 1 then (q, Inl InvalidPID, [])
      else case go_get (qu_records q) pid of
             Some r \<Rightarrow>
               if qr_State r = ''stopped'' then (q, Inr r, [])
               else Stop_fresh now delivered pid comm img ruleID q
           | None \<Rightarrow> Stop_fresh now delivered pid comm img ruleID q)"

definition Quarantine_Resume :: "gotime \<Rightarrow> bool \<Rightarrow> u32 \<Rightarrow> Quarantine \<Rightarrow> Quarantine \<times> enforce_error option \<times> sent" where
  "Quarantine_Resume now delivered pid q =
     (case go_get (qu_records q) pid of
        None \<Rightarrow> (q, Some NotQuarantined, [])
      | Some r \<Rightarrow>
          if qu_send q \<and> \<not> delivered then (q, Some SendFailed, [(pid, SIGCONT)])
          else (q\<lparr>qu_records := go_set pid (r\<lparr>qr_ResumedAt := now, qr_State := ''resumed''\<rparr>) (qu_records q)\<rparr>,
                None, if qu_send q then [(pid, SIGCONT)] else []))"

definition Quarantine_Kill :: "gotime \<Rightarrow> bool \<Rightarrow> u32 \<Rightarrow> Quarantine \<Rightarrow> Quarantine \<times> enforce_error option \<times> sent" where
  "Quarantine_Kill now delivered pid q =
     (case go_get (qu_records q) pid of
        None \<Rightarrow> (q, Some NotQuarantined, [])
      | Some r \<Rightarrow>
          if qu_send q \<and> \<not> delivered then (q, Some SendFailed, [(pid, SIGKILL)])
          else (q\<lparr>qu_records := go_set pid (r\<lparr>qr_KilledAt := now, qr_State := ''killed''\<rparr>) (qu_records q)\<rparr>,
                None, if qu_send q then [(pid, SIGKILL)] else []))"

definition Quarantine_Snapshot :: "Quarantine \<Rightarrow> QuarantineRecord list" where
  "Quarantine_Snapshot q = map snd (qu_records q)"

subsection \<open>Lemmas\<close>

datatype qcall =
    QStop gotime bool u32 string string string
  | QResume gotime bool u32
  | QKill gotime bool u32

fun qstep :: "Quarantine \<times> sent \<Rightarrow> qcall \<Rightarrow> Quarantine \<times> sent" where
  "qstep (q, tr) (QStop now d pid comm img rid) =
     (let r = Quarantine_Stop now d pid comm img rid q in (fst r, tr @ snd (snd r)))"
| "qstep (q, tr) (QResume now d pid) = (let r = Quarantine_Resume now d pid q in (fst r, tr @ snd (snd r)))"
| "qstep (q, tr) (QKill now d pid) = (let r = Quarantine_Kill now d pid q in (fst r, tr @ snd (snd r)))"

text \<open>
  Every signal of a trace goes to a process other than 0 and 1, and one that is not a SIGSTOP
  comes after a SIGSTOP to the same process.
\<close>

fun signals_safe :: "u32 set \<Rightarrow> sent \<Rightarrow> bool" where
  "signals_safe held [] = True"
| "signals_safe held ((p, s) # tr) =
     (p \<noteq> 0 \<and> p \<noteq> 1 \<and> (s = SIGSTOP \<or> p \<in> held) \<and> signals_safe (if s = SIGSTOP then insert p held else held) tr)"

definition stops :: "sent \<Rightarrow> u32 set" where
  "stops tr = {p. (p, SIGSTOP) \<in> set tr}"

lemma stops_simps [simp]:
  "stops [] = {}" "stops (tr @ tr') = stops tr \<union> stops tr'"
  "stops ((p, s) # tr) = (if s = SIGSTOP then insert p (stops tr) else stops tr)"
  by (auto simp: stops_def)

lemma signals_safe_append:
  "signals_safe held (tr @ tr') \<longleftrightarrow> signals_safe held tr \<and> signals_safe (held \<union> stops tr) tr'"
proof (induction tr arbitrary: held)
  case (Cons e tr)
  then show ?case by (cases e) (simp add: Un_ac insert_commute)
qed simp

definition qinv :: "Quarantine \<times> sent \<Rightarrow> bool" where
  "qinv st \<longleftrightarrow> signals_safe {} (snd st) \<and>
     (\<forall>p r. go_get (qu_records (fst st)) p = Some r \<longrightarrow>
        p \<noteq> 0 \<and> p \<noteq> 1 \<and> (qu_send (fst st) \<longrightarrow> p \<in> stops (snd st)))"

lemma qinv_init: "qinv (NewQuarantine b, [])"
  by (simp add: qinv_def NewQuarantine_def)

lemma qinv_stop:
  assumes "qinv (q, tr)"
  shows "qinv (qstep (q, tr) (QStop now d pid comm img rid))"
  using assms
  by (auto simp: qinv_def Quarantine_Stop_def Stop_fresh_def Let_def signals_safe_append split: option.split)

lemma qinv_touch:
  assumes "qinv (q, tr)" "go_get (qu_records q) pid = Some r" "s \<noteq> SIGSTOP"
  shows "qinv (q\<lparr>qu_records := go_set pid r' (qu_records q)\<rparr>, tr @ (if qu_send q then [(pid, s)] else []))"
    "qu_send q \<Longrightarrow> qinv (q, tr @ [(pid, s)])"
  using assms
  by (auto simp: qinv_def signals_safe_append insert_absorb)

lemma qinv_step: "qinv st \<Longrightarrow> qinv (qstep st c)"
proof (cases st; cases c)
  fix q tr now d pid
  assume inv: "qinv st" and st: "st = (q, tr)"
  show "c = QResume now d pid \<Longrightarrow> qinv (qstep st c)" "c = QKill now d pid \<Longrightarrow> qinv (qstep st c)"
    using inv st qinv_touch [of q tr pid _ SIGCONT] qinv_touch [of q tr pid _ SIGKILL]
    by (auto simp: Quarantine_Resume_def Quarantine_Kill_def Let_def split: option.split)
qed (simp add: qinv_stop del: qstep.simps)

interpretation quar: machine "(NewQuarantine b, [])" qstep qinv for b
  by unfold_locales (auto intro: qinv_init qinv_step)

lemma safe_split:
  "signals_safe held (tr1 @ (p, s) # tr2) \<Longrightarrow> p \<noteq> 0 \<and> p \<noteq> 1 \<and> (s = SIGSTOP \<or> p \<in> held \<or> (p, SIGSTOP) \<in> set tr1)"
  by (auto simp: signals_safe_append stops_def)

subsection \<open>Properties\<close>

text \<open>
  C15: whatever calls are made and however signal delivery fares, no signal is ever sent to
  process 0 or 1, and every SIGCONT and SIGKILL comes after a SIGSTOP to the same process.
\<close>

theorem signals_are_safe:
  assumes "snd (foldl qstep (NewQuarantine b, []) cs) = tr1 @ (p, s) # tr2"
  shows "p \<noteq> 0 \<and> p \<noteq> 1 \<and> (s = SIGSTOP \<or> (p, SIGSTOP) \<in> set tr1)"
  using quar.run_inv [of b cs] safe_split [of "{}" tr1 p s tr2] assms by (auto simp: qinv_def)

theorem signals_are_safe_witness:
  "(42::u32) \<noteq> 0 \<and> (42::u32) \<noteq> 1 \<and> (SIGKILL = SIGSTOP \<or> (42::u32, SIGSTOP) \<in> set [(42, SIGSTOP)])"
proof (rule signals_are_safe)
  show "snd (foldl qstep (NewQuarantine True, []) [QStop 5 True 42 ''nc'' ''/bin/nc'' ''r1'', QKill 6 True 42])
      = [(42, SIGSTOP)] @ (42, SIGKILL) # []"
    by code_simp
qed

text \<open>
  Stopping is idempotent: after a stop that succeeded, stopping the same process again
  returns the same record, sends nothing and leaves the tracker as it is.
\<close>

theorem stop_idempotent:
  assumes "Quarantine_Stop now d pid comm img rid q = (q', Inr r, tr)"
  shows "Quarantine_Stop now' d' pid comm' img' rid' q' = (q', Inr r, [])"
  using assms
  by (auto simp: Quarantine_Stop_def Stop_fresh_def Let_def split: if_splits option.splits)

theorem stop_idempotent_witness:
  "let q' = fst (Quarantine_Stop 5 True 42 ''nc'' ''/bin/nc'' ''r1'' (NewQuarantine True)) in
   \<exists>r. Quarantine_Stop 9 False 42 ''x'' ''/x'' ''r2'' q' = (q', Inr r, [])"
proof -
  obtain r where r: "Quarantine_Stop 5 True 42 ''nc'' ''/bin/nc'' ''r1'' (NewQuarantine True) =
      (fst (Quarantine_Stop 5 True 42 ''nc'' ''/bin/nc'' ''r1'' (NewQuarantine True)), Inr r, [(42, SIGSTOP)])"
    by (simp add: Quarantine_Stop_def Stop_fresh_def NewQuarantine_def Let_def)
  show ?thesis using stop_idempotent [OF r] by (auto simp: Let_def)
qed

text \<open>
  The panic switch holds across a restart: arming takes effect at once even when the file
  cannot be written, and if the write succeeded, a switch built again on the same path is armed;
  after a disarm that returned no error and removed the file it is not.
\<close>

theorem panic_survives_restart:
  "Armed (fst (fst (Arm w st))) \<and>
   (snd (Arm w st) = None \<longrightarrow> Armed (NewPanicSwitch (snd (fst (Arm w st))) (ps_PinPath (fst st)))) \<and>
   \<not> Armed (NewPanicSwitch (snd (fst (Disarm Removed st))) (ps_PinPath (fst st)))"
  by (cases w) (simp_all add: Arm_def Disarm_def Armed_def NewPanicSwitch_def Let_def)

theorem panic_survives_restart_witness:
  "Armed (NewPanicSwitch (snd (fst (Arm Written (NewPanicSwitch False ''/tmp/p'', False)))) ''/tmp/p'')"
proof -
  have "snd (Arm Written (NewPanicSwitch False ''/tmp/p'', False)) = None \<and>
      ps_PinPath (fst (NewPanicSwitch False ''/tmp/p'', False)) = ''/tmp/p''"
    by (simp add: Arm_def NewPanicSwitch_def Let_def)
  then show ?thesis using panic_survives_restart [of Written "(NewPanicSwitch False ''/tmp/p'', False)"] by metis
qed

end
