(* ===== verification/GoNet.thy ===== *)
theory GoNet
  imports XPrelude
begin

text \<open>
  The parts of Go's \<^verbatim>\<open>net\<close> package the components call: \<^verbatim>\<open>ParseIP\<close> (with the \<^verbatim>\<open>net/netip\<close> parser
  behind it), \<^verbatim>\<open>SplitHostPort\<close>, the predicates on addresses, \<^verbatim>\<open>IP.String\<close>, and \<^verbatim>\<open>strconv.ParseUint\<close>.

  An address is its 16-byte form; an IPv4 address is the mapped one, \<^verbatim>\<open>::ffff:a.b.c.d\<close>, which is
  what \<^verbatim>\<open>ParseIP\<close> returns. A text with a zone never parses, so zones do not appear.
\<close>

type_synonym ip = "u8 list"

subsection \<open>Parsing\<close>

definition is_digit :: "char \<Rightarrow> bool" where
  "is_digit c = (let n = (of_char c :: nat) in 48 \<le> n \<and> n \<le> 57)"

definition hex_val :: "char \<Rightarrow> nat option" where
  "hex_val c =
     (let n = of_char c in
      if 48 \<le> n \<and> n \<le> 57 then Some (n - 48)
      else if 97 \<le> n \<and> n \<le> 102 then Some (n - 87)
      else if 65 \<le> n \<and> n \<le> 70 then Some (n - 55)
      else None)"

definition dec_val :: "string \<Rightarrow> nat" where
  "dec_val s = foldl (\<lambda>v c. v * 10 + (of_char c - 48)) 0 s"

text \<open>\<^verbatim>\<open>strconv.ParseUint(s, 10, bits)\<close>: digits only, and the value fits.\<close>

definition ParseUint :: "nat \<Rightarrow> string \<Rightarrow> nat option" where
  "ParseUint bits s =
     (if s = [] \<or> \<not> list_all is_digit s \<or> 2 ^ bits \<le> dec_val s then None else Some (dec_val s))"

text \<open>One octet: one to three digits, no leading zero, at most 255.\<close>

definition octet :: "string \<Rightarrow> u8 option" where
  "octet s =
     (if s = [] \<or> \<not> list_all is_digit s \<or> (1 < length s \<and> hd s = CHR ''0'') \<or> 255 < dec_val s
      then None else Some (of_nat (dec_val s)))"

definition parseIPv4Fields :: "string \<Rightarrow> u8 list option" where
  "parseIPv4Fields s =
     (let fs = str_split CHR ''.'' s
      in if length fs \<noteq> 4 \<or> None \<in> set (map octet fs) then None else Some (map (the \<circ> octet) fs))"

definition map4 :: "u8 list \<Rightarrow> ip" where
  "map4 v4 = replicate 10 0 @ [0xFF, 0xFF] @ v4"

definition is_hex :: "char \<Rightarrow> bool" where
  "is_hex c = (hex_val c \<noteq> None)"

definition hex_acc :: "string \<Rightarrow> nat" where
  "hex_acc s = foldl (\<lambda>v c. v * 16 + the (hex_val c)) 0 s"

text \<open>
  The loop of the IPv6 parser with room for \<open>n\<close> more groups: the bytes so far and the position of
  the \<^verbatim>\<open>::\<close>, if one was seen. The result has the text left over.
\<close>

fun ip6_loop :: "nat \<Rightarrow> string \<Rightarrow> u8 list \<Rightarrow> nat option \<Rightarrow> (string \<times> u8 list \<times> nat option) option" where
  "ip6_loop 0 s bs ell = Some (s, bs, ell)"
| "ip6_loop (Suc n) s bs ell =
     (let ds = takeWhile is_hex s; rest = dropWhile is_hex s in
      if ds = [] \<or> 4 < length ds then None
      else if rest \<noteq> [] \<and> hd rest = CHR ''.'' then
        (if ell = None \<and> length bs \<noteq> 12 then None
         else if 16 < length bs + 4 then None
         else case parseIPv4Fields s of None \<Rightarrow> None | Some f \<Rightarrow> Some ([], bs @ f, ell))
      else let bs' = bs @ [of_nat (hex_acc ds div 256), of_nat (hex_acc ds)] in
        if rest = [] then Some ([], bs', ell)
        else if hd rest \<noteq> CHR '':'' \<or> length rest = 1 then None
        else let s1 = tl rest in
          if hd s1 = CHR '':'' then
            (if ell \<noteq> None then None
             else if tl s1 = [] then Some ([], bs', Some (length bs'))
             else ip6_loop n (tl s1) bs' (Some (length bs')))
          else ip6_loop n s1 bs' ell)"

definition parseIPv6 :: "string \<Rightarrow> ip option" where
  "parseIPv6 s =
     (let lead = (take 2 s = '':'' @ '':''); s1 = (if lead then drop 2 s else s) in
      if lead \<and> s1 = [] then Some (replicate 16 0)
      else case ip6_loop 8 s1 [] (if lead then Some 0 else None) of
             None \<Rightarrow> None
           | Some (r, bs, ell) \<Rightarrow>
               if r \<noteq> [] then None
               else if length bs < 16 then
                 (case ell of None \<Rightarrow> None
                  | Some e \<Rightarrow> Some (take e bs @ replicate (16 - length bs) 0 @ drop e bs))
               else if ell \<noteq> None then None else Some bs)"

definition ParseIP :: "string \<Rightarrow> ip option" where
  "ParseIP s =
     (if CHR ''%'' \<in> set s then None
      else case find (\<lambda>c. c = CHR ''.'' \<or> c = CHR '':'') s of
             None \<Rightarrow> None
           | Some c \<Rightarrow> if c = CHR ''.'' then map_option map4 (parseIPv4Fields s) else parseIPv6 s)"

definition index_byte :: "char \<Rightarrow> string \<Rightarrow> nat option" where
  "index_byte c s = (if c \<in> set s then Some (length (takeWhile (\<lambda>x. x \<noteq> c) s)) else None)"

definition SplitHostPort :: "string \<Rightarrow> (string \<times> string) option" where
  "SplitHostPort hp =
     (case last_index CHR '':'' hp of
        None \<Rightarrow> None
      | Some i \<Rightarrow>
          if hd hp = CHR ''['' then
            (case index_byte CHR '']'' hp of
               None \<Rightarrow> None
             | Some e \<Rightarrow>
                 if e + 1 \<noteq> i then None
                 else if CHR ''['' \<in> set (drop 1 hp) \<or> CHR '']'' \<in> set (drop (e + 1) hp) then None
                 else Some (take (e - 1) (drop 1 hp), drop (i + 1) hp))
          else if CHR '':'' \<in> set (take i hp) then None
          else if CHR ''['' \<in> set hp \<or> CHR '']'' \<in> set hp then None
          else Some (take i hp, drop (i + 1) hp))"

subsection \<open>Predicates\<close>

unbundle bit_operations_syntax

definition To4 :: "ip \<Rightarrow> u8 list option" where
  "To4 i = (if take 12 i = replicate 10 0 @ [0xFF, 0xFF] then Some (drop 12 i) else None)"

definition IsLoopback :: "ip \<Rightarrow> bool" where
  "IsLoopback i = (case To4 i of Some v4 \<Rightarrow> v4 ! 0 = 127 | None \<Rightarrow> i = replicate 15 0 @ [1])"

definition IsUnspecified :: "ip \<Rightarrow> bool" where
  "IsUnspecified i \<longleftrightarrow> i = map4 [0, 0, 0, 0] \<or> i = replicate 16 0"

definition IsPrivate :: "ip \<Rightarrow> bool" where
  "IsPrivate i = (case To4 i of
      Some v4 \<Rightarrow> v4 ! 0 = 10 \<or> (v4 ! 0 = 172 \<and> v4 ! 1 AND 0xF0 = 16) \<or> (v4 ! 0 = 192 \<and> v4 ! 1 = 168)
    | None \<Rightarrow> i ! 0 AND 0xFE = 0xFC)"

definition IsLinkLocalUnicast :: "ip \<Rightarrow> bool" where
  "IsLinkLocalUnicast i = (case To4 i of
      Some v4 \<Rightarrow> v4 ! 0 = 169 \<and> v4 ! 1 = 254
    | None \<Rightarrow> i ! 0 = 0xFE \<and> i ! 1 AND 0xC0 = 0x80)"

subsection \<open>Printing\<close>

text \<open>
  \<^verbatim>\<open>IP.String\<close> on a 16-byte address: dotted decimal for a mapped IPv4 address, otherwise eight
  groups in hexadecimal with the first longest run of at least two zero groups as \<^verbatim>\<open>::\<close>.
\<close>

definition hex_digit :: "nat \<Rightarrow> char" where
  "hex_digit n = char_of (if n < 10 then 48 + n else 87 + n)"

definition hex_str :: "nat \<Rightarrow> string" where
  "hex_str n =
     (let ds = dropWhile (\<lambda>d. d = 0) [n div 4096 mod 16, n div 256 mod 16, n div 16 mod 16]
      in map hex_digit (ds @ [n mod 16]))"

fun ip_groups :: "ip \<Rightarrow> nat list" where
  "ip_groups (a # b # i) = (256 * unat a + unat b) # ip_groups i"
| "ip_groups _ = []"

text \<open>The run to abbreviate, as its start and length: \<open>(0, 0)\<close> for none.\<close>

definition zero_run :: "nat list \<Rightarrow> nat \<times> nat" where
  "zero_run gs =
     foldl (\<lambda>best i. let l = length (takeWhile (\<lambda>g. g = 0) (drop i gs))
                     in if 2 \<le> l \<and> snd best < l then (i, l) else best)
       (0, 0) [0..<length gs]"

definition ip_String :: "ip \<Rightarrow> string" where
  "ip_String i =
     (case To4 i of
        Some v4 \<Rightarrow> str_join ''.'' (map (\<lambda>b. dec_str (unat b)) v4)
      | None \<Rightarrow>
          let gs = ip_groups i; z = zero_run gs; hex = \<lambda>xs. str_join '':'' (map hex_str xs)
          in if snd z = 0 then hex gs
             else hex (take (fst z) gs) @ ''::'' @ hex (drop (fst z + snd z) gs))"

subsection \<open>Lemmas\<close>

lemma str_split_length: "str_split c s \<noteq> []"
  by (cases s) (auto split: list.split)

lemma parseIPv4Fields_length: "parseIPv4Fields s = Some f \<Longrightarrow> length f = 4"
  by (auto simp: parseIPv4Fields_def Let_def split: if_splits)

lemma ip6_loop_length:
  "ip6_loop n s bs ell = Some (r, bs', ell') \<Longrightarrow> length bs + 2 * n \<le> 16 \<Longrightarrow>
     (\<And>e. ell = Some e \<Longrightarrow> e \<le> length bs) \<Longrightarrow>
     length bs' \<le> 16 \<and> (\<forall>e. ell' = Some e \<longrightarrow> e \<le> length bs')"
proof (induction n s bs ell arbitrary: r bs' ell' rule: ip6_loop.induct)
  case (1 s bs ell)
  then show ?case by auto
next
  case (2 n s bs ell)
  show ?case
    using 2 by (fastforce simp: Let_def dest: parseIPv4Fields_length split: if_splits option.splits)
qed

lemma parseIPv6_length: "parseIPv6 s = Some i \<Longrightarrow> length i = 16"
  using ip6_loop_length [of 8 _ "[]"]
  by (fastforce simp: parseIPv6_def Let_def split: if_splits option.splits)

lemma ParseIP_length: "ParseIP s = Some i \<Longrightarrow> length i = 16"
  by (auto simp: ParseIP_def map4_def dest: parseIPv4Fields_length parseIPv6_length split: if_splits option.splits)

end
