(* ===== verification/Response.thy ===== *)
theory Response
  imports EventModel Enforce GoNet Decision
begin

text \<open>
  The response engine, \<^verbatim>\<open>pkg/response\<close>: the policy that maps a rule to a mask of actions, the
  dispatch of an alert and the ten action handlers (\<^verbatim>\<open>policy.go\<close>), and the executor of planner
  output (\<^verbatim>\<open>executor.go\<close>).

  An \<^verbatim>\<open>Action\<close> mask is a 16-bit word. The backends are interfaces: an engine field says which are
  present, every call to one is an \<open>effect\<close> appended to the engine's trace, and the environment
  \<open>env\<close> answers whether a call fails, given the calls before it. Log lines are left out. Go maps are
  references, so the tag \<^verbatim>\<open>OnAlert\<close> writes also shows in the caller's copy of the alert; here the
  stamped alert is the one handed to the backends.
\<close>

unbundle bit_operations_syntax

subsection \<open>Actions and policies\<close>

type_synonym Action = u16

abbreviation ActionLog :: Action where "ActionLog \<equiv> 1"
abbreviation ActionQuarantine :: Action where "ActionQuarantine \<equiv> 2"
abbreviation ActionKill :: Action where "ActionKill \<equiv> 4"
abbreviation ActionNetBan :: Action where "ActionNetBan \<equiv> 8"
abbreviation ActionRemediate :: Action where "ActionRemediate \<equiv> 16"
abbreviation ActionWebhook :: Action where "ActionWebhook \<equiv> 32"
abbreviation ActionSnapshot :: Action where "ActionSnapshot \<equiv> 64"
abbreviation ActionMemScan :: Action where "ActionMemScan \<equiv> 128"
abbreviation ActionLockUser :: Action where "ActionLockUser \<equiv> 256"
abbreviation ActionHostQuarantine :: Action where "ActionHostQuarantine \<equiv> 512"

type_synonym Policy = "(string, Action) gomap"

definition Policy_Default :: Policy where
  "Policy_Default =
    [(''decoy_file_opened'', ActionLog OR ActionWebhook OR ActionSnapshot OR ActionQuarantine),
     (''decoy_service_connect'', ActionLog OR ActionWebhook OR ActionNetBan),
     (''decoy_canary_token_used'', ActionLog OR ActionWebhook OR ActionNetBan),
     (''decoy_dns_resolved'', ActionLog OR ActionWebhook OR ActionSnapshot),
     (''mem_mprotect_rwx'', ActionLog OR ActionWebhook OR ActionSnapshot OR ActionMemScan),
     (''mem_canary_fail'', ActionLog OR ActionWebhook OR ActionSnapshot OR ActionMemScan),
     (''mem_kernel_anomaly'', ActionLog OR ActionWebhook OR ActionSnapshot),
     (''mem_lkrg_violation'', ActionLog OR ActionWebhook OR ActionSnapshot OR ActionMemScan OR ActionQuarantine),
     (''shell_with_socket_fd'', ActionLog OR ActionWebhook OR ActionSnapshot OR ActionMemScan OR ActionQuarantine),
     (''memfd_run_pattern'', ActionLog OR ActionWebhook OR ActionSnapshot OR ActionMemScan),
     (''web_server_spawns_shell'', ActionLog OR ActionWebhook OR ActionSnapshot OR ActionQuarantine),
     (''binary_runs_from_tmp'', ActionLog OR ActionWebhook OR ActionSnapshot),
     (''uid0_no_transition'', ActionLog OR ActionWebhook OR ActionSnapshot OR ActionQuarantine),
     (''ptrace_sensitive_target'', ActionLog OR ActionWebhook OR ActionSnapshot OR ActionMemScan),
     (''tamper_passwd'', ActionLog OR ActionWebhook OR ActionSnapshot),
     (''tamper_shadow'', ActionLog OR ActionWebhook OR ActionSnapshot),
     (''ld_so_preload_modified'', ActionLog OR ActionWebhook OR ActionSnapshot),
     (''pam_module_drop'', ActionLog OR ActionWebhook OR ActionSnapshot),
     (''ssh_key_added_root'', ActionLog OR ActionWebhook OR ActionSnapshot),
     (''cron_new_unit'', ActionLog OR ActionWebhook OR ActionSnapshot),
     (''outbound_to_known_bad'', ActionLog OR ActionWebhook OR ActionNetBan),
     (''metadata_svc_unexpected'', ActionLog OR ActionWebhook OR ActionSnapshot),
     (''netids.dga'', ActionLog OR ActionWebhook),
     (''bpf_syscall_unexpected'', ActionLog OR ActionWebhook OR ActionSnapshot),
     (''ssh_brute_then_success'', ActionLog OR ActionWebhook OR ActionNetBan OR ActionLockUser),
     (''beacon.periodic_callback'', ActionLog OR ActionWebhook OR ActionSnapshot),
     (''dnsexfil.tunnel_pattern'', ActionLog OR ActionWebhook),
     (''tamper.ptrace'', ActionLog OR ActionWebhook),
     (''tamper.binary_mtime'', ActionLog OR ActionWebhook),
     (''tamper.binary_inode'', ActionLog OR ActionWebhook),
     (''tamper.auditd_dead'', ActionLog OR ActionWebhook),
     (''tamper.binary_missing'', ActionLog OR ActionWebhook),
     (''tamper.pidfile'', ActionLog OR ActionWebhook),
     (''kallsyms_changed'', ActionLog OR ActionWebhook),
     (''modules_changed'', ActionLog OR ActionWebhook),
     (''syscall_address_drift'', ActionLog OR ActionWebhook),
     (''baseline.behavioural_deviation'', ActionLog OR ActionWebhook),
     (''baseline.rate_spike'', ActionLog OR ActionWebhook)]"

definition has_action :: "Action \<Rightarrow> Action \<Rightarrow> bool" where
  "has_action msk act = (msk AND act \<noteq> 0)"

definition describeMask :: "Action \<Rightarrow> string" where
  "describeMask msk =
     (if msk = 0 then ''none''
      else str_join '', '' (concat (map (\<lambda>e. if has_action msk (fst e) then [snd e] else [])
        [(ActionLog, ''log''), (ActionSnapshot, ''snapshot''), (ActionMemScan, ''memscan''),
         (ActionNetBan, ''netban''), (ActionRemediate, ''remediate''),
         (ActionQuarantine, ''quarantine''), (ActionKill, ''kill''), (ActionLockUser, ''lock-user''),
         (ActionHostQuarantine, ''host-quarantine''), (ActionWebhook, ''webhook'')])))"

text \<open>The set of rule ids that bypass monitor mode, blanks trimmed and empty entries dropped.\<close>

definition ruleSet :: "string list \<Rightarrow> string list" where
  "ruleSet ids = remdups (filter (\<lambda>s. s \<noteq> '''') (map trim_space ids))"

subsection \<open>Backend calls and the environment\<close>

datatype effect =
    ECapture u32 string string
  | EMemScan u32
  | EBan ip string duration
  | ERestore string string
  | ESignal u32 os_signal
  | ELockUser string
  | EEngage "string list"
  | EWebhook Alert

record env =
  env_fails :: "effect list \<Rightarrow> effect \<Rightarrow> bool"
  env_quarantined :: "effect list \<Rightarrow> bool"
  env_now :: "effect list \<Rightarrow> gotime"

subsection \<open>The engine\<close>

record Stats =
  st_Alerts :: u64
  st_Quarantine :: u64
  st_Kill :: u64
  st_NetBan :: u64
  st_Remediate :: u64
  st_Webhook :: u64
  st_Snapshot :: u64
  st_MemScan :: u64
  st_LockUser :: u64
  st_HostQuarantine :: u64
  st_Dropped :: u64

record Engine =
  en_policy :: Policy
  en_monitorMode :: bool
  en_enforceRules :: "string list"
  en_running :: bool
  en_stopClosed :: bool
  en_netBan :: bool
  en_hostBanner :: bool
  en_hostAllowIPs :: "string list"
  en_remediator :: bool
  en_quarantine :: "Quarantine option"
  en_panicSwitch :: "PanicSwitch option"
  en_webhook :: bool
  en_snapshotter :: bool
  en_memPatterns :: "string list"
  en_lockUser :: bool
  en_stats :: Stats
  en_trace :: "effect list"

record Config =
  cf_Policy :: "Policy option"
  cf_NetBanner :: bool
  cf_HostBanner :: bool
  cf_HostAllowIPs :: "string list"
  cf_Remediator :: bool
  cf_Snapshotter :: bool
  cf_MemPatterns :: "string list"
  cf_LockUser :: bool
  cf_Quarantine :: "Quarantine option"
  cf_PanicSwitch :: "PanicSwitch option"
  cf_Webhook :: bool
  cf_MonitorMode :: bool
  cf_EnforceRules :: "string list"

definition zero_Stats :: Stats where
  "zero_Stats = \<lparr>st_Alerts = 0, st_Quarantine = 0, st_Kill = 0, st_NetBan = 0, st_Remediate = 0,
     st_Webhook = 0, st_Snapshot = 0, st_MemScan = 0, st_LockUser = 0, st_HostQuarantine = 0,
     st_Dropped = 0\<rparr>"

definition Engine_New :: "Config \<Rightarrow> Engine" where
  "Engine_New cfg =
     \<lparr>en_policy = (case cf_Policy cfg of None \<Rightarrow> Policy_Default | Some p \<Rightarrow> p),
      en_monitorMode = cf_MonitorMode cfg, en_enforceRules = ruleSet (cf_EnforceRules cfg),
      en_running = False, en_stopClosed = False, en_netBan = cf_NetBanner cfg,
      en_hostBanner = cf_HostBanner cfg, en_hostAllowIPs = cf_HostAllowIPs cfg,
      en_remediator = cf_Remediator cfg, en_quarantine = cf_Quarantine cfg,
      en_panicSwitch = cf_PanicSwitch cfg, en_webhook = cf_Webhook cfg,
      en_snapshotter = cf_Snapshotter cfg, en_memPatterns = cf_MemPatterns cfg,
      en_lockUser = cf_LockUser cfg, en_stats = zero_Stats, en_trace = []\<rparr>"

text \<open>Counting, and calling a backend: the answer and the engine with the call on its trace.\<close>

definition bump :: "(Stats \<Rightarrow> Stats) \<Rightarrow> Engine \<Rightarrow> Engine" where
  "bump f e = e\<lparr>en_stats := f (en_stats e)\<rparr>"

definition drop_action :: "Engine \<Rightarrow> Engine" where
  "drop_action e = bump (st_Dropped_update (\<lambda>n. n + 1)) e"

definition backend :: "env \<Rightarrow> effect \<Rightarrow> Engine \<Rightarrow> bool \<times> Engine" where
  "backend env ef e = (\<not> env_fails env (en_trace e) ef, e\<lparr>en_trace := en_trace e @ [ef]\<rparr>)"

text \<open>The handlers.\<close>

definition quar_stop :: "env \<Rightarrow> Alert \<Rightarrow> Quarantine \<Rightarrow> Engine \<Rightarrow> bool \<times> Engine" where
  "quar_stop env a q e =
     (let pid = ev_PID (al_Event a);
          delivered = (\<not> env_fails env (en_trace e) (ESignal pid SIGSTOP));
          (q', res, sig) = Quarantine_Stop (env_now env (en_trace e)) delivered pid
             (ev_Comm (al_Event a)) (ev_Image (al_Event a)) (al_RuleID a) q
      in (case res of Inl _ \<Rightarrow> False | Inr _ \<Rightarrow> True,
          e\<lparr>en_quarantine := Some q', en_trace := en_trace e @ map (\<lambda>(p, s). ESignal p s) sig\<rparr>))"

definition quar_kill :: "env \<Rightarrow> Alert \<Rightarrow> Quarantine \<Rightarrow> Engine \<Rightarrow> bool \<times> Engine" where
  "quar_kill env a q e =
     (let pid = ev_PID (al_Event a);
          delivered = (\<not> env_fails env (en_trace e) (ESignal pid SIGKILL));
          (q', res, sig) = Quarantine_Kill (env_now env (en_trace e)) delivered pid q
      in (res = None,
          e\<lparr>en_quarantine := Some q', en_trace := en_trace e @ map (\<lambda>(p, s). ESignal p s) sig\<rparr>))"

definition doQuarantine :: "env \<Rightarrow> Alert \<Rightarrow> Engine \<Rightarrow> Engine" where
  "doQuarantine env a e =
     (case en_quarantine e of
        None \<Rightarrow> drop_action e
      | Some q \<Rightarrow>
          if ev_PID (al_Event a) = 0 then drop_action e
          else case quar_stop env a q e of (ok, e1) \<Rightarrow>
                 if ok then bump (st_Quarantine_update (\<lambda>n. n + 1)) e1 else drop_action e1)"

text \<open>\<^verbatim>\<open>doKill\<close> tries to kill; where that fails it stops the process, whatever comes of it, and tries again.\<close>

definition kill_attempts :: "env \<Rightarrow> Alert \<Rightarrow> Quarantine \<Rightarrow> Engine \<Rightarrow> bool \<times> Engine" where
  "kill_attempts env a q e =
     (let r1 = quar_kill env a q e; e1 = snd r1 in
      if fst r1 then r1
      else let e2 = snd (quar_stop env a (the (en_quarantine e1)) e1)
           in quar_kill env a (the (en_quarantine e2)) e2)"

definition doKill :: "env \<Rightarrow> Alert \<Rightarrow> Engine \<Rightarrow> Engine" where
  "doKill env a e =
     (case en_quarantine e of
        None \<Rightarrow> drop_action e
      | Some q \<Rightarrow>
          if ev_PID (al_Event a) = 0 then drop_action e
          else case kill_attempts env a q e of (ok, e1) \<Rightarrow>
                 if ok then bump (st_Kill_update (\<lambda>n. n + 1)) e1 else drop_action e1)"

definition ban_source :: "Alert \<Rightarrow> string" where
  "ban_source a =
     (if tag (al_Event a) ''src'' = '''' then tag (al_Event a) ''src_ip'' else tag (al_Event a) ''src'')"

definition ban_target :: "string \<Rightarrow> ip option" where
  "ban_target src = ParseIP (case SplitHostPort src of Some (host, _) \<Rightarrow> host | None \<Rightarrow> src)"

definition doNetBan :: "env \<Rightarrow> Alert \<Rightarrow> Engine \<Rightarrow> Engine" where
  "doNetBan env a e =
     (if \<not> en_netBan e then drop_action e
      else if ban_source a = '''' then drop_action e
      else case ban_target (ban_source a) of
             None \<Rightarrow> drop_action e
           | Some i \<Rightarrow>
               if IsLoopback i \<or> IsUnspecified i then e
               else case backend env (EBan i (al_RuleID a) hour) e of (ok, e1) \<Rightarrow>
                      if ok then bump (st_NetBan_update (\<lambda>n. n + 1)) e1 else drop_action e1)"

definition doRemediate :: "env \<Rightarrow> Alert \<Rightarrow> Engine \<Rightarrow> Engine" where
  "doRemediate env a e =
     (if \<not> en_remediator e then drop_action e
      else let path = tag (al_Event a) ''path'' in
        if path = '''' then drop_action e
        else case backend env (ERestore path (al_RuleID a)) e of (ok, e1) \<Rightarrow>
               if ok then bump (st_Remediate_update (\<lambda>n. n + 1)) e1 else drop_action e1)"

definition doWebhook :: "env \<Rightarrow> Alert \<Rightarrow> Engine \<Rightarrow> Engine" where
  "doWebhook env a e =
     (if \<not> en_webhook e then e
      else case backend env (EWebhook a) e of (ok, e1) \<Rightarrow>
             if ok then bump (st_Webhook_update (\<lambda>n. n + 1)) e1 else e1)"

definition doSnapshot :: "env \<Rightarrow> Alert \<Rightarrow> Engine \<Rightarrow> Engine" where
  "doSnapshot env a e =
     (if \<not> en_snapshotter e \<or> ev_PID (al_Event a) = 0 then drop_action e
      else case backend env (ECapture (ev_PID (al_Event a)) (ev_Comm (al_Event a)) (al_RuleID a)) e of
             (ok, e1) \<Rightarrow>
               if ok then bump (st_Snapshot_update (\<lambda>n. n + 1)) e1 else drop_action e1)"

definition doMemScan :: "env \<Rightarrow> Alert \<Rightarrow> Engine \<Rightarrow> Engine" where
  "doMemScan env a e =
     (if en_memPatterns e = [] \<or> ev_PID (al_Event a) = 0 then drop_action e
      else case backend env (EMemScan (ev_PID (al_Event a))) e of (ok, e1) \<Rightarrow>
             if ok then bump (st_MemScan_update (\<lambda>n. n + 1)) e1 else drop_action e1)"

definition doLockUser :: "env \<Rightarrow> Alert \<Rightarrow> Engine \<Rightarrow> Engine" where
  "doLockUser env a e =
     (if \<not> en_lockUser e then drop_action e
      else let user = (if tag (al_Event a) ''user'' = '''' then tag (al_Event a) ''username''
                       else tag (al_Event a) ''user'') in
        if user = '''' then drop_action e
        else case backend env (ELockUser user) e of (ok, e1) \<Rightarrow>
               if ok then bump (st_LockUser_update (\<lambda>n. n + 1)) e1 else drop_action e1)"

definition doHostQuarantine :: "env \<Rightarrow> Alert \<Rightarrow> Engine \<Rightarrow> Engine" where
  "doHostQuarantine env a e =
     (if \<not> en_hostBanner e \<or> en_hostAllowIPs e = [] then drop_action e
      else if env_quarantined env (en_trace e) then e
      else case backend env (EEngage (en_hostAllowIPs e)) e of (ok, e1) \<Rightarrow>
             if ok then bump (st_HostQuarantine_update (\<lambda>n. n + 1)) e1 else drop_action e1)"

text \<open>The dispatch of an alert: the mask after the gates, the gate's reason, the actions in order.\<close>

definition engine_panicked :: "Engine \<Rightarrow> bool" where
  "engine_panicked e = (case en_panicSwitch e of None \<Rightarrow> False | Some p \<Rightarrow> Armed p)"

definition strip_mask :: "Action \<Rightarrow> Action \<Rightarrow> Action" where
  "strip_mask msk keep = (let m = msk AND keep in if m = 0 then ActionLog else m)"

definition effective_mask :: "Engine \<Rightarrow> Alert \<Rightarrow> Action" where
  "effective_mask e a =
     (let m0 = go_get_or 0 (en_policy e) (al_RuleID a);
          m1 = (if m0 = 0 then ActionLog else m0);
          m2 = (if en_monitorMode e \<and> al_RuleID a \<notin> set (en_enforceRules e)
                then strip_mask m1 (ActionLog OR ActionWebhook) else m1)
      in if tag (al_Event a) ''baseline_observing'' = ''true''
         then strip_mask m2 (ActionLog OR ActionWebhook)
         else if tag (al_Event a) ''baseline_known'' = ''true''
         then strip_mask m2 (ActionLog OR ActionWebhook OR ActionSnapshot OR ActionMemScan)
         else m2)"

definition gate_reason :: "Engine \<Rightarrow> Alert \<Rightarrow> string" where
  "gate_reason e a =
     (if tag (al_Event a) ''baseline_observing'' = ''true''
      then ''autobaseline:observe (day-0 learning; destructive suppressed)''
      else if tag (al_Event a) ''baseline_known'' = ''true''
      then ''autobaseline:known (action inside learned envelope; destructive suppressed)''
      else if en_monitorMode e then ''monitor_mode'' else '''')"

definition stamp_alert :: "Engine \<Rightarrow> Alert \<Rightarrow> Alert" where
  "stamp_alert e a =
     (let a1 = a\<lparr>al_Action := describeMask (effective_mask e a)\<rparr>
      in if gate_reason e a \<noteq> ''''
         then a1\<lparr>al_Event := set_tag ''xhelix_gate_reason'' (gate_reason e a) (al_Event a1)\<rparr>
         else a1)"

definition do_when :: "bool \<Rightarrow> (Engine \<Rightarrow> Engine) \<Rightarrow> Engine \<Rightarrow> Engine" where
  "do_when b f e = (if b then f e else e)"

definition run_mask :: "env \<Rightarrow> Action \<Rightarrow> Alert \<Rightarrow> Engine \<Rightarrow> Engine" where
  "run_mask env msk a e =
     (let e1 = do_when (has_action msk ActionSnapshot) (doSnapshot env a) e;
          e2 = do_when (has_action msk ActionMemScan) (doMemScan env a) e1;
          e3 = do_when (has_action msk ActionNetBan) (doNetBan env a) e2;
          e4 = do_when (has_action msk ActionRemediate) (doRemediate env a) e3;
          e5 = do_when (has_action msk ActionQuarantine) (doQuarantine env a) e4;
          e6 = do_when (has_action msk ActionKill) (doKill env a) e5;
          e7 = do_when (has_action msk ActionLockUser) (doLockUser env a) e6;
          e8 = do_when (has_action msk ActionHostQuarantine) (doHostQuarantine env a) e7
      in do_when (has_action msk ActionWebhook) (doWebhook env a) e8)"

definition Engine_OnAlert :: "env \<Rightarrow> Alert \<Rightarrow> Engine \<Rightarrow> Engine" where
  "Engine_OnAlert env a e0 =
     (let e = bump (st_Alerts_update (\<lambda>n. n + 1)) e0 in
      if engine_panicked e then e
      else run_mask env (effective_mask e a) (stamp_alert e a) e)"

text \<open>The lifecycle. Closing the stop channel a second time panics (\<open>None\<close>).\<close>

definition Engine_Start :: "Engine \<Rightarrow> Engine \<times> bool" where
  "Engine_Start e = (if en_running e then (e, False) else (e\<lparr>en_running := True\<rparr>, True))"

definition Engine_Stop :: "Engine \<Rightarrow> Engine option" where
  "Engine_Stop e =
     (if \<not> en_running e then Some e
      else if en_stopClosed e then None
      else Some (e\<lparr>en_running := False, en_stopClosed := True\<rparr>))"

subsection \<open>The executor\<close>

record ExecResult =
  re_PlanID :: string
  re_LineageID :: u64
  re_Tier :: string
  re_Ran :: "string list"
  re_Deferred :: "string list"
  re_Warnings :: "string list"

text \<open>\<open>ex_results\<close> holds what the result sink received, when there is one.\<close>

record Executor =
  ex_Engine :: "Engine option"
  ex_ResultSink :: bool
  ex_results :: "ExecResult list"
  ex_plansExecuted :: int
  ex_actionsRun :: int
  ex_actionsDeferred :: int

definition NewExecutor :: "Engine \<Rightarrow> Executor" where
  "NewExecutor e = \<lparr>ex_Engine = Some e, ex_ResultSink = False, ex_results = [],
     ex_plansExecuted = 0, ex_actionsRun = 0, ex_actionsDeferred = 0\<rparr>"

text \<open>
  While a plan is executed: the engine, what ran and what was deferred. \<open>x_run\<close> and \<open>x_defer\<close> are
  \<^verbatim>\<open>run\<close> and \<^verbatim>\<open>defer_\<close>; their counters are added up at the end.
\<close>

type_synonym xstate = "Engine \<times> string list \<times> string list"

definition x_run :: "string \<Rightarrow> (Engine \<Rightarrow> Engine) \<Rightarrow> xstate \<Rightarrow> xstate" where
  "x_run name f s = (f (fst s), fst (snd s) @ [name], snd (snd s))"

definition x_defer :: "string \<Rightarrow> xstate \<Rightarrow> xstate" where
  "x_defer name s = (fst s, fst (snd s), snd (snd s) @ [name])"

definition x_when :: "bool \<Rightarrow> (xstate \<Rightarrow> xstate) \<Rightarrow> xstate \<Rightarrow> xstate" where
  "x_when b f s = (if b then f s else s)"

definition run_plan :: "env \<Rightarrow> ActionPlan \<Rightarrow> Alert \<Rightarrow> xstate \<Rightarrow> xstate" where
  "run_plan env p a s0 =
     (let s1 = x_when (ap_Snapshot p) (x_run ''snapshot'' (doSnapshot env a)) s0;
          s2 = x_when (ap_Memscan p) (x_run ''memscan'' (doMemScan env a)) s1;
          s3 = x_when (0 < ap_Delay p) (x_defer ''delay'') s2;
          s4 = x_when (ap_RequireStepUp p) (x_defer ''require_step_up'') s3;
          s5 = x_when (ap_SuspendProcess p) (x_run ''suspend_process'' (doQuarantine env a)) s4;
          s6 = x_when (ap_IsolateCgroup p)
                 (if \<not> ap_SuspendProcess p then x_run ''isolate_cgroup'' (doQuarantine env a)
                  else x_defer ''isolate_cgroup (covered by suspend_process)'') s5;
          s7 = x_when (ap_BanRemoteIP p) (x_run ''ban_remote_ip'' (doNetBan env a)) s6;
          s8 = x_when (ap_Tarpit p) (x_defer ''tarpit (backend pending P-FT.15)'') s7;
          s9 = x_when (ap_IsolateHost p) (x_run ''isolate_host'' (doHostQuarantine env a)) s8;
          s10 = x_when (ap_RemediateFile p) (x_run ''remediate_file'' (doRemediate env a)) s9;
          s11 = x_when (ap_LockLocalUser p) (x_run ''lock_local_user'' (doLockUser env a)) s10
      in x_when (ap_KillProcess p) (x_run ''kill_process'' (doKill env a)) s11)"

definition deliver :: "ExecResult \<Rightarrow> Executor \<Rightarrow> Executor" where
  "deliver res x = (if ex_ResultSink x then x\<lparr>ex_results := ex_results x @ [res]\<rparr> else x)"

definition Execute :: "env \<Rightarrow> ActionPlan option \<Rightarrow> Alert \<Rightarrow> Executor \<Rightarrow> Executor \<times> ExecResult option" where
  "Execute env plan a x =
     (case (plan, ex_Engine x) of
        (Some p, Some e) \<Rightarrow>
          (let x1 = x\<lparr>ex_plansExecuted := wrap64 (ex_plansExecuted x + 1)\<rparr>;
               res = \<lparr>re_PlanID = ap_PlanID p, re_LineageID = ap_LineageID p, re_Tier = ap_Tier p,
                      re_Ran = [], re_Deferred = [], re_Warnings = ap_CapabilityWarnings p\<rparr>
           in if engine_panicked e
              then let res' = res\<lparr>re_Deferred := Actions p\<rparr> in (deliver res' x1, Some res')
              else let (e', ran, deferred) = run_plan env p a (e, [], []);
                       e'' = (if en_webhook e' then doWebhook env a e' else e');
                       res' = res\<lparr>re_Ran := ran, re_Deferred := deferred\<rparr>;
                       x2 = x1\<lparr>ex_Engine := Some e'',
                          ex_actionsRun := wrap64 (ex_actionsRun x + int (length ran)),
                          ex_actionsDeferred := wrap64 (ex_actionsDeferred x + int (length deferred))\<rparr>
                   in (deliver res' x2, Some res'))
      | _ \<Rightarrow> (x, None))"

subsection \<open>The contract of an action handler\<close>

text \<open>
  The phase of a backend call in the documented order of dispatch, and the part of an engine that
  no handler changes: everything but the counters, the quarantine's records and the trace.
\<close>

primrec phase :: "effect \<Rightarrow> nat" where
  "phase (ECapture p c r) = 0"
| "phase (EMemScan p) = 1"
| "phase (EBan i r t) = 2"
| "phase (ERestore p r) = 3"
| "phase (ESignal p s) = 4"
| "phase (ELockUser u) = 5"
| "phase (EEngage ips) = 6"
| "phase (EWebhook a) = 7"

definition engine_setup :: "Engine \<Rightarrow> Engine" where
  "engine_setup e = e\<lparr>en_stats := zero_Stats, en_trace := [], en_quarantine := None\<rparr>"

definition signals_of :: "effect list \<Rightarrow> sent" where
  "signals_of tr = concat (map (\<lambda>ef. case ef of ESignal p s \<Rightarrow> [(p, s)] | _ \<Rightarrow> []) tr)"

text \<open>The signals on the trace and the records of the quarantine belong together.\<close>

definition engine_inv :: "Engine \<Rightarrow> bool" where
  "engine_inv e = (case en_quarantine e of None \<Rightarrow> signals_of (en_trace e) = []
     | Some q \<Rightarrow> qinv (q, signals_of (en_trace e)))"

text \<open>The calls between two states of an engine: ordered, in a range of phases, each satisfying \<open>P\<close>.\<close>

definition extends :: "nat \<Rightarrow> nat \<Rightarrow> (effect \<Rightarrow> bool) \<Rightarrow> Engine \<Rightarrow> Engine \<Rightarrow> bool" where
  "extends lo hi P e e' \<longleftrightarrow> (\<exists>tr. en_trace e' = en_trace e @ tr \<and> sorted (map phase tr) \<and>
     list_all (\<lambda>ef. lo \<le> phase ef \<and> phase ef < hi \<and> P ef) tr)"

lemma extends_trans:
  assumes "extends lo mid P e e1" "extends mid hi P e1 e2" "lo \<le> mid" "mid \<le> hi"
  shows "extends lo hi P e e2"
proof -
  obtain t1 t2 where "en_trace e1 = en_trace e @ t1" "sorted (map phase t1)"
      "list_all (\<lambda>ef. lo \<le> phase ef \<and> phase ef < mid \<and> P ef) t1"
      "en_trace e2 = en_trace e1 @ t2" "sorted (map phase t2)"
      "list_all (\<lambda>ef. mid \<le> phase ef \<and> phase ef < hi \<and> P ef) t2"
    using assms(1,2) unfolding extends_def by blast
  then show ?thesis
    using assms(3,4) unfolding extends_def
    by (intro exI [of _ "t1 @ t2"]) (fastforce simp: list_all_iff sorted_append)
qed

lemma extends_same:
  assumes "extends k (Suc k) P e e1" "extends k (Suc k) P e1 e2"
  shows "extends k (Suc k) P e e2"
proof -
  obtain t1 t2 where "en_trace e1 = en_trace e @ t1" "sorted (map phase t1)"
      "list_all (\<lambda>ef. k \<le> phase ef \<and> phase ef < Suc k \<and> P ef) t1"
      "en_trace e2 = en_trace e1 @ t2" "sorted (map phase t2)"
      "list_all (\<lambda>ef. k \<le> phase ef \<and> phase ef < Suc k \<and> P ef) t2"
    using assms unfolding extends_def by blast
  then show ?thesis
    unfolding extends_def
    by (intro exI [of _ "t1 @ t2"]) (fastforce simp: list_all_iff sorted_append)
qed

locale handler =
  fixes act :: "Engine \<Rightarrow> Engine"
    and allowed :: "effect \<Rightarrow> bool"
  assumes appends: "\<exists>tr. en_trace (act e) = en_trace e @ tr \<and> list_all allowed tr"
    and keeps_setup: "engine_setup (act e) = engine_setup e"
    and inv: "engine_inv e \<Longrightarrow> engine_inv (act e)"
begin

lemma when_appends: "\<exists>tr. en_trace (do_when b act e) = en_trace e @ tr \<and> list_all (\<lambda>ef. b \<and> allowed ef) tr"
  using appends [of e] by (auto simp: do_when_def)

lemma when_setup: "engine_setup (do_when b act e) = engine_setup e"
  by (simp add: do_when_def keeps_setup)

lemma when_inv: "engine_inv e \<Longrightarrow> engine_inv (do_when b act e)"
  by (simp add: do_when_def inv)

text \<open>In its phase of the dispatch: calls of one phase, each satisfying \<open>P\<close>.\<close>

lemma when_extends:
  assumes "\<And>ef. b \<Longrightarrow> allowed ef \<Longrightarrow> phase ef = k \<and> P ef"
  shows "extends k (Suc k) P e (do_when b act e)"
proof -
  obtain tr where "en_trace (do_when b act e) = en_trace e @ tr" "list_all (\<lambda>ef. b \<and> allowed ef) tr"
    using when_appends by blast
  moreover from this(2) have "list_all (\<lambda>ef. phase ef = k \<and> P ef) tr"
    using assms by (auto simp: list_all_iff)
  moreover from this have "map phase tr = replicate (length tr) k"
    by (induction tr) simp_all
  ultimately show ?thesis
    unfolding extends_def by (intro exI [of _ tr]) (auto simp: list_all_iff)
qed

lemma run_appends: "\<exists>tr. en_trace (fst (x_run n act s)) = en_trace (fst s) @ tr \<and> list_all allowed tr"
  using appends by (simp add: x_run_def)

end

text \<open>What the calls of a handler look like, for the alert it handles.\<close>

primrec lawful :: "Alert \<Rightarrow> effect \<Rightarrow> bool" where
  "lawful a (ECapture p c r) \<longleftrightarrow> p = ev_PID (al_Event a) \<and> p \<noteq> 0 \<and> r = al_RuleID a"
| "lawful a (EMemScan p) \<longleftrightarrow> p = ev_PID (al_Event a) \<and> p \<noteq> 0"
| "lawful a (EBan i r t) \<longleftrightarrow> ban_target (ban_source a) = Some i \<and> \<not> IsLoopback i \<and> \<not> IsUnspecified i \<and>
     r = al_RuleID a \<and> t = hour"
| "lawful a (ERestore p r) \<longleftrightarrow> p = tag (al_Event a) ''path'' \<and> p \<noteq> [] \<and> r = al_RuleID a"
| "lawful a (ESignal p s) \<longleftrightarrow> p = ev_PID (al_Event a) \<and> p \<noteq> 0"
| "lawful a (ELockUser u) \<longleftrightarrow> (u = tag (al_Event a) ''user'' \<or> u = tag (al_Event a) ''username'') \<and> u \<noteq> []"
| "lawful a (EEngage ips) \<longleftrightarrow> ips \<noteq> []"
| "lawful a (EWebhook b) \<longleftrightarrow> b = a"

lemma signals_of_simps [simp]:
  "signals_of [] = []" "signals_of (tr @ tr') = signals_of tr @ signals_of tr'"
  "signals_of (ESignal p s # tr) = (p, s) # signals_of tr"
  "phase ef \<noteq> 4 \<Longrightarrow> signals_of (ef # tr) = signals_of tr"
  "signals_of (map (\<lambda>(p, s). ESignal p s) sig) = sig"
proof -
  show "signals_of (map (\<lambda>(p, s). ESignal p s) sig) = sig"
    by (induction sig) (auto simp: signals_of_def)
  show "phase ef \<noteq> 4 \<Longrightarrow> signals_of (ef # tr) = signals_of tr"
    by (cases ef) (simp_all add: signals_of_def)
qed (simp_all add: signals_of_def)

lemma bump_sel [simp]:
  "en_trace (bump f e) = en_trace e" "en_quarantine (bump f e) = en_quarantine e"
  "engine_setup (bump f e) = engine_setup e" "engine_inv (bump f e) = engine_inv e"
  by (simp_all add: bump_def engine_setup_def engine_inv_def split: option.split)

lemma drop_sel [simp]:
  "en_trace (drop_action e) = en_trace e" "en_quarantine (drop_action e) = en_quarantine e"
  "engine_setup (drop_action e) = engine_setup e" "engine_inv (drop_action e) = engine_inv e"
  by (simp_all add: drop_action_def)

lemma backend_sel [simp]:
  "en_trace (snd (backend env ef e)) = en_trace e @ [ef]"
  "en_quarantine (snd (backend env ef e)) = en_quarantine e"
  "engine_setup (snd (backend env ef e)) = engine_setup e"
  by (simp_all add: backend_def engine_setup_def)

lemma backend_inv [simp]: "phase ef \<noteq> 4 \<Longrightarrow> engine_inv (snd (backend env ef e)) = engine_inv e"
  by (simp add: engine_inv_def split: option.split)

lemmas handler_simps = case_prod_beta Let_def

interpretation snap: handler "doSnapshot env a" "\<lambda>ef. phase ef = 0 \<and> lawful a ef" for env a
  by unfold_locales (auto simp: doSnapshot_def handler_simps)

interpretation scan: handler "doMemScan env a" "\<lambda>ef. phase ef = 1 \<and> lawful a ef" for env a
  by unfold_locales (auto simp: doMemScan_def handler_simps)

interpretation ban: handler "doNetBan env a" "\<lambda>ef. phase ef = 2 \<and> lawful a ef" for env a
  by unfold_locales (auto simp: doNetBan_def handler_simps split: option.split)

interpretation restore: handler "doRemediate env a" "\<lambda>ef. phase ef = 3 \<and> lawful a ef" for env a
  by unfold_locales (auto simp: doRemediate_def handler_simps)

interpretation lock: handler "doLockUser env a" "\<lambda>ef. phase ef = 5 \<and> lawful a ef" for env a
  by unfold_locales (auto simp: doLockUser_def handler_simps)

interpretation engage: handler "doHostQuarantine env a" "\<lambda>ef. phase ef = 6 \<and> lawful a ef" for env a
  by unfold_locales (auto simp: doHostQuarantine_def handler_simps)

interpretation hook: handler "doWebhook env a" "\<lambda>ef. phase ef = 7 \<and> lawful a ef" for env a
  by unfold_locales (auto simp: doWebhook_def handler_simps)

text \<open>The two handlers that signal: their calls are steps of the quarantine.\<close>

lemma quar_stop_step:
  assumes "engine_inv e" "en_quarantine e = Some q"
  shows "engine_inv (snd (quar_stop env a q e))" "\<exists>q'. en_quarantine (snd (quar_stop env a q e)) = Some q'"
proof -
  let ?c = "QStop (env_now env (en_trace e)) (\<not> env_fails env (en_trace e) (ESignal (ev_PID (al_Event a)) SIGSTOP))
      (ev_PID (al_Event a)) (ev_Comm (al_Event a)) (ev_Image (al_Event a)) (al_RuleID a)"
  have "qinv (qstep (q, signals_of (en_trace e)) ?c)"
    using assms by (intro qinv_step) (simp add: engine_inv_def)
  then show "engine_inv (snd (quar_stop env a q e))"
    by (simp add: engine_inv_def quar_stop_def handler_simps)
  show "\<exists>q'. en_quarantine (snd (quar_stop env a q e)) = Some q'"
    by (simp add: quar_stop_def handler_simps)
qed

lemma quar_kill_step:
  assumes "engine_inv e" "en_quarantine e = Some q"
  shows "engine_inv (snd (quar_kill env a q e))" "\<exists>q'. en_quarantine (snd (quar_kill env a q e)) = Some q'"
proof -
  let ?c = "QKill (env_now env (en_trace e)) (\<not> env_fails env (en_trace e) (ESignal (ev_PID (al_Event a)) SIGKILL))
      (ev_PID (al_Event a))"
  have "qinv (qstep (q, signals_of (en_trace e)) ?c)"
    using assms by (intro qinv_step) (simp add: engine_inv_def)
  then show "engine_inv (snd (quar_kill env a q e))"
    by (simp add: engine_inv_def quar_kill_def handler_simps)
  show "\<exists>q'. en_quarantine (snd (quar_kill env a q e)) = Some q'"
    by (simp add: quar_kill_def handler_simps)
qed

lemma quar_setup [simp]:
  "engine_setup (snd (quar_stop env a q e)) = engine_setup e"
  "engine_setup (snd (quar_kill env a q e)) = engine_setup e"
  by (simp_all add: quar_stop_def quar_kill_def handler_simps engine_setup_def)

text \<open>One signal at most, to the process of the alert.\<close>

lemma quar_stop_trace:
  "\<exists>tr. en_trace (snd (quar_stop env a q e)) = en_trace e @ tr \<and>
     list_all (\<lambda>ef. ef = ESignal (ev_PID (al_Event a)) SIGSTOP) tr"
  by (auto simp: quar_stop_def handler_simps Quarantine_Stop_def Stop_fresh_def split: option.split)

lemma quar_kill_trace:
  "\<exists>tr. en_trace (snd (quar_kill env a q e)) = en_trace e @ tr \<and>
     list_all (\<lambda>ef. ef = ESignal (ev_PID (al_Event a)) SIGKILL) tr"
  by (auto simp: quar_kill_def handler_simps Quarantine_Kill_def split: option.split)

interpretation stop: handler "doQuarantine env a" "\<lambda>ef. ef = ESignal (ev_PID (al_Event a)) SIGSTOP \<and> ev_PID (al_Event a) \<noteq> 0" for env a
proof
  fix e
  show "\<exists>tr. en_trace (doQuarantine env a e) = en_trace e @ tr \<and>
      list_all (\<lambda>ef. ef = ESignal (ev_PID (al_Event a)) SIGSTOP \<and> ev_PID (al_Event a) \<noteq> 0) tr"
    using quar_stop_trace [of env a _ e]
    by (auto simp: doQuarantine_def handler_simps list_all_iff split: option.split)
  show "engine_setup (doQuarantine env a e) = engine_setup e"
    by (simp add: doQuarantine_def handler_simps split: option.split)
  show "engine_inv e \<Longrightarrow> engine_inv (doQuarantine env a e)"
    using quar_stop_step by (auto simp: doQuarantine_def handler_simps split: option.split)
qed

lemma kill_attempts_inv:
  assumes "engine_inv e" "en_quarantine e = Some q"
  shows "engine_inv (snd (kill_attempts env a q e))"
proof -
  let ?e1 = "snd (quar_kill env a q e)"
  obtain q1 where q1: "en_quarantine ?e1 = Some q1" "engine_inv ?e1"
    using quar_kill_step [OF assms] by blast
  obtain q2 where "en_quarantine (snd (quar_stop env a q1 ?e1)) = Some q2" "engine_inv (snd (quar_stop env a q1 ?e1))"
    using quar_stop_step [OF q1(2,1)] by blast
  then show ?thesis
    using quar_kill_step(1) q1 by (auto simp: kill_attempts_def Let_def)
qed

definition signals_only :: "Alert \<Rightarrow> Engine \<Rightarrow> Engine \<Rightarrow> bool" where
  "signals_only a e e' \<longleftrightarrow> (\<exists>tr. en_trace e' = en_trace e @ tr \<and>
     list_all (\<lambda>ef. \<exists>s. ef = ESignal (ev_PID (al_Event a)) s) tr)"

lemma signals_only_trans: "signals_only a x y \<Longrightarrow> signals_only a y z \<Longrightarrow> signals_only a x z"
  unfolding signals_only_def by auto

lemma quar_signals_only:
  "signals_only a e (snd (quar_kill env a q e))" "signals_only a e (snd (quar_stop env a q e))"
  using quar_kill_trace [of env a q e] quar_stop_trace [of env a q e]
  by (auto simp: signals_only_def list_all_iff)

lemma kill_attempts_trace: "signals_only a e (snd (kill_attempts env a q e))"
proof (cases "fst (quar_kill env a q e)")
  case True
  then show ?thesis by (simp add: kill_attempts_def quar_signals_only)
next
  case False
  then show ?thesis
    using signals_only_trans [OF signals_only_trans [OF quar_signals_only(1) quar_signals_only(2)] quar_signals_only(1)]
    by (simp add: kill_attempts_def Let_def)
qed

lemma kill_attempts_setup: "engine_setup (snd (kill_attempts env a q e)) = engine_setup e"
  by (simp add: kill_attempts_def Let_def)

interpretation kill: handler "doKill env a" "\<lambda>ef. phase ef = 4 \<and> lawful a ef" for env a
proof
  fix e
  show "\<exists>tr. en_trace (doKill env a e) = en_trace e @ tr \<and> list_all (\<lambda>ef. phase ef = 4 \<and> lawful a ef) tr"
  proof (cases "en_quarantine e = None \<or> ev_PID (al_Event a) = 0")
    case False
    then obtain q where q: "en_quarantine e = Some q" by auto
    obtain tr where tr: "en_trace (snd (kill_attempts env a q e)) = en_trace e @ tr"
        "list_all (\<lambda>ef. \<exists>s. ef = ESignal (ev_PID (al_Event a)) s) tr"
      using kill_attempts_trace unfolding signals_only_def by blast
    then have "list_all (\<lambda>ef. phase ef = 4 \<and> lawful a ef) tr"
      using False by (auto simp: list_all_iff)
    with tr(1) False show ?thesis by (simp add: doKill_def handler_simps q)
  qed (auto simp: doKill_def split: option.split)
  show "engine_setup (doKill env a e) = engine_setup e"
    by (simp add: doKill_def handler_simps kill_attempts_setup split: option.split)
  show "engine_inv e \<Longrightarrow> engine_inv (doKill env a e)"
    using kill_attempts_inv by (auto simp: doKill_def handler_simps split: option.split)
qed

subsection \<open>The dispatch\<close>

primrec permits :: "Action \<Rightarrow> effect \<Rightarrow> bool" where
  "permits m (ECapture p c r) = has_action m ActionSnapshot"
| "permits m (EMemScan p) = has_action m ActionMemScan"
| "permits m (EBan i r t) = has_action m ActionNetBan"
| "permits m (ERestore p r) = has_action m ActionRemediate"
| "permits m (ESignal p s) = (has_action m ActionKill \<or> (s = SIGSTOP \<and> has_action m ActionQuarantine))"
| "permits m (ELockUser u) = has_action m ActionLockUser"
| "permits m (EEngage ips) = has_action m ActionHostQuarantine"
| "permits m (EWebhook a) = has_action m ActionWebhook"

lemma phase_cases:
  "phase ef = 0 \<Longrightarrow> \<exists>p c r. ef = ECapture p c r" "phase ef = Suc 0 \<Longrightarrow> \<exists>p. ef = EMemScan p"
  "phase ef = 2 \<Longrightarrow> \<exists>i r t. ef = EBan i r t" "phase ef = 3 \<Longrightarrow> \<exists>p r. ef = ERestore p r"
  "phase ef = 4 \<Longrightarrow> \<exists>p s. ef = ESignal p s" "phase ef = 5 \<Longrightarrow> \<exists>u. ef = ELockUser u"
  "phase ef = 6 \<Longrightarrow> \<exists>ips. ef = EEngage ips" "phase ef = 7 \<Longrightarrow> \<exists>a. ef = EWebhook a"
  by (cases ef; simp)+

lemma run_mask_extends:
  "extends 0 8 (\<lambda>ef. lawful a ef \<and> permits m ef) e (run_mask env m a e)"
proof -
  let ?P = "\<lambda>ef. lawful a ef \<and> permits m ef"
  have s: "extends 0 (Suc 0) ?P e (do_when (has_action m ActionSnapshot) (doSnapshot env a) e)" for e
    by (rule snap.when_extends) (auto dest: phase_cases(1))
  have c: "extends 1 (Suc 1) ?P e (do_when (has_action m ActionMemScan) (doMemScan env a) e)" for e
    by (rule scan.when_extends) (auto dest: phase_cases(2))
  have b: "extends 2 (Suc 2) ?P e (do_when (has_action m ActionNetBan) (doNetBan env a) e)" for e
    by (rule ban.when_extends) (auto dest: phase_cases(3))
  have r: "extends 3 (Suc 3) ?P e (do_when (has_action m ActionRemediate) (doRemediate env a) e)" for e
    by (rule restore.when_extends) (auto dest: phase_cases(4))
  have q: "extends 4 (Suc 4) ?P e (do_when (has_action m ActionQuarantine) (doQuarantine env a) e)" for e
    by (rule stop.when_extends) auto
  have k: "extends 4 (Suc 4) ?P e (do_when (has_action m ActionKill) (doKill env a) e)" for e
    by (rule kill.when_extends) (auto dest: phase_cases(5))
  have l: "extends 5 (Suc 5) ?P e (do_when (has_action m ActionLockUser) (doLockUser env a) e)" for e
    by (rule lock.when_extends) (auto dest: phase_cases(6))
  have h: "extends 6 (Suc 6) ?P e (do_when (has_action m ActionHostQuarantine) (doHostQuarantine env a) e)" for e
    by (rule engage.when_extends) (auto dest: phase_cases(7))
  have w: "extends 7 (Suc 7) ?P e (do_when (has_action m ActionWebhook) (doWebhook env a) e)" for e
    by (rule hook.when_extends) (auto dest: phase_cases(8))
  have n: "Suc 0 = 1" "Suc 1 = 2" "Suc 2 = 3" "Suc 3 = 4" "Suc 4 = 5" "Suc 5 = 6" "Suc 6 = 7" "Suc 7 = 8"
    by simp_all
  note chain = extends_trans [where P = ?P and lo = 0, OF _ _ le0]
  note qk = extends_same [OF q k, unfolded n]
  show ?thesis
    unfolding run_mask_def Let_def
    using chain [OF chain [OF chain [OF chain [OF chain [OF chain [OF chain [OF s [unfolded n] c [unfolded n]]
        b [unfolded n]] r [unfolded n]] qk] l [unfolded n]] h [unfolded n]] w [unfolded n]]
    by simp
qed

text \<open>What any call of a handler keeps, and how calls compose.\<close>

definition step_ok :: "Alert \<Rightarrow> Engine \<Rightarrow> Engine \<Rightarrow> bool" where
  "step_ok a e e' \<longleftrightarrow> (\<exists>tr. en_trace e' = en_trace e @ tr \<and> list_all (lawful a) tr) \<and>
     engine_setup e' = engine_setup e \<and> (engine_inv e \<longrightarrow> engine_inv e')"

lemma step_ok_refl [simp]: "step_ok a e e"
  by (simp add: step_ok_def)

lemma step_ok_trans: "step_ok a x y \<Longrightarrow> step_ok a y z \<Longrightarrow> step_ok a x z"
  unfolding step_ok_def by fastforce

context handler
begin

lemma handler_step_ok:
  assumes "\<And>ef. allowed ef \<Longrightarrow> lawful a ef"
  shows "step_ok a e (act e)"
  using appends [of e] assms keeps_setup inv by (auto simp: step_ok_def list_all_iff)

end

lemma handlers_step_ok:
  "step_ok a e (doSnapshot env a e)" "step_ok a e (doMemScan env a e)" "step_ok a e (doNetBan env a e)"
  "step_ok a e (doRemediate env a e)" "step_ok a e (doQuarantine env a e)" "step_ok a e (doKill env a e)"
  "step_ok a e (doLockUser env a e)" "step_ok a e (doHostQuarantine env a e)" "step_ok a e (doWebhook env a e)"
  by (auto intro: snap.handler_step_ok scan.handler_step_ok ban.handler_step_ok restore.handler_step_ok
      stop.handler_step_ok kill.handler_step_ok lock.handler_step_ok engage.handler_step_ok hook.handler_step_ok)

lemma run_mask_step_ok: "step_ok a e (run_mask env m a e)"
proof -
  have w: "step_ok a e0 e \<Longrightarrow> (\<And>e. step_ok a e (f e)) \<Longrightarrow> step_ok a e0 (do_when b f e)" for e0 e b f
    by (auto simp: do_when_def intro: step_ok_trans)
  show ?thesis
    unfolding run_mask_def Let_def by (intro w step_ok_refl handlers_step_ok)
qed

lemma x_step_ok:
  "step_ok a e0 (fst s) \<Longrightarrow> (\<And>s. step_ok a (fst s) (fst (f s))) \<Longrightarrow> step_ok a e0 (fst (x_when b f s))"
  "(\<And>e. step_ok a e (g e)) \<Longrightarrow> step_ok a (fst s) (fst (x_run n g s))"
  "step_ok a (fst s) (fst (x_defer n s))"
  by (simp_all add: x_when_def x_run_def x_defer_def step_ok_trans [of a e0 "fst s"])

lemma run_plan_step_ok: "step_ok a (fst s) (fst (run_plan env p a s))"
proof -
  have c: "step_ok a (fst s) (fst ((if b then x_run n (doQuarantine env a) else x_defer n') s))" for s b n n'
    by (cases b) (simp_all add: x_step_ok handlers_step_ok)
  show ?thesis
    unfolding run_plan_def Let_def
    by (rule x_step_ok(1) | rule c | rule x_step_ok(2) | rule x_step_ok(3) | rule handlers_step_ok | rule step_ok_refl)+
qed

lemma stamp_alert_PID [simp]: "ev_PID (al_Event (stamp_alert e a)) = ev_PID (al_Event a)"
  by (simp add: stamp_alert_def Let_def)

lemma bump_gates [simp]:
  "engine_panicked (bump f e) = engine_panicked e" "effective_mask (bump f e) a = effective_mask e a"
  "gate_reason (bump f e) a = gate_reason e a" "stamp_alert (bump f e) a = stamp_alert e a"
proof -
  show m: "effective_mask (bump f e) a = effective_mask e a" by (simp add: effective_mask_def bump_def)
  show g: "gate_reason (bump f e) a = gate_reason e a" by (simp add: gate_reason_def bump_def)
  show "stamp_alert (bump f e) a = stamp_alert e a" by (simp add: stamp_alert_def Let_def m g)
qed (simp add: engine_panicked_def bump_def)

lemma OnAlert_step_ok: "step_ok (stamp_alert e a) e (Engine_OnAlert env a e)"
proof -
  let ?e = "bump (st_Alerts_update (\<lambda>n. n + 1)) e"
  have "step_ok b e ?e" for b by (simp add: step_ok_def)
  from step_ok_trans [OF this run_mask_step_ok] this show ?thesis
    by (simp only: Engine_OnAlert_def Let_def bump_gates split: if_split) simp
qed

text \<open>An executor and what happens to it: alerts on the shared engine, plans, the panic switch.\<close>

datatype xcall = XAlert Alert | XPlan ActionPlan Alert | XPanic bool

primrec xstep :: "env \<Rightarrow> Executor \<Rightarrow> xcall \<Rightarrow> Executor" where
  "xstep env x (XAlert a) = x\<lparr>ex_Engine := map_option (Engine_OnAlert env a) (ex_Engine x)\<rparr>"
| "xstep env x (XPlan p a) = fst (Execute env (Some p) a x)"
| "xstep env x (XPanic b) = x\<lparr>ex_Engine := map_option
     (\<lambda>e. e\<lparr>en_panicSwitch := map_option (ps_armed_update (\<lambda>_. b)) (en_panicSwitch e)\<rparr>) (ex_Engine x)\<rparr>"

definition trace_safe :: "effect list \<Rightarrow> bool" where
  "trace_safe tr \<longleftrightarrow> signals_safe {} (signals_of tr) \<and>
     (\<forall>i r t. EBan i r t \<in> set tr \<longrightarrow> \<not> IsLoopback i \<and> \<not> IsUnspecified i)"

definition xinv :: "Executor \<Rightarrow> bool" where
  "xinv x = (case ex_Engine x of None \<Rightarrow> True | Some e \<Rightarrow> engine_inv e \<and> trace_safe (en_trace e))"

lemma step_ok_safe:
  assumes "step_ok a e e'" "engine_inv e \<and> trace_safe (en_trace e)"
  shows "engine_inv e' \<and> trace_safe (en_trace e')"
proof -
  obtain tr where tr: "en_trace e' = en_trace e @ tr" "list_all (lawful a) tr" "engine_inv e'"
    using assms unfolding step_ok_def by blast
  then have "signals_safe {} (signals_of (en_trace e'))"
    by (auto simp: engine_inv_def qinv_def split: option.splits)
  moreover have "EBan i r t \<in> set tr \<Longrightarrow> \<not> IsLoopback i \<and> \<not> IsUnspecified i" for i r t
    using tr(2) by (auto simp: list_all_iff)
  ultimately show ?thesis using tr assms(2) by (auto simp: trace_safe_def)
qed

lemma Execute_engine:
  assumes "ex_Engine x = Some e"
  shows "\<exists>e'. ex_Engine (fst (Execute env po a x)) = Some e' \<and> step_ok a e e'"
proof (cases "po = None \<or> engine_panicked e")
  case True
  then show ?thesis
    using assms by (auto simp: Execute_def deliver_def Let_def split: option.split)
next
  case False
  then obtain p where p: "po = Some p" "\<not> engine_panicked e" by auto
  have "step_ok a e (fst (run_plan env p a (e, [], [])))"
    using run_plan_step_ok [of a "(e, [], [])" env p] by simp
  then show ?thesis
    using p assms step_ok_trans [OF _ handlers_step_ok(9)]
    by (auto simp: Execute_def deliver_def Let_def case_prod_beta)
qed

lemma xstep_inv: "xinv x \<Longrightarrow> xinv (xstep env x c)"
proof (cases "ex_Engine x")
  case None
  then show ?thesis
    by (cases c) (simp_all add: xinv_def Execute_def split: option.split)
next
  case (Some e)
  assume inv: "xinv x"
  show ?thesis
  proof (cases c)
    case (XAlert a)
    then show ?thesis using inv Some step_ok_safe [OF OnAlert_step_ok] by (simp add: xinv_def)
  next
    case (XPlan p a)
    then show ?thesis
      using inv Some step_ok_safe Execute_engine [OF Some, of env "Some p" a] by (auto simp: xinv_def)
  next
    case (XPanic b)
    then show ?thesis using inv Some by (auto simp: xinv_def engine_inv_def split: option.splits)
  qed
qed

text \<open>The daemon's executor: an engine over a fresh quarantine.\<close>

definition fresh_executor :: "Config \<Rightarrow> bool \<Rightarrow> Executor" where
  "fresh_executor cfg b = NewExecutor (Engine_New (cfg\<lparr>cf_Quarantine := Some (NewQuarantine b)\<rparr>))"

lemma fresh_executor_inv: "xinv (fresh_executor cfg b)"
  by (simp add: xinv_def fresh_executor_def NewExecutor_def Engine_New_def engine_inv_def trace_safe_def qinv_init)

interpretation resp: machine "fresh_executor cfg b" "xstep env" xinv for cfg b env
  by unfold_locales (auto intro: fresh_executor_inv xstep_inv)

subsection \<open>Gates\<close>

lemma strip_mask_lacks: "keep AND x = 0 \<Longrightarrow> ActionLog AND x = 0 \<Longrightarrow> \<not> has_action (strip_mask m keep) x"
  by (simp add: strip_mask_def has_action_def Let_def and.assoc)

lemma strip_strip_lacks:
  "\<not> has_action m x \<Longrightarrow> ActionLog AND x = 0 \<Longrightarrow> \<not> has_action (strip_mask m keep) x"
  by (simp add: strip_mask_def has_action_def Let_def and.assoc and.left_commute [of m keep])

lemma OnAlert_extends:
  "extends 0 8 (\<lambda>ef. lawful (stamp_alert e a) ef \<and> permits (effective_mask e a) ef) e (Engine_OnAlert env a e)"
proof -
  let ?e = "bump (st_Alerts_update (\<lambda>n. n + 1)) e"
  have b: "extends 0 8 P e e' = extends 0 8 P ?e e'" for P e' by (simp add: extends_def)
  show ?thesis
    unfolding b Engine_OnAlert_def Let_def bump_gates using run_mask_extends [where e = ?e]
    by (auto simp: extends_def)
qed

lemma observing_permits:
  assumes "(en_monitorMode e \<and> al_RuleID a \<notin> set (en_enforceRules e)) \<or> tag (al_Event a) ''baseline_observing'' = ''true''"
    and "permits (effective_mask e a) ef"
  shows "\<exists>b. ef = EWebhook b"
proof -
  have "x \<in> {2, 4, 8, 16, 64, 128, 256, 512} \<Longrightarrow> \<not> has_action (effective_mask e a) x" for x
    using assms(1) by (auto simp: effective_mask_def Let_def strip_mask_lacks strip_strip_lacks)
  with assms(2) show ?thesis by (cases ef) auto
qed

lemma known_permits:
  assumes "tag (al_Event a) ''baseline_known'' = ''true''" and "permits (effective_mask e a) ef"
  shows "phase ef \<in> {0, 1, 7}"
proof -
  have "x \<in> {2, 4, 8, 16, 256, 512} \<Longrightarrow> \<not> has_action (effective_mask e a) x" for x
    using assms(1) by (auto simp: effective_mask_def Let_def strip_mask_lacks strip_strip_lacks)
  with assms(2) show ?thesis by (cases ef) auto
qed

definition default_ok :: "Action \<Rightarrow> bool" where
  "default_ok m \<longleftrightarrow> m AND (ActionKill OR ActionRemediate OR ActionHostQuarantine) = 0 \<and> m AND ActionLog \<noteq> 0"

lemma Policy_Default_ok: "list_all (\<lambda>(r, m). default_ok m) Policy_Default"
  by code_simp

lemma default_mask_lacks:
  assumes "en_policy e = Policy_Default" "x \<in> {ActionKill, ActionRemediate, ActionHostQuarantine}"
  shows "\<not> has_action (effective_mask e a) x"
proof -
  let ?m = "go_get_or 0 Policy_Default (al_RuleID a)"
  have "?m = 0 \<or> default_ok ?m"
    using Policy_Default_ok map_of_SomeD [of Policy_Default]
    by (auto simp: go_get_or_def list_all_iff split: option.split)
  then have "?m AND (ActionKill OR ActionRemediate OR ActionHostQuarantine) = 0"
    by (auto simp: default_ok_def)
  then have "?m AND ((ActionKill OR ActionRemediate OR ActionHostQuarantine) AND x) = 0"
    by (simp flip: and.assoc)
  then have "\<not> has_action ?m x" using assms(2) by (auto simp: has_action_def)
  moreover have "ActionLog AND x = 0" using assms(2) by auto
  ultimately show ?thesis
    using assms(1) by (auto simp: effective_mask_def Let_def strip_strip_lacks has_action_def [of ActionLog])
qed

text \<open>What the default policy can make an engine do.\<close>

primrec reversible_effect :: "effect \<Rightarrow> bool" where
  "reversible_effect (ECapture p c r) = True"
| "reversible_effect (EMemScan p) = True"
| "reversible_effect (EBan i r t) = (t = hour)"
| "reversible_effect (ERestore p r) = False"
| "reversible_effect (ESignal p s) = (s = SIGSTOP)"
| "reversible_effect (ELockUser u) = True"
| "reversible_effect (EEngage ips) = False"
| "reversible_effect (EWebhook a) = True"

lemma default_step:
  assumes "en_policy e = Policy_Default" "list_all reversible_effect (en_trace e)"
  shows "en_policy (Engine_OnAlert env a e) = Policy_Default \<and> list_all reversible_effect (en_trace (Engine_OnAlert env a e))"
proof
  have "engine_setup (Engine_OnAlert env a e) = engine_setup e"
    using OnAlert_step_ok by (auto simp: step_ok_def)
  then have "en_policy (engine_setup (Engine_OnAlert env a e)) = en_policy (engine_setup e)" by simp
  then show "en_policy (Engine_OnAlert env a e) = Policy_Default"
    using assms(1) by (simp add: engine_setup_def)
  have "lawful b ef \<and> permits (effective_mask e a) ef \<Longrightarrow> reversible_effect ef" for b ef
    using default_mask_lacks [OF assms(1)] by (cases ef) auto
  then show "list_all reversible_effect (en_trace (Engine_OnAlert env a e))"
    using OnAlert_extends [of e a env] assms(2) by (fastforce simp: extends_def list_all_iff)
qed

definition default_engine :: "Config \<Rightarrow> Engine" where
  "default_engine cfg = Engine_New (cfg\<lparr>cf_Policy := None\<rparr>)"

interpretation dflt: machine "default_engine cfg" "\<lambda>e a. Engine_OnAlert env a e"
  "\<lambda>e. en_policy e = Policy_Default \<and> list_all reversible_effect (en_trace e)" for cfg env
  by unfold_locales (use default_step in \<open>auto simp: default_engine_def Engine_New_def\<close>)

subsection \<open>Bookkeeping of the executor\<close>

text \<open>Which actions of a plan are deferred, and under which name.\<close>

definition deferred_actions :: "ActionPlan \<Rightarrow> (string \<times> string) list" where
  "deferred_actions p =
     [(''delay'', ''delay''), (''require_step_up'', ''require_step_up'')] @
     (if ap_SuspendProcess p then [(''isolate_cgroup'', ''isolate_cgroup (covered by suspend_process)'')] else []) @
     [(''tarpit'', ''tarpit (backend pending P-FT.15)'')]"

lemma x_lists:
  "snd (x_when b (x_run n g) s) = (fst (snd s) @ (if b then [n] else []), snd (snd s))"
  "snd (x_when b (x_defer n) s) = (fst (snd s), snd (snd s) @ (if b then [n] else []))"
  by (simp_all add: x_when_def x_run_def x_defer_def)

lemma singleton_if:
  "filter P (if b then [x] else []) = (if b \<and> P x then [x] else [])"
  "map f (if b then [x] else []) = (if b then [f x] else [])"
  by (cases b; simp)+

lemma run_plan_lists:
  "snd (run_plan env p a (e, [], [])) =
     (filter (\<lambda>n. map_of (deferred_actions p) n = None) (Actions p),
      map (\<lambda>n. the (map_of (deferred_actions p) n)) (filter (\<lambda>n. map_of (deferred_actions p) n \<noteq> None) (Actions p)))"
proof -
  note pieces = Actions_concat actionOrder_def filter_concat map_concat list.map comp_def concat.simps
    fst_conv snd_conv filter_append map_append append_Nil2 append_Nil append_assoc singleton_if
  show ?thesis
    by (cases "ap_SuspendProcess p")
       (simp_all only: run_plan_def Let_def x_lists if_True if_False not_True_eq_False not_False_eq_True pieces
          deferred_actions_def map_of.simps,
        simp_all split del: if_split cong: if_cong)
qed

subsection \<open>Properties\<close>

text \<open>C30: for every alert, the calls \<^verbatim>\<open>OnAlert\<close> makes come in the documented order (snapshot, memory
  scan, ban, remediation, signals, lock, host quarantine, webhook), each is of an action in the mask the
  gates left, and each targets what the alert names: its process (never PID 0), its file, its user, or
  the address parsed from its source tag, never a loopback or unspecified one.\<close>

theorem onAlert_ordered_and_lawful:
  "\<exists>tr. en_trace (Engine_OnAlert env a e) = en_trace e @ tr \<and> sorted (map phase tr) \<and>
     list_all (\<lambda>ef. permits (effective_mask e a) ef \<and> lawful (stamp_alert e a) ef) tr"
  using OnAlert_extends [of e a env] by (auto simp: extends_def list_all_iff)

text \<open>C29: whatever alerts, plans and panic toggles an executor and its engine meet, in any order and
  with any backend failures: no signal goes to PID 0 or 1, no signal but SIGSTOP goes to a process that
  was not stopped before, and no loopback or unspecified address is banned.\<close>

theorem response_is_safe:
  "case ex_Engine (foldl (xstep env) (fresh_executor cfg b) cs) of
     None \<Rightarrow> False
   | Some e \<Rightarrow> trace_safe (en_trace e)"
proof -
  have "ex_Engine x \<noteq> None \<Longrightarrow> ex_Engine (xstep env x c) \<noteq> None" for x c
    using Execute_engine by (cases c) fastforce+
  then have "ex_Engine x \<noteq> None \<Longrightarrow> ex_Engine (foldl (xstep env) x cs) \<noteq> None" for x
    by (induction cs arbitrary: x) simp_all
  moreover have "ex_Engine (fresh_executor cfg b) \<noteq> None"
    by (simp add: fresh_executor_def NewExecutor_def)
  ultimately show ?thesis
    using resp.run_inv [of env cfg b cs] by (auto simp: xinv_def split: option.splits)
qed

text \<open>C36: while the panic switch is armed nothing acts: an alert leaves every backend and the
  quarantine alone, and a plan runs none of its actions, reporting all of them as deferred.\<close>

theorem panic_stops_response:
  assumes "engine_panicked e"
  shows "en_trace (Engine_OnAlert env a e) = en_trace e \<and> en_quarantine (Engine_OnAlert env a e) = en_quarantine e \<and>
    (case Execute env (Some p) a (NewExecutor e) of
       (x, Some r) \<Rightarrow> ex_Engine x = Some e \<and> re_Ran r = [] \<and> re_Deferred r = Actions p
     | (_, None) \<Rightarrow> False)"
  using assms by (simp add: Engine_OnAlert_def Execute_def NewExecutor_def deliver_def Let_def)


text \<open>Under the built-in policy no sequence of alerts kills a process, restores a file or
  quarantines the host, and every ban it makes expires after an hour.\<close>

theorem default_policy_reversible:
  "list_all reversible_effect (en_trace (foldl (\<lambda>e a. Engine_OnAlert env a e) (default_engine cfg) as))"
  using dflt.run_inv by blast

text \<open>Executing a plan on an engine that is not panicked accounts for every action of the plan
  exactly once: those without a backend, and the cgroup isolation a suspension already covers, are
  deferred, all others are run, both in the plan's order.\<close>

theorem execute_accounts_for_plan:
  assumes "ex_Engine x = Some e" "\<not> engine_panicked e"
  shows "case snd (Execute env (Some p) a x) of None \<Rightarrow> False | Some r \<Rightarrow>
    re_Ran r = filter (\<lambda>n. map_of (deferred_actions p) n = None) (Actions p) \<and>
    re_Deferred r = map (\<lambda>n. the (map_of (deferred_actions p) n)) (filter (\<lambda>n. map_of (deferred_actions p) n \<noteq> None) (Actions p)) \<and>
    length (re_Ran r) + length (re_Deferred r) = length (Actions p)"
proof -
  have "length (filter P xs) + length (filter (\<lambda>x. \<not> P x) xs) = length xs" for P and xs :: "string list"
    by (rule sum_length_filter_compl)
  from this [of "\<lambda>n. map_of (deferred_actions p) n = None" "Actions p"] show ?thesis
    using assms run_plan_lists [of env p a e]
    by (cases "run_plan env p a (e, [], [])") (simp add: Execute_def Let_def)
qed

text \<open>Concrete inputs: an engine with every backend, an alert in the learning period, a plan.\<close>

definition sample_env :: env where
  "sample_env = \<lparr>env_fails = (\<lambda>_ _. False), env_quarantined = (\<lambda>_. False), env_now = (\<lambda>_. 1)\<rparr>"

definition sample_config :: "bool \<Rightarrow> Config" where
  "sample_config armed = \<lparr>cf_Policy = None, cf_NetBanner = True, cf_HostBanner = True, cf_HostAllowIPs = [''10.0.0.1''],
     cf_Remediator = True, cf_Snapshotter = True, cf_MemPatterns = [''x''], cf_LockUser = True,
     cf_Quarantine = Some (NewQuarantine True), cf_PanicSwitch = Some (NewPanicSwitch armed ''''),
     cf_Webhook = True, cf_MonitorMode = False, cf_EnforceRules = []\<rparr>"

definition sample_alert :: Alert where
  "sample_alert = zero_Alert\<lparr>al_RuleID := ''decoy_file_opened'',
     al_Event := zero_Event\<lparr>ev_PID := 42, ev_Tags := [(''baseline_observing'', ''true'')]\<rparr>\<rparr>"

definition sample_plan :: ActionPlan where
  "sample_plan = zero_ActionPlan\<lparr>ap_Snapshot := True, ap_SuspendProcess := True, ap_IsolateCgroup := True, ap_Tarpit := True\<rparr>"

theorem panic_stops_response_witness:
  "engine_panicked (Engine_New (sample_config True)) \<and>
   en_trace (Engine_OnAlert sample_env sample_alert (Engine_New (sample_config True))) = []"
proof -
  have h: "engine_panicked (Engine_New (sample_config True))"
    by (simp add: engine_panicked_def Engine_New_def sample_config_def NewPanicSwitch_def Armed_def)
  have "en_trace (Engine_New (sample_config True)) = []" by (simp add: Engine_New_def)
  with h panic_stops_response [OF h, of sample_env sample_alert] show ?thesis by simp
qed


theorem execute_accounts_for_plan_witness:
  "case snd (Execute sample_env (Some sample_plan) sample_alert (NewExecutor (Engine_New (sample_config False)))) of
     None \<Rightarrow> False
   | Some r \<Rightarrow> re_Ran r = [''snapshot'', ''suspend_process''] \<and>
       re_Deferred r = [''isolate_cgroup (covered by suspend_process)'', ''tarpit (backend pending P-FT.15)'']"
proof -
  have h: "ex_Engine (NewExecutor (Engine_New (sample_config False))) = Some (Engine_New (sample_config False))"
      "\<not> engine_panicked (Engine_New (sample_config False))"
    by (simp_all add: NewExecutor_def engine_panicked_def Engine_New_def sample_config_def NewPanicSwitch_def Armed_def)
  have "Actions sample_plan = [''snapshot'', ''suspend_process'', ''isolate_cgroup'', ''tarpit'']"
    by (simp add: Actions_def actionOrder_def sample_plan_def zero_ActionPlan_def)
  moreover have "ap_SuspendProcess sample_plan" by (simp add: sample_plan_def)
  ultimately show ?thesis
    using execute_accounts_for_plan [OF h, where env = sample_env and p = sample_plan and a = sample_alert]
    by (simp add: deferred_actions_def split: option.splits)
qed

end
