(* ===== verification/PlannerWire.thy ===== *)
theory PlannerWire
  imports Takeover Capability Response
begin

text \<open>
  The daemon's planner pipeline, \<^verbatim>\<open>pkg/daemon/wire\<close>: alerts become signals of the takeover planner,
  and a periodic tick plans for every live lineage and, in active mode, records the move in the
  action log and hands the plan to the executor.

  The planner, the executor and the wiring share the log, the capability set and the engine by
  reference, so the wiring holds the one copy of each. A tick is one step here; an operator's
  \<^verbatim>\<open>MarkActive\<close> between two lineages of a tick is not modelled. The fresh values each lineage of a
  tick draws (ULIDs, clock readings) are the argument \<open>fr\<close>. Log lines are left out.
\<close>

subsection \<open>From alerts to signals\<close>

definition mapRuleIDToKind :: "string \<Rightarrow> SignalKind" where
  "mapRuleIDToKind r =
     (if r = ''lolbin.suspicious'' then SignalLOTL
      else if r = ''revshell.detected'' then SignalShellAttempt
      else if r = ''shm.exec'' then SignalRWXMemory
      else if r = ''webshell.argv'' then SignalInterpAttempt
      else if r = ''cap.gained'' then SignalCapAbuse
      else if r = ''contescape.detected'' then SignalDefenseEvasion
      else if r = ''ptrace.suspicious'' then SignalDefenseEvasion
      else if r = ''metadata.access_by_unexpected'' then SignalLateralMove
      else if r = ''phishing.brand_lookalike'' then SignalForbiddenConnect
      else if r = ''intel.bad_ip'' then SignalC2Beacon
      else if r = ''beacon.periodic_callback'' then SignalC2Beacon
      else if r = ''dnsexfil.tunnel_pattern'' then SignalForbiddenConnect
      else if r = ''netids.dga'' then SignalForbiddenConnect
      else if r = ''ml.anomaly'' then SignalRuleHit
      else if r = ''baseline.behavioural_deviation'' \<or> r = ''baseline.rate_spike'' then SignalNewBinary
      else if r = ''credbroker.unauthentic_open'' then SignalCredBrokerDeny
      else if r = ''credbroker.honey_touched'' then SignalCredBrokerHoneyTouch
      else '''')"

definition severityToConfidence :: "Severity \<Rightarrow> string" where
  "severityToConfidence s =
     (case s of SeverityCritical \<Rightarrow> ''deterministic'' | SeverityHigh \<Rightarrow> ''high''
      | SeverityWarn \<Rightarrow> ''medium'' | _ \<Rightarrow> ''low'')"

definition weightForRuleMode :: "RuleMode \<Rightarrow> int" where
  "weightForRuleMode m = (case m of ModeBlock \<Rightarrow> 95 | ModeQuarantine \<Rightarrow> 80 | _ \<Rightarrow> 0)"

fun firstNonEmpty :: "string list \<Rightarrow> string" where
  "firstNonEmpty [] = ''''"
| "firstNonEmpty (v # s) = (if v \<noteq> '''' then v else firstNonEmpty s)"

definition zero_Signal :: Signal where
  "zero_Signal = \<lparr>sg_LineageID = 0, sg_Kind = '''', sg_At = 0, sg_Source = '''', sg_Detail = '''',
     sg_Weight = 0, sg_Confidence = '''', sg_RemoteIP = ''''\<rparr>"

definition alert_kind :: "Alert \<Rightarrow> SignalKind" where
  "alert_kind a =
     (let kind = mapRuleIDToKind (al_RuleID a)
      in if kind = ''''
         then case ev_Severity (al_Event a) of
                SeverityCritical \<Rightarrow> SignalRuleHit | SeverityHigh \<Rightarrow> SignalRuleHit | _ \<Rightarrow> ''''
         else kind)"

definition AlertToSignal :: "Alert \<Rightarrow> Signal" where
  "AlertToSignal a =
     (let kind = alert_kind a; ev = al_Event a
      in if kind = '''' then zero_Signal
         else \<lparr>sg_LineageID = (if ev_CGroupID ev = 0 then ucast (ev_PID ev) else ev_CGroupID ev),
               sg_Kind = kind, sg_At = ev_Time ev, sg_Source = ''alert:'' @ al_RuleID a,
               sg_Detail = al_Reason a, sg_Weight = weightForRuleMode (al_Mode a),
               sg_Confidence = severityToConfidence (ev_Severity ev),
               sg_RemoteIP = firstNonEmpty [tag ev ''src_ip'', tag ev ''dst_ip'']\<rparr>)"

definition tierToState :: "string \<Rightarrow> ContainmentState" where
  "tierToState tier =
     (if tier = ''triaged'' then StateTriaged
      else if tier = ''suspended'' then StateSuspended
      else if tier = ''isolated'' then StateIsolated
      else if tier = ''contained'' then StateContained
      else StateObserved)"

text \<open>The alert the executor's backends see, with a fresh ULID and clock reading for its event.\<close>

definition remote_tags :: "string \<Rightarrow> Event \<Rightarrow> Event" where
  "remote_tags ip ev0 =
     (let ev = (if ip \<noteq> ''''
                then set_tag ''src'' ip (set_tag ''dst_ip'' ip (set_tag ''src_ip'' ip ev0)) else ev0)
      in case ParseIP ip of
           None \<Rightarrow> ev
         | Some i \<Rightarrow> if IsUnspecified i then ev else set_tag ''src_ip'' (ip_String i) ev)"

definition lineageToSyntheticAlert :: "string \<Rightarrow> gotime \<Rightarrow> Signal list \<Rightarrow> Alert" where
  "lineageToSyntheticAlert ulid now sigs =
     (let ev = NewEvent ulid now ''planner.tick'' SeverityHigh
      in if sigs = [] then zero_Alert\<lparr>al_Event := ev, al_RuleID := ''takeover.composite''\<rparr>
         else let s = last sigs
              in zero_Alert\<lparr>al_Event := remote_tags (sg_RemoteIP s) (ev\<lparr>ev_Time := sg_At s\<rparr>),
                   al_RuleID := ''takeover.composite'', al_Reason := sg_Detail s, al_Mode := ModeDetect\<rparr>)"

subsection \<open>The wiring\<close>

record WireConfig =
  wc_Active :: bool
  wc_TickInterval :: duration
  wc_MinScoreToPlan :: int
  wc_BastionAvailable :: bool
  wc_OffHostMirrorAvailable :: bool

definition defaulted :: "WireConfig \<Rightarrow> WireConfig" where
  "defaulted c = (if wc_TickInterval c \<le> 0 then c\<lparr>wc_TickInterval := 5 * second\<rparr> else c)"

record PlannerWiring =
  pw_cfg :: WireConfig
  pw_active :: bool
  pw_Caps :: CapabilitySet
  pw_Log :: Log
  pw_Plan :: Planner
  pw_Exec :: Executor
  pw_shadowed :: int
  pw_executed :: int
  pw_rejected :: int

definition Wire_New :: "string \<Rightarrow> hostfs \<Rightarrow> gotime \<Rightarrow> WireConfig \<Rightarrow> Engine \<Rightarrow> PlannerWiring" where
  "Wire_New goos fs now cfg0 engine =
     (let cfg = defaulted cfg0;
          caps = Discover goos fs now (CapabilitySet_New goos);
          planner = NewPlanner \<lparr>pc_TTL = 0, pc_Weights = None, pc_Caps = Some (AnnotatePlan caps),
            pc_MinScoreToPlan = wc_MinScoreToPlan cfg, pc_ResolveCJTier = None,
            pc_PreconditionProbe = Some (wc_BastionAvailable cfg, wc_OffHostMirrorAvailable cfg)\<rparr>
      in \<lparr>pw_cfg = cfg, pw_active = wc_Active cfg, pw_Caps = caps, pw_Log = Log_New, pw_Plan = planner,
          pw_Exec = NewExecutor engine, pw_shadowed = 0, pw_executed = 0, pw_rejected = 0\<rparr>)"

text \<open>\<open>now\<close> is the clock the aggregator reads for a signal without a time.\<close>

definition Wire_OnAlert :: "gotime \<Rightarrow> Alert \<Rightarrow> PlannerWiring \<Rightarrow> PlannerWiring" where
  "Wire_OnAlert now a w =
     (let sig = AlertToSignal a
      in if sg_Kind sig = '''' then w else w\<lparr>pw_Plan := OnSignal now sig (pw_Plan w)\<rparr>)"

text \<open>The planner with the capability set as it is at the time of the call.\<close>

definition planner_now :: "PlannerWiring \<Rightarrow> Planner" where
  "planner_now w = (pw_Plan w)\<lparr>pl_Caps := Some (AnnotatePlan (pw_Caps w))\<rparr>"

record visit_fresh =
  vf_plan :: fresh
  vf_event :: string
  vf_event_at :: gotime
  vf_record_at :: gotime

definition plan_transition :: "u64 \<Rightarrow> ContainmentState \<Rightarrow> ContainmentState \<Rightarrow> ActionPlan \<Rightarrow> Transition" where
  "plan_transition lid frm to plan =
     \<lparr>tr_LineageID = lid, tr_From = frm, tr_To = to, tr_At = 0,
      tr_Reason = ''planner: '' @ ap_RuleID plan, tr_PlanID = ap_PlanID plan, tr_OperatorID = ''''\<rparr>"

text \<open>The log after the transition was recorded, if one is due; \<open>None\<close> where the log refused it.\<close>

definition record_move :: "gotime \<Rightarrow> u64 \<Rightarrow> ActionPlan \<Rightarrow> Log \<Rightarrow> Log option" where
  "record_move now lid plan l =
     (let frm = Log_State l lid; to = tierToState (ap_Tier plan)
      in if frm \<noteq> to \<and> CanTransition frm to
         then case Log_Record now l (plan_transition lid frm to plan) of Inl _ \<Rightarrow> None | Inr l' \<Rightarrow> Some l'
         else Some l)"

definition run_active :: "env \<Rightarrow> visit_fresh \<Rightarrow> u64 \<Rightarrow> ActionPlan \<Rightarrow> Alert \<Rightarrow> PlannerWiring \<Rightarrow> PlannerWiring" where
  "run_active env f lid plan alert w =
     (case record_move (vf_record_at f) lid plan (pw_Log w) of
        None \<Rightarrow> w\<lparr>pw_rejected := wrap64 (pw_rejected w + 1)\<rparr>
      | Some l \<Rightarrow> w\<lparr>pw_Log := l, pw_Exec := fst (Execute env (Some plan) alert (pw_Exec w)),
                    pw_executed := wrap64 (pw_executed w + 1)\<rparr>)"

text \<open>One lineage of a tick; \<open>None\<close> is a panic of the planner.\<close>

definition tick_visit :: "env \<Rightarrow> (u64 \<Rightarrow> visit_fresh) \<Rightarrow> gotime \<Rightarrow> u64 \<Rightarrow> PlannerWiring \<Rightarrow> PlannerWiring option" where
  "tick_visit env fr now lid w =
     (case Planner_Plan (vf_plan (fr lid)) (Some (pw_Log w)) lid now (planner_now w) of
        None \<Rightarrow> None
      | Some (p, po) \<Rightarrow>
          let w1 = w\<lparr>pw_Plan := p\<rparr> in
          case po of
            None \<Rightarrow> Some w1
          | Some plan \<Rightarrow>
              if IsNoOp plan then Some w1
              else let (agg, sigs) = Aggregator_Snapshot lid now (pl_Agg p);
                       w2 = w1\<lparr>pw_Plan := p\<lparr>pl_Agg := agg\<rparr>\<rparr>;
                       alert = lineageToSyntheticAlert (vf_event (fr lid)) (vf_event_at (fr lid)) sigs
                   in if \<not> pw_active w2 then Some (w2\<lparr>pw_shadowed := wrap64 (pw_shadowed w2 + 1)\<rparr>)
                      else Some (run_active env (fr lid) lid plan alert w2))"

primrec tick_visits :: "env \<Rightarrow> (u64 \<Rightarrow> visit_fresh) \<Rightarrow> gotime \<Rightarrow> u64 list \<Rightarrow> PlannerWiring \<Rightarrow> PlannerWiring option" where
  "tick_visits env fr now [] w = Some w"
| "tick_visits env fr now (lid # lids) w =
     (case tick_visit env fr now lid w of None \<Rightarrow> None | Some w' \<Rightarrow> tick_visits env fr now lids w')"

definition tickOnce :: "env \<Rightarrow> (u64 \<Rightarrow> visit_fresh) \<Rightarrow> gotime \<Rightarrow> PlannerWiring \<Rightarrow> PlannerWiring option" where
  "tickOnce env fr now w =
     (let (agg, lineages) = Aggregator_Lineages now (pl_Agg (pw_Plan w))
      in tick_visits env fr now lineages (w\<lparr>pw_Plan := (pw_Plan w)\<lparr>pl_Agg := agg\<rparr>\<rparr>))"

definition MarkActive :: "PlannerWiring \<Rightarrow> PlannerWiring" where
  "MarkActive w = w\<lparr>pw_active := True\<rparr>"

definition IsActive :: "PlannerWiring \<Rightarrow> bool" where
  "IsActive w = pw_active w"

definition Wire_Stats :: "PlannerWiring \<Rightarrow> int \<times> int \<times> int" where
  "Wire_Stats w = (pw_shadowed w, pw_executed w, pw_rejected w)"

subsection \<open>Every way through a tick\<close>

lemma Planner_Plan_total: "\<exists>p po. Planner_Plan fr st lid now pl = Some (p, po)"
  by (cases rule: Planner_Plan_cases [of fr st lid now pl]) auto

lemma tick_visit_cases:
  obtains (plan) p where "tick_visit env fr now lid w = Some (w\<lparr>pw_Plan := p\<rparr>)"
  | (shadow) p where "\<not> pw_active w"
      "tick_visit env fr now lid w = Some (w\<lparr>pw_Plan := p, pw_shadowed := wrap64 (pw_shadowed w + 1)\<rparr>)"
  | (active) p plan sigs where "pw_active w" "tick_visit env fr now lid w = Some (run_active env (fr lid) lid plan
        (lineageToSyntheticAlert (vf_event (fr lid)) (vf_event_at (fr lid)) sigs) (w\<lparr>pw_Plan := p\<rparr>))"
proof -
  obtain p po where p: "Planner_Plan (vf_plan (fr lid)) (Some (pw_Log w)) lid now (planner_now w) = Some (p, po)"
    using Planner_Plan_total by blast
  show thesis
  proof (cases po)
    case None
    with p show thesis by (intro plan) (simp add: tick_visit_def)
  next
    case (Some pl)
    let ?p = "p\<lparr>pl_Agg := fst (Aggregator_Snapshot lid now (pl_Agg p))\<rparr>"
    consider "IsNoOp pl" | "\<not> IsNoOp pl" "\<not> pw_active w" | "\<not> IsNoOp pl" "pw_active w" by blast
    then show thesis
    proof cases
      case 1
      with p Some show thesis by (intro plan) (simp add: tick_visit_def)
    next
      case 2
      with p Some show thesis by (intro shadow [of ?p]) (simp_all add: tick_visit_def case_prod_beta)
    next
      case 3
      with p Some show thesis
        by (intro active [of pl "snd (Aggregator_Snapshot lid now (pl_Agg p))" ?p])
           (simp_all add: tick_visit_def case_prod_beta)
    qed
  qed
qed

lemma tick_visits_keep:
  assumes "\<And>lid w. Q w \<Longrightarrow> \<exists>w'. tick_visit env fr now lid w = Some w' \<and> Q w'" and "Q w"
  shows "\<exists>w'. tick_visits env fr now lids w = Some w' \<and> Q w'"
  using assms(2)
proof (induction lids arbitrary: w)
  case (Cons lid lids)
  then obtain w' where "tick_visit env fr now lid w = Some w'" "Q w'" using assms(1) by blast
  then show ?case using Cons.IH by simp
qed simp

text \<open>What every path through the visit of a lineage keeps, the whole tick keeps, and it ends.\<close>

lemma tickOnce_keeps:
  assumes "Q w" and plan: "\<And>w p. Q w \<Longrightarrow> Q (w\<lparr>pw_Plan := p\<rparr>)"
    and shadow: "\<And>w n. Q w \<Longrightarrow> \<not> pw_active w \<Longrightarrow> Q (w\<lparr>pw_shadowed := n\<rparr>)"
    and active: "\<And>w f lid pl u t sigs. Q w \<Longrightarrow> pw_active w \<Longrightarrow>
      Q (run_active env f lid pl (lineageToSyntheticAlert u t sigs) w)"
  shows "\<exists>w'. tickOnce env fr now w = Some w' \<and> Q w'"
proof -
  have "\<exists>w'. tick_visit env fr now lid w = Some w' \<and> Q w'" if Q: "Q w" for lid w
  proof (cases rule: tick_visit_cases [of env fr now lid w])
    case (plan p)
    then show ?thesis using assms(2) [OF Q] by simp
  next
    case (shadow p)
    then show ?thesis using assms(2) [OF Q] assms(3) [of "w\<lparr>pw_Plan := p\<rparr>"] by simp
  next
    case (active p pl sigs)
    then show ?thesis using assms(2) [OF Q] assms(4) [of "w\<lparr>pw_Plan := p\<rparr>"] by simp
  qed
  then show ?thesis
    using tick_visits_keep [of Q] plan [OF assms(1)] by (simp add: tickOnce_def case_prod_beta)
qed

text \<open>A move is refused only for lineage 0, or for a plan without an id.\<close>

lemma record_move_refused:
  "record_move now lid plan l = None \<longleftrightarrow>
     (let frm = Log_State l lid; to = tierToState (ap_Tier plan)
      in frm \<noteq> to \<and> CanTransition frm to \<and> (lid = 0 \<or> ap_PlanID plan = ''''))"
proof -
  have "Log_State l lid = '''' \<Longrightarrow> \<not> CanTransition (Log_State l lid) s" if "s \<noteq> ''''" for s
    using that by (simp add: CanTransition_def validTransitions_def)
  then show ?thesis
    by (auto simp: record_move_def Let_def Log_Record_def Log_State_def plan_transition_def Log_stamp_def
        Transition_Validate_def split: option.splits)
qed

lemma record_move_inv: "record_move now lid plan l = Some l' \<Longrightarrow> log_inv l \<Longrightarrow> log_inv l'"
  by (auto simp: record_move_def Let_def split: if_splits sum.splits intro: Log_Record_inv)

subsection \<open>The alert the executor sees\<close>

lemma set_tag_PID [simp]: "ev_PID (set_tag k v ev) = ev_PID ev"
  by (simp add: set_tag_def)

lemma remote_tags_sel:
  "ev_PID (remote_tags ip ev) = ev_PID ev"
  "k \<notin> {''src'', ''dst_ip'', ''src_ip''} \<Longrightarrow> tag (remote_tags ip ev) k = tag ev k"
  by (simp_all add: remote_tags_def Let_def split: option.split)

lemma synthetic_lawful: "lawful (lineageToSyntheticAlert u t sigs) ef \<Longrightarrow> phase ef \<in> {2, 6, 7}"
proof -
  let ?ev = "al_Event (lineageToSyntheticAlert u t sigs)"
  have t: "tag (NewEvent u t n s) k = ''''" "tag (ev\<lparr>ev_Time := x\<rparr>) k = tag ev k" for n s ev x k
    by (simp_all add: tag_def NewEvent_def go_get_or_def)
  have "ev_PID ?ev = 0"
    by (simp add: lineageToSyntheticAlert_def Let_def remote_tags_sel NewEvent_def zero_Event_def)
  moreover have "k \<notin> {''src'', ''dst_ip'', ''src_ip''} \<Longrightarrow> tag ?ev k = ''''" for k
    by (simp add: lineageToSyntheticAlert_def Let_def remote_tags_sel t)
  ultimately show "lawful (lineageToSyntheticAlert u t sigs) ef \<Longrightarrow> phase ef \<in> {2, 6, 7}"
    by (cases ef) auto
qed

subsection \<open>The pipeline as a machine\<close>

text \<open>
  What happens to the wiring and what it shares: alerts from the bus, ticks, the switch to active
  mode, a subsystem reporting in, the legacy engine's alerts and the panic switch (\<open>WEngine\<close>), and
  transitions other parts of the daemon record (\<open>WLog\<close>).
\<close>

datatype wcall =
    WAlert gotime Alert
  | WTick "u64 \<Rightarrow> visit_fresh" gotime
  | WMarkActive
  | WMark cap_mark
  | WEngine xcall
  | WLog gotime Transition

primrec wstep :: "env \<Rightarrow> PlannerWiring \<Rightarrow> wcall \<Rightarrow> PlannerWiring" where
  "wstep env w (WAlert now a) = Wire_OnAlert now a w"
| "wstep env w (WTick fr now) = (case tickOnce env fr now w of None \<Rightarrow> w | Some w' \<Rightarrow> w')"
| "wstep env w WMarkActive = MarkActive w"
| "wstep env w (WMark m) = w\<lparr>pw_Caps := Mark m (pw_Caps w)\<rparr>"
| "wstep env w (WEngine c) = w\<lparr>pw_Exec := xstep env (pw_Exec w) c\<rparr>"
| "wstep env w (WLog now t) = w\<lparr>pw_Log := Log_step (pw_Log w) (now, t)\<rparr>"

definition winv :: "PlannerWiring \<Rightarrow> bool" where
  "winv w \<longleftrightarrow> log_inv (pw_Log w) \<and> xinv (pw_Exec w)"

lemma run_active_inv: "winv w \<Longrightarrow> winv (run_active env f lid plan a w)"
proof -
  assume w: "winv w"
  have "xinv (xstep env (pw_Exec w) (XPlan plan a))"
    using w by (intro xstep_inv) (simp add: winv_def)
  then show ?thesis
    using w by (auto simp: run_active_def winv_def intro: record_move_inv split: option.split)
qed

lemma tick_inv: "winv w \<Longrightarrow> \<exists>w'. tickOnce env fr now w = Some w' \<and> winv w'"
  by (rule tickOnce_keeps) (simp_all add: run_active_inv, simp_all add: winv_def)

lemma wstep_inv: "winv w \<Longrightarrow> winv (wstep env w c)"
proof (cases c)
  case (WTick fr now)
  assume "winv w"
  then show ?thesis using WTick tick_inv [of w env fr now] by auto
qed (simp_all add: winv_def Wire_OnAlert_def MarkActive_def xstep_inv Log_step_inv Let_def)

definition fresh_wiring :: "string \<Rightarrow> hostfs \<Rightarrow> gotime \<Rightarrow> WireConfig \<Rightarrow> Config \<Rightarrow> bool \<Rightarrow> PlannerWiring" where
  "fresh_wiring goos fs now wcfg cfg b =
     Wire_New goos fs now wcfg (Engine_New (cfg\<lparr>cf_Quarantine := Some (NewQuarantine b)\<rparr>))"

interpretation wire: machine "fresh_wiring goos fs now wcfg cfg b" "wstep env" winv
  for goos fs now wcfg cfg b env
proof
  show "winv (fresh_wiring goos fs now wcfg cfg b)"
    using fresh_executor_inv [of cfg b] Log_New_inv
    by (simp add: winv_def fresh_wiring_def Wire_New_def Let_def fresh_executor_def)
qed (rule wstep_inv)

subsection \<open>Properties\<close>

text \<open>C31: whatever reaches the planner pipeline, in any order and in either mode: the action log
  stays a legal walk for every lineage, what the engine did stays safe (no signal to PID 0 or 1, none
  but SIGSTOP to a process not stopped before, no ban of a loopback or unspecified address), and the
  next tick ends without a panic.\<close>

theorem pipeline_stays_safe:
  fixes goos fs now wcfg cfg b env cs
  defines "w \<equiv> foldl (wstep env) (fresh_wiring goos fs now wcfg cfg b) cs"
  shows "legal_path lid StateObserved (Log_History (pw_Log w) lid) (Log_State (pw_Log w) lid) \<and>
    (case ex_Engine (pw_Exec w) of None \<Rightarrow> True | Some e \<Rightarrow> trace_safe (en_trace e)) \<and>
    tickOnce env fr t w \<noteq> None"
proof -
  have "winv w" unfolding w_def by (rule wire.run_inv)
  moreover from tick_inv [OF this, of env fr t] have "tickOnce env fr t w \<noteq> None" by auto
  ultimately show ?thesis by (auto simp: winv_def log_inv_def xinv_def split: option.split)
qed

text \<open>In shadow mode a tick ends, leaves the executor (its engine, its counters) and the action
  log exactly as they were, and counts no plan as executed or rejected.\<close>

theorem shadow_tick_never_acts:
  assumes "\<not> IsActive w"
  shows "\<exists>w'. tickOnce env fr now w = Some w' \<and> \<not> IsActive w' \<and> pw_Exec w' = pw_Exec w \<and>
    pw_Log w' = pw_Log w \<and> snd (Wire_Stats w') = snd (Wire_Stats w)"
  by (rule tickOnce_keeps) (use assms in \<open>simp_all add: IsActive_def Wire_Stats_def\<close>)

text \<open>C38: in either mode, a tick's calls on the backends are bans, host quarantines and webhooks
  only. The alert it makes for the executor names no process, file or user, so the snapshots, memory
  scans, suspensions, remediations and locks of an executed plan are all dropped, although the
  executor lists them as run.\<close>

theorem tick_reaches_only_network_backends:
  "case ex_Engine (pw_Exec w) of None \<Rightarrow> True | Some e \<Rightarrow>
     \<exists>w' e' tr. tickOnce env fr now w = Some w' \<and> ex_Engine (pw_Exec w') = Some e' \<and>
       en_trace e' = en_trace e @ tr \<and> list_all (\<lambda>ef. phase ef \<in> {2, 6, 7}) tr"
proof (cases "ex_Engine (pw_Exec w)")
  case (Some e)
  let ?Q = "\<lambda>w'. \<exists>e' tr. ex_Engine (pw_Exec w') = Some e' \<and> en_trace e' = en_trace e @ tr \<and>
    list_all (\<lambda>ef. phase ef \<in> {2, 6, 7}) tr"
  have run: "?Q (run_active env f lid pl (lineageToSyntheticAlert u t sigs) w1)" if q: "?Q w1" for f lid pl u t sigs w1
  proof -
    let ?a = "lineageToSyntheticAlert u t sigs"
    obtain e1 tr where e1: "ex_Engine (pw_Exec w1) = Some e1" "en_trace e1 = en_trace e @ tr"
        "list_all (\<lambda>ef. phase ef \<in> {2, 6, 7}) tr" using q by blast
    obtain e2 tr2 where e2: "ex_Engine (fst (Execute env (Some pl) ?a (pw_Exec w1))) = Some e2"
        "en_trace e2 = en_trace e1 @ tr2" "list_all (lawful ?a) tr2"
      using Execute_engine [OF e1(1), of env "Some pl" ?a] by (auto simp: step_ok_def)
    then have "list_all (\<lambda>ef. phase ef \<in> {2, 6, 7}) tr2"
      using synthetic_lawful [of u t sigs] by (auto simp: list_all_iff)
    with e1 e2 show ?thesis
      by (auto simp: run_active_def split: option.split)
  qed
  have "\<exists>w'. tickOnce env fr now w = Some w' \<and> ?Q w'"
    by (rule tickOnce_keeps [where Q = ?Q]) (use Some run in simp_all)
  then show ?thesis using Some by auto
qed simp

text \<open>Concrete inputs: an alert on a touched honey credential reaches the pipeline, then a tick.\<close>

definition sample_fs :: hostfs where
  "sample_fs = \<lparr>fs_mode = (\<lambda>_. None), fs_read = (\<lambda>_. None)\<rparr>"

definition sample_fresh :: "u64 \<Rightarrow> visit_fresh" where
  "sample_fresh lid = \<lparr>vf_plan = \<lparr>fr_event = ''E'', fr_plan = ''P'', fr_t0 = 5, fr_t1 = 5, fr_t2 = 5\<rparr>,
     vf_event = ''S'', vf_event_at = 5, vf_record_at = 5\<rparr>"

definition honey_alert :: Alert where
  "honey_alert = zero_Alert\<lparr>al_RuleID := ''credbroker.honey_touched'',
     al_Event := zero_Event\<lparr>ev_PID := 42, ev_CGroupID := 7, ev_Time := 1, ev_Severity := SeverityCritical\<rparr>\<rparr>"

definition sample_wiring :: "bool \<Rightarrow> PlannerWiring" where
  "sample_wiring act = Wire_OnAlert 1 honey_alert (fresh_wiring ''linux'' sample_fs 1
     \<lparr>wc_Active = act, wc_TickInterval = 0, wc_MinScoreToPlan = 0, wc_BastionAvailable = True,
      wc_OffHostMirrorAvailable = True\<rparr> (sample_config False) True)"

theorem shadow_tick_never_acts_witness:
  "\<exists>w'. tickOnce sample_env sample_fresh 5 (sample_wiring False) = Some w' \<and> pw_Log w' = Log_New"
proof -
  have "\<not> IsActive (sample_wiring False)" "pw_Log (sample_wiring False) = Log_New"
    by (simp_all add: IsActive_def sample_wiring_def Wire_OnAlert_def fresh_wiring_def Wire_New_def Let_def defaulted_def)
  then show ?thesis
    using shadow_tick_never_acts [of "sample_wiring False" sample_env sample_fresh 5] by auto
qed

text \<open>
  The same tick in active mode: the log ends with the lineage isolated and the plan counts as
  executed, but four of its actions were dropped, nothing was stopped and only the webhook was called.
\<close>

lemma isolated_in_the_log_only:
  "case tickOnce sample_env sample_fresh 5 (sample_wiring True) of None \<Rightarrow> False | Some w \<Rightarrow>
     Log_State (pw_Log w) 7 = StateIsolated \<and> Wire_Stats w = (0, 1, 0) \<and>
     (case ex_Engine (pw_Exec w) of None \<Rightarrow> False | Some e \<Rightarrow>
        map phase (en_trace e) = [7] \<and> st_Dropped (en_stats e) = 4 \<and> en_quarantine e = Some (NewQuarantine True))"
  by code_simp

text \<open>
  Every signal the bridge feeds to the planner is of a kind with a positive default weight, and an
  alert without a mapped rule counts from severity high on.
\<close>

lemma if_in: "x \<in> S \<Longrightarrow> y \<in> S \<Longrightarrow> (if b then x else y) \<in> S"
  by simp

lemma mapped_kinds: "mapRuleIDToKind r \<in> set ('''' # AllKinds)"
proof -
  have "list_all (\<lambda>k. k \<in> set ('''' # AllKinds))
    ['''', SignalLOTL, SignalShellAttempt, SignalRWXMemory, SignalInterpAttempt, SignalCapAbuse, SignalDefenseEvasion,
     SignalLateralMove, SignalForbiddenConnect, SignalC2Beacon, SignalRuleHit, SignalNewBinary,
     SignalCredBrokerDeny, SignalCredBrokerHoneyTouch]"
    by code_simp
  then show ?thesis
    unfolding mapRuleIDToKind_def list.pred_inject by (elim conjE) (intro if_in; assumption)
qed

lemma default_weights_positive: "list_all (\<lambda>k. 0 < go_get_or 0 DefaultWeights k) AllKinds"
  by code_simp

text \<open>
  The weight a rule's mode gives replaces the one of the kind, also where that one is higher: a
  quarantine rule on executable shared memory weighs 80, without the mode 95.
\<close>

lemma mode_lowers_weight:
  "signal_weight (NewScorer None) SignalRWXMemory
     (AlertToSignal (zero_Alert\<lparr>al_RuleID := ''shm.exec'', al_Mode := ModeQuarantine\<rparr>)) = 80 \<and>
   signal_weight (NewScorer None) SignalRWXMemory
     (AlertToSignal (zero_Alert\<lparr>al_RuleID := ''shm.exec'', al_Mode := ModeDetect\<rparr>)) = 95"
  by code_simp

end
