(* ===== verification/NetIP.thy ===== *)
theory NetIP
  imports GoNet
begin

text \<open>
  The parts of Go's \<^verbatim>\<open>net/netip\<close> package the components call. An address is its bytes, 4 or 16 of
  them; a mapped address \<^verbatim>\<open>::ffff:a.b.c.d\<close> is a 16-byte one and differs from \<^verbatim>\<open>a.b.c.d\<close>. The zone
  an address may carry is only returned by the parser: no caller keeps it.
\<close>

datatype Addr = Addr4 "u8 list" | Addr6 "u8 list"

primrec addr_bytes :: "Addr \<Rightarrow> u8 list" where
  "addr_bytes (Addr4 bs) = bs"
| "addr_bytes (Addr6 bs) = bs"

primrec Is4 :: "Addr \<Rightarrow> bool" where
  "Is4 (Addr4 bs) = True"
| "Is4 (Addr6 bs) = False"

primrec Is4In6 :: "Addr \<Rightarrow> bool" where
  "Is4In6 (Addr4 bs) = False"
| "Is4In6 (Addr6 bs) = (To4 bs \<noteq> None)"

primrec BitLen :: "Addr \<Rightarrow> nat" where
  "BitLen (Addr4 bs) = 32"
| "BitLen (Addr6 bs) = 128"

text \<open>The parser decides by the first of the three special bytes; the result has the zone.\<close>

definition split_zone :: "string \<Rightarrow> (string \<times> string) option" where
  "split_zone s =
     (case index_byte CHR ''%'' s of
        None \<Rightarrow> Some (s, '''')
      | Some i \<Rightarrow> if drop (Suc i) s = '''' then None else Some (take i s, drop (Suc i) s))"

definition ParseAddr :: "string \<Rightarrow> (Addr \<times> string) option" where
  "ParseAddr s =
     (case find (\<lambda>c. c = CHR ''.'' \<or> c = CHR '':'' \<or> c = CHR ''%'') s of
        None \<Rightarrow> None
      | Some c \<Rightarrow>
          if c = CHR ''.'' then map_option (\<lambda>f. (Addr4 f, '''')) (parseIPv4Fields s)
          else if c = CHR ''%'' then None
          else case split_zone s of
                 None \<Rightarrow> None
               | Some (a, zone) \<Rightarrow> map_option (\<lambda>i. (Addr6 i, zone)) (parseIPv6 a))"

record Prefix =
  px_addr :: Addr
  px_bits :: nat

text \<open>The bits after the slash: digits, without a leading zero, at most the length of the address.\<close>

definition prefix_bits :: "string \<Rightarrow> nat \<Rightarrow> nat option" where
  "prefix_bits s maxBits =
     (if s = [] \<or> \<not> list_all is_digit s \<or> (1 < length s \<and> hd s = CHR ''0'') \<or> maxBits < dec_val s
      then None else Some (dec_val s))"

definition ParsePrefix :: "string \<Rightarrow> Prefix option" where
  "ParsePrefix s =
     (case last_index CHR ''/'' s of
        None \<Rightarrow> None
      | Some i \<Rightarrow>
          case ParseAddr (take i s) of
            None \<Rightarrow> None
          | Some (a, zone) \<Rightarrow>
              if zone \<noteq> '''' then None
              else map_option (\<lambda>n. \<lparr>px_addr = a, px_bits = n\<rparr>) (prefix_bits (drop (Suc i) s) (BitLen a)))"

text \<open>The bits of an address, most significant first; a prefix covers an address of its own family
  that agrees with it on its first bits.\<close>

definition byte_bits :: "u8 \<Rightarrow> bool list" where
  "byte_bits b = map (bit b) [7, 6, 5, 4, 3, 2, 1, 0]"

definition addr_bits :: "Addr \<Rightarrow> bool list" where
  "addr_bits a = concat (map byte_bits (addr_bytes a))"

definition Prefix_Contains :: "Prefix \<Rightarrow> Addr \<Rightarrow> bool" where
  "Prefix_Contains p a \<longleftrightarrow> Is4 (px_addr p) = Is4 a \<and>
     take (px_bits p) (addr_bits (px_addr p)) = take (px_bits p) (addr_bits a)"

definition Overlaps :: "Prefix \<Rightarrow> Prefix \<Rightarrow> bool" where
  "Overlaps p q \<longleftrightarrow> p = q \<or> Is4 (px_addr p) = Is4 (px_addr q) \<and>
     (let n = min (px_bits p) (px_bits q)
      in take n (addr_bits (px_addr p)) = take n (addr_bits (px_addr q)))"

primrec Addr_String :: "Addr \<Rightarrow> string" where
  "Addr_String (Addr4 bs) = ip_String (map4 bs)"
| "Addr_String (Addr6 bs) = (if To4 bs \<noteq> None then ''::ffff:'' @ ip_String bs else ip_String bs)"

definition Prefix_String :: "Prefix \<Rightarrow> string" where
  "Prefix_String p = Addr_String (px_addr p) @ ''/'' @ dec_str (px_bits p)"

subsection \<open>Prefixes as sets of addresses\<close>

lemma take_min_eq: "take m xs = take m ys \<Longrightarrow> n \<le> m \<Longrightarrow> take n xs = take n ys"
  by (metis min.absorb1 take_take)

text \<open>Two prefixes that cover an address in common overlap.\<close>

lemma common_address_overlaps:
  assumes "Prefix_Contains p a" "Prefix_Contains q a"
  shows "Overlaps p q"
proof -
  let ?n = "min (px_bits p) (px_bits q)"
  have "take ?n (addr_bits (px_addr p)) = take ?n (addr_bits a)"
       "take ?n (addr_bits (px_addr q)) = take ?n (addr_bits a)"
    using assms by (auto simp: Prefix_Contains_def intro: take_min_eq)
  then show ?thesis using assms by (simp add: Overlaps_def Prefix_Contains_def)
qed

lemma Overlaps_sym: "Overlaps p q = Overlaps q p"
  by (auto simp: Overlaps_def Let_def min.commute)

lemma byte_bits_length [simp]: "length (byte_bits b) = 8"
  by (simp add: byte_bits_def)

lemma byte_bits_inj: "byte_bits a = byte_bits b \<Longrightarrow> a = b"
proof (rule bit_word_eqI)
  fix n assume e: "byte_bits a = byte_bits b" and "n < LENGTH(8)"
  then have "n \<in> {0, 1, 2, 3, 4, 5, 6, 7}" by auto
  then show "bit a n = bit b n" using e by (auto simp: byte_bits_def)
qed

lemma concat_bits_inj:
  "length xs = length ys \<Longrightarrow> concat (map byte_bits xs) = concat (map byte_bits ys) \<Longrightarrow> xs = ys"
  by (induction xs ys rule: list_induct2) (auto dest: byte_bits_inj)

lemma addr_bits_length: "length (addr_bits a) = 8 * length (addr_bytes a)"
  by (simp add: addr_bits_def length_concat comp_def sum_list_triv)

definition addr_wf :: "Addr \<Rightarrow> bool" where
  "addr_wf a \<longleftrightarrow> 8 * length (addr_bytes a) = BitLen a"

text \<open>A prefix as long as its address covers that address only.\<close>

lemma host_prefix_exact:
  assumes "addr_wf a" "addr_wf b"
  shows "Prefix_Contains \<lparr>px_addr = a, px_bits = BitLen a\<rparr> b \<longleftrightarrow> b = a"
proof
  assume c: "Prefix_Contains \<lparr>px_addr = a, px_bits = BitLen a\<rparr> b"
  then have f: "Is4 a = Is4 b" by (simp add: Prefix_Contains_def)
  then have l: "length (addr_bytes a) = length (addr_bytes b)"
    using assms by (cases a; cases b) (auto simp: addr_wf_def)
  have "addr_bits a = addr_bits b"
    using c assms l by (simp add: Prefix_Contains_def addr_bits_length addr_wf_def)
  then have "addr_bytes a = addr_bytes b"
    using l by (auto simp: addr_bits_def intro: concat_bits_inj)
  with f show "b = a" by (cases a; cases b) auto
qed (simp add: Prefix_Contains_def)

subsection \<open>Printing and parsing IPv4 addresses\<close>

lemma dec_val_snoc: "dec_val (s @ [c]) = dec_val s * 10 + (of_char c - 48)"
  by (simp add: dec_val_def)

lemma dec_val_dec_str: "dec_val (dec_str n) = n"
proof (induction n rule: dec_str.induct)
  case (1 n)
  show ?case
  proof (cases "n < 10")
    case True
    then show ?thesis by (simp add: dec_str.simps [of n] dec_val_def)
  next
    case False
    then show ?thesis using 1 by (simp add: dec_str.simps [of n] dec_val_snoc)
  qed
qed

lemma dec_str_digits: "list_all is_digit (dec_str n)"
  by (auto simp: list_all_iff is_digit_def Let_def dest: set_dec_str)

lemma dec_str_lead: "0 < n \<Longrightarrow> hd (dec_str n) \<noteq> CHR ''0''"
proof (induction n rule: dec_str.induct)
  case (1 n)
  have "n mod 10 = 0" if "digit_char n = CHR ''0''"
  proof -
    from that have "of_char (digit_char n) = (of_char (CHR ''0'') :: nat)" by (rule arg_cong)
    then show ?thesis by simp
  qed
  with 1 show ?case by (cases "n < 10") (auto simp: dec_str.simps [of n])
qed

lemma dec_str_single: "1 < length (dec_str n) \<Longrightarrow> 0 < n"
  by (cases "n = 0") (simp_all add: dec_str.simps [of 0])

lemma byte_text:
  "octet (dec_str (unat (b :: u8))) = Some b" "list_all is_digit (dec_str (unat b))"
proof -
  have "unat b < 2 ^ LENGTH(8)" by (rule unsigned_less)
  then show "octet (dec_str (unat b)) = Some b"
    using dec_str_lead dec_str_single by (auto simp: octet_def dec_str_digits dec_val_dec_str)
qed (rule dec_str_digits)

lemma str_split_word: "CHR ''.'' \<notin> set w \<Longrightarrow> str_split CHR ''.'' w = [w]"
  by (induction w) auto

lemma str_split_append: "CHR ''.'' \<notin> set w \<Longrightarrow> str_split CHR ''.'' (w @ CHR ''.'' # s) = w # str_split CHR ''.'' s"
  by (induction w) auto

lemma digits_no_dot: "list_all is_digit w \<Longrightarrow> CHR ''.'' \<notin> set w \<and> CHR '':'' \<notin> set w \<and> CHR ''%'' \<notin> set w \<and> CHR ''/'' \<notin> set w"
  by (auto simp: list_all_iff is_digit_def)

abbreviation dotted :: "u8 list \<Rightarrow> string" where
  "dotted bs \<equiv> str_join ''.'' (map (\<lambda>b. dec_str (unat b)) bs)"

lemma parse_dotted: "length bs = 4 \<Longrightarrow> parseIPv4Fields (dotted bs) = Some bs"
proof -
  assume "length bs = 4"
  then obtain a b c d where bs: "bs = [a, b, c, d]"
    by (auto simp: numeral_eq_Suc length_Suc_conv)
  have "CHR ''.'' \<notin> set (dec_str (unat x))" for x :: u8 using byte_text(2) digits_no_dot by blast
  then have "str_split CHR ''.'' (dotted bs) = map (\<lambda>b. dec_str (unat b)) bs"
    by (simp add: bs str_split_word str_split_append)
  then show ?thesis by (simp add: parseIPv4Fields_def Let_def bs byte_text comp_def)
qed

lemma find_dotted: "length bs = 4 \<Longrightarrow> (\<And>c. is_digit c \<Longrightarrow> \<not> P c) \<Longrightarrow> P CHR ''.'' \<Longrightarrow> find P (dotted bs) = Some CHR ''.''"
proof -
  assume l: "length bs = 4" and P: "\<And>c. is_digit c \<Longrightarrow> \<not> P c" "P CHR ''.''"
  from l obtain a b c d where bs: "bs = [a, b, c, d]"
    by (auto simp: numeral_eq_Suc length_Suc_conv)
  have f: "list_all is_digit w \<Longrightarrow> find P (w @ s) = find P s" for w s
    using P(1) by (induction w) simp_all
  show ?thesis by (simp add: bs f byte_text(2) P(2))
qed

lemma Parse_Addr4: "length bs = 4 \<Longrightarrow> ParseAddr (dotted bs) = Some (Addr4 bs, [])"
  by (subst ParseAddr_def, subst find_dotted) (auto simp: is_digit_def parse_dotted)

lemma dotted_no_slash: "length bs = 4 \<Longrightarrow> CHR ''/'' \<notin> set (dotted bs)"
proof -
  assume "length bs = 4"
  then obtain a b c d where bs: "bs = [a, b, c, d]"
    by (auto simp: numeral_eq_Suc length_Suc_conv)
  have "CHR ''/'' \<notin> set (dec_str (unat x))" for x :: u8 using byte_text(2) digits_no_dot by blast
  then show ?thesis by (simp add: bs)
qed

end
