(* ===== verification/GoExec.thy ===== *)
theory GoExec
  imports XPrelude
begin

text \<open>
  Running programs, Go's \<^verbatim>\<open>os/exec\<close> as the packages that drive \<^verbatim>\<open>nft\<close> use it, and \<^verbatim>\<open>strings.Fields\<close>.

  The host answers \<^verbatim>\<open>LookPath\<close> and every command, given the commands run before it, with the
  combined output and whether the command succeeded. What was run is a trace, threaded through the
  callers.
\<close>

type_synonym cmd = "string list"

record host =
  ho_LookPath :: "string \<Rightarrow> string option"
  ho_run :: "cmd list \<Rightarrow> cmd \<Rightarrow> string \<times> bool"

definition run_cmd :: "host \<Rightarrow> cmd \<Rightarrow> cmd list \<Rightarrow> string \<times> bool \<times> cmd list" where
  "run_cmd h c tr = (case ho_run h tr c of (out, ok) \<Rightarrow> (out, ok, tr @ [c]))"

text \<open>Run all of them, whatever they answer.\<close>

definition run_all :: "cmd list \<Rightarrow> cmd list \<Rightarrow> cmd list" where
  "run_all cs tr = tr @ cs"

text \<open>The words of a text between runs of white space.\<close>

fun fields_from :: "string \<Rightarrow> string \<Rightarrow> string list" where
  "fields_from w [] = (if w = [] then [] else [w])"
| "fields_from w (c # s) =
     (case find (has_prefix (c # s)) go_spaces of
        None \<Rightarrow> fields_from (w @ [c]) s
      | Some p \<Rightarrow> (if w = [] then [] else [w]) @ fields_from [] (drop (length p - 1) s))"

definition str_fields :: "string \<Rightarrow> string list" where
  "str_fields s = fields_from [] s"

lemma run_cmd_trace [simp]: "snd (snd (run_cmd h c tr)) = tr @ [c]"
  by (simp add: run_cmd_def split: prod.split)

end
