(* ===== verification/SafetyLists.thy ===== *)
theory SafetyLists
  imports NetIP GoExec
begin

text \<open>
  The safety net, \<^verbatim>\<open>pkg/safetynet\<close>: the allow list that vetoes every block, the block-and-observe
  list and the ring of blocked attempts (\<^verbatim>\<open>safetynet.go\<close>), the \<^verbatim>\<open>nft\<close> set behind the block list
  (\<^verbatim>\<open>nftables.go\<close>) and the parser of kernel log lines (\<^verbatim>\<open>logreader.go\<close>).

  The nil receiver every method accepts is \<open>None\<close>. Each method is one step: its locks exclude the
  writers. (\<^verbatim>\<open>AddBlock\<close> drops its read lock before it takes the write lock; a concurrent \<^verbatim>\<open>AddAllow\<close>
  in that gap is not modelled.) Error texts are constructors with the values they print.
\<close>

subsection \<open>Data\<close>

record Attempt =
  at_Time :: gotime
  at_SrcIP :: string
  at_DstIP :: string
  at_DstPort :: u16
  at_Proto :: string
  at_Bytes :: u64

definition zero_Attempt :: Attempt where
  "zero_Attempt = \<lparr>at_Time = 0, at_SrcIP = '''', at_DstIP = '''', at_DstPort = 0, at_Proto = '''', at_Bytes = 0\<rparr>"

record ring =
  rg_buf :: "Attempt list"
  rg_pos :: nat
  rg_full :: bool

record SafetyNet =
  sn_allow :: "Prefix list"
  sn_block :: "Prefix list"
  sn_attempts :: ring
  sn_allowChecks :: u64
  sn_allowHits :: u64
  sn_blockChecks :: u64
  sn_blockHits :: u64

datatype sn_error =
    NotEnabled
  | BadCIDR string
  | BadAlwaysAllow string
  | BadBlockObserve string
  | BlockIsIPv6 string
  | OverlapsAllow string Prefix

definition parsePrefix :: "string \<Rightarrow> Prefix option" where
  "parsePrefix s =
     (case ParsePrefix s of
        Some p \<Rightarrow> Some p
      | None \<Rightarrow>
          case ParseAddr s of
            None \<Rightarrow> None
          | Some (a, _) \<Rightarrow> Some \<lparr>px_addr = a, px_bits = (if \<not> Is4 a \<and> \<not> Is4In6 a then 128 else 32)\<rparr>)"

text \<open>The loops of \<^verbatim>\<open>New\<close>: the prefixes so far, or the first bad entry.\<close>

fun parse_allow :: "string list \<Rightarrow> sn_error + Prefix list" where
  "parse_allow [] = Inr []"
| "parse_allow (c # cs) =
     (case parsePrefix c of
        None \<Rightarrow> Inl (BadAlwaysAllow c)
      | Some p \<Rightarrow> (case parse_allow cs of Inl e \<Rightarrow> Inl e | Inr ps \<Rightarrow> Inr (p # ps)))"

fun parse_block :: "string list \<Rightarrow> sn_error + Prefix list" where
  "parse_block [] = Inr []"
| "parse_block (c # cs) =
     (case parsePrefix c of
        None \<Rightarrow> Inl (BadBlockObserve c)
      | Some p \<Rightarrow>
          if \<not> Is4 (px_addr p) \<and> \<not> Is4In6 (px_addr p) then Inl (BlockIsIPv6 c)
          else case parse_block cs of Inl e \<Rightarrow> Inl e | Inr ps \<Rightarrow> Inr (p # ps))"

definition SafetyNet_New :: "string list \<Rightarrow> string list \<Rightarrow> int \<Rightarrow> sn_error + SafetyNet" where
  "SafetyNet_New allowCIDRs blockCIDRs attemptHistory =
     (let n = (if attemptHistory \<le> 0 then 1000 else nat attemptHistory)
      in case parse_allow allowCIDRs of
           Inl e \<Rightarrow> Inl e
         | Inr al \<Rightarrow>
             case parse_block blockCIDRs of
               Inl e \<Rightarrow> Inl e
             | Inr bl \<Rightarrow> Inr \<lparr>sn_allow = al, sn_block = bl,
                 sn_attempts = \<lparr>rg_buf = replicate n zero_Attempt, rg_pos = 0, rg_full = False\<rparr>,
                 sn_allowChecks = 0, sn_allowHits = 0, sn_blockChecks = 0, sn_blockHits = 0\<rparr>)"

subsection \<open>Checks\<close>

definition ipToAddr :: "ip \<Rightarrow> Addr" where
  "ipToAddr i = (case To4 i of Some v4 \<Rightarrow> Addr4 v4 | None \<Rightarrow> Addr6 i)"

definition covered :: "Prefix list \<Rightarrow> Addr \<Rightarrow> bool" where
  "covered ps a = list_ex (\<lambda>p. Prefix_Contains p a) ps"

definition AllowAlways :: "ip \<Rightarrow> SafetyNet option \<Rightarrow> SafetyNet option \<times> bool" where
  "AllowAlways i so =
     (case so of
        None \<Rightarrow> (None, False)
      | Some s \<Rightarrow>
          let s1 = s\<lparr>sn_allowChecks := sn_allowChecks s + 1\<rparr>
          in if covered (sn_allow s1) (ipToAddr i)
             then (Some (s1\<lparr>sn_allowHits := sn_allowHits s1 + 1\<rparr>), True) else (Some s1, False))"

definition IsBlocked :: "ip \<Rightarrow> SafetyNet option \<Rightarrow> SafetyNet option \<times> bool" where
  "IsBlocked i so =
     (case so of
        None \<Rightarrow> (None, False)
      | Some s \<Rightarrow>
          let s1 = s\<lparr>sn_blockChecks := sn_blockChecks s + 1\<rparr>
          in if covered (sn_block s1) (ipToAddr i)
             then (Some (s1\<lparr>sn_blockHits := sn_blockHits s1 + 1\<rparr>), True) else (Some s1, False))"

subsection \<open>The ring of attempts\<close>

definition ring_add :: "Attempt \<Rightarrow> ring \<Rightarrow> ring" where
  "ring_add a r =
     (if rg_buf r = [] then r
      else let r1 = r\<lparr>rg_buf := (rg_buf r)[rg_pos r := a], rg_pos := rg_pos r + 1\<rparr>
           in if length (rg_buf r1) \<le> rg_pos r1 then r1\<lparr>rg_pos := 0, rg_full := True\<rparr> else r1)"

definition RecordAttempt :: "gotime \<Rightarrow> Attempt \<Rightarrow> SafetyNet option \<Rightarrow> SafetyNet option" where
  "RecordAttempt now a so =
     (case so of
        None \<Rightarrow> None
      | Some s \<Rightarrow>
          let a1 = (if at_Time a = 0 then a\<lparr>at_Time := now\<rparr> else a)
          in Some (s\<lparr>sn_attempts := ring_add a1 (sn_attempts s)\<rparr>))"

text \<open>The backward walk: \<open>n\<close> more slots, the next of them at \<open>idx - 1\<close>, or the last one.\<close>

fun walk_back :: "Attempt list \<Rightarrow> nat \<Rightarrow> nat \<Rightarrow> Attempt list" where
  "walk_back buf 0 idx = []"
| "walk_back buf (Suc n) idx =
     (let i = (if idx = 0 then length buf - 1 else idx - 1) in buf ! i # walk_back buf n i)"

definition RecentAttempts :: "int \<Rightarrow> SafetyNet option \<Rightarrow> Attempt list" where
  "RecentAttempts n so =
     (case so of
        None \<Rightarrow> []
      | Some s \<Rightarrow>
          let r = sn_attempts s; size = length (rg_buf r);
              cnt = (if rg_full r then size else rg_pos r)
          in if n \<le> 0 \<or> size = 0 then [] else walk_back (rg_buf r) (min (nat n) cnt) (rg_pos r))"

subsection \<open>Changing the lists\<close>

definition AddAllow :: "string \<Rightarrow> SafetyNet option \<Rightarrow> SafetyNet option \<times> sn_error option" where
  "AddAllow cidr so =
     (case so of
        None \<Rightarrow> (None, Some NotEnabled)
      | Some s \<Rightarrow>
          case parsePrefix cidr of
            None \<Rightarrow> (so, Some (BadCIDR cidr))
          | Some p \<Rightarrow> (if p \<in> set (sn_allow s) then so else Some (s\<lparr>sn_allow := sn_allow s @ [p]\<rparr>), None))"

definition RemoveAllow :: "string \<Rightarrow> SafetyNet option \<Rightarrow> SafetyNet option \<times> sn_error option" where
  "RemoveAllow cidr so =
     (case so of
        None \<Rightarrow> (None, Some NotEnabled)
      | Some s \<Rightarrow>
          case parsePrefix cidr of
            None \<Rightarrow> (so, Some (BadCIDR cidr))
          | Some p \<Rightarrow> (Some (s\<lparr>sn_allow := filter (\<lambda>q. q \<noteq> p) (sn_allow s)\<rparr>), None))"

definition AddBlock :: "string \<Rightarrow> SafetyNet option \<Rightarrow> SafetyNet option \<times> sn_error option" where
  "AddBlock cidr so =
     (case so of
        None \<Rightarrow> (None, Some NotEnabled)
      | Some s \<Rightarrow>
          case parsePrefix cidr of
            None \<Rightarrow> (so, Some (BadCIDR cidr))
          | Some p \<Rightarrow>
              if \<not> Is4 (px_addr p) \<and> \<not> Is4In6 (px_addr p) then (so, Some (BlockIsIPv6 cidr))
              else case find (\<lambda>q. Overlaps q p \<or> Overlaps p q) (sn_allow s) of
                     Some q \<Rightarrow> (so, Some (OverlapsAllow cidr q))
                   | None \<Rightarrow>
                       (if p \<in> set (sn_block s) then so else Some (s\<lparr>sn_block := sn_block s @ [p]\<rparr>), None))"

definition RemoveBlock :: "string \<Rightarrow> SafetyNet option \<Rightarrow> SafetyNet option \<times> sn_error option" where
  "RemoveBlock cidr so =
     (case so of
        None \<Rightarrow> (None, Some NotEnabled)
      | Some s \<Rightarrow>
          case parsePrefix cidr of
            None \<Rightarrow> (so, Some (BadCIDR cidr))
          | Some p \<Rightarrow> (Some (s\<lparr>sn_block := filter (\<lambda>q. q \<noteq> p) (sn_block s)\<rparr>), None))"

definition AllowList :: "SafetyNet option \<Rightarrow> string list" where
  "AllowList so = (case so of None \<Rightarrow> [] | Some s \<Rightarrow> map Prefix_String (sn_allow s))"

definition BlockList :: "SafetyNet option \<Rightarrow> string list" where
  "BlockList so = (case so of None \<Rightarrow> [] | Some s \<Rightarrow> map Prefix_String (sn_block s))"

text \<open>The counters, the sizes of the two lists and the number of attempts kept.\<close>

definition SafetyNet_Stats :: "SafetyNet option \<Rightarrow> (u64 \<times> u64 \<times> u64 \<times> u64) \<times> nat \<times> nat \<times> nat" where
  "SafetyNet_Stats so =
     (case so of
        None \<Rightarrow> ((0, 0, 0, 0), 0, 0, 0)
      | Some s \<Rightarrow> ((sn_allowChecks s, sn_allowHits s, sn_blockChecks s, sn_blockHits s),
           length (sn_allow s), length (sn_block s),
           if rg_full (sn_attempts s) then length (rg_buf (sn_attempts s)) else rg_pos (sn_attempts s)))"

subsection \<open>The nft set\<close>

record NFTables =
  nt_enabled :: bool
  nt_hasNFT :: bool

datatype nft_error = NftMissing | SetNotPresent string | NftAddFailed string | NftDeleteFailed string | NftListFailed string

definition NewNFTables :: "host \<Rightarrow> NFTables" where
  "NewNFTables h = \<lparr>nt_enabled = False, nt_hasNFT = (ho_LookPath h ''nft'' \<noteq> None)\<rparr>"

definition Enabled :: "NFTables option \<Rightarrow> bool" where
  "Enabled no = (case no of None \<Rightarrow> False | Some n \<Rightarrow> nt_enabled n)"

definition chain_cmds :: "cmd list" where
  "chain_cmds =
    [[''nft'', ''add'', ''table'', ''inet'', ''xhelix''],
     [''nft'', ''add'', ''set'', ''inet'', ''xhelix'', ''block_observe_v4'', ''{ type ipv4_addr; flags interval; }''],
     [''nft'', ''add'', ''chain'', ''inet'', ''xhelix'', ''block_observe'', ''{ type filter hook input priority -100; }''],
     [''nft'', ''add'', ''rule'', ''inet'', ''xhelix'', ''block_observe'', ''ip'', ''saddr'', ''@block_observe_v4'',
      ''log'', ''prefix'', ''xhelix-bo '', ''level'', ''info'', ''drop'']]"

definition EnsureChain :: "host \<Rightarrow> NFTables option \<times> cmd list \<Rightarrow> (NFTables option \<times> cmd list) \<times> nft_error option" where
  "EnsureChain h st =
     (case fst st of
        None \<Rightarrow> (st, None)
      | Some n \<Rightarrow>
          if \<not> nt_hasNFT n then (st, Some NftMissing)
          else case run_cmd h [''nft'', ''list'', ''set'', ''inet'', ''xhelix'', ''block_observe_v4'']
                      (run_all chain_cmds (snd st)) of
                 (out, ok, tr) \<Rightarrow>
                   if ok then ((Some (n\<lparr>nt_enabled := True\<rparr>), tr), None) else ((Some n, tr), Some (SetNotPresent out)))"

definition AddCIDR :: "host \<Rightarrow> string \<Rightarrow> NFTables option \<times> cmd list \<Rightarrow> (NFTables option \<times> cmd list) \<times> nft_error option" where
  "AddCIDR h cidr st =
     (if \<not> Enabled (fst st) then (st, None)
      else case run_cmd h [''nft'', ''add'', ''element'', ''inet'', ''xhelix'', ''block_observe_v4'', ''{ '' @ cidr @ '' }'']
                  (snd st) of
             (out, ok, tr) \<Rightarrow>
               ((fst st, tr),
                if ok \<or> str_contains out ''File exists'' \<or> str_contains out ''already exists''
                then None else Some (NftAddFailed out)))"

definition RemoveCIDR :: "host \<Rightarrow> string \<Rightarrow> NFTables option \<times> cmd list \<Rightarrow> (NFTables option \<times> cmd list) \<times> nft_error option" where
  "RemoveCIDR h cidr st =
     (if \<not> Enabled (fst st) then (st, None)
      else case run_cmd h [''nft'', ''delete'', ''element'', ''inet'', ''xhelix'', ''block_observe_v4'', ''{ '' @ cidr @ '' }'']
                  (snd st) of
             (out, ok, tr) \<Rightarrow>
               ((fst st, tr),
                if ok \<or> str_contains out ''No such file'' \<or> str_contains out ''does not exist''
                then None else Some (NftDeleteFailed out)))"

text \<open>\<^verbatim>\<open>strings.Index\<close>, and the parser of a listing: what stands between the first \<^verbatim>\<open>elements = {\<close> and the
  next brace, split at commas.\<close>

fun str_index :: "string \<Rightarrow> string \<Rightarrow> nat option" where
  "str_index [] p = (if p = [] then Some 0 else None)"
| "str_index (c # s) p = (if has_prefix (c # s) p then Some 0 else map_option Suc (str_index s p))"

definition listed_cidrs :: "string \<Rightarrow> string list" where
  "listed_cidrs out =
     (case str_index out ''elements = {'' of
        None \<Rightarrow> []
      | Some i \<Rightarrow>
          let s = drop (i + length ''elements = {'') out
          in case str_index s ''}'' of
               None \<Rightarrow> []
             | Some j \<Rightarrow> filter (\<lambda>t. t \<noteq> '''') (map trim_space (str_split CHR '','' (take j s))))"

definition ListCIDRs :: "host \<Rightarrow> NFTables option \<times> cmd list \<Rightarrow> cmd list \<times> (nft_error + string list)" where
  "ListCIDRs h st =
     (if \<not> Enabled (fst st) then (snd st, Inr [])
      else case run_cmd h [''nft'', ''-a'', ''list'', ''set'', ''inet'', ''xhelix'', ''block_observe_v4''] (snd st) of
             (out, ok, tr) \<Rightarrow> (tr, if ok then Inr (listed_cidrs out) else Inl (NftListFailed out)))"

subsection \<open>Kernel log lines\<close>

definition nft_token :: "Attempt \<times> bool \<Rightarrow> string \<Rightarrow> Attempt \<times> bool" where
  "nft_token st tok =
     (case index_byte CHR ''='' tok of
        None \<Rightarrow> st
      | Some eq \<Rightarrow>
          if eq = 0 then st
          else let k = take eq tok; v = drop (eq + 1) tok; a = fst st in
            if k = ''SRC'' then (a\<lparr>at_SrcIP := v\<rparr>, True)
            else if k = ''DST'' then (a\<lparr>at_DstIP := v\<rparr>, snd st)
            else if k = ''PROTO'' then (a\<lparr>at_Proto := v\<rparr>, snd st)
            else if k = ''DPT'' then
              (case ParseUint 16 v of None \<Rightarrow> st | Some n \<Rightarrow> (a\<lparr>at_DstPort := of_nat n\<rparr>, snd st))
            else if k = ''LEN'' then
              (case ParseUint 64 v of None \<Rightarrow> st | Some n \<Rightarrow> (a\<lparr>at_Bytes := of_nat n\<rparr>, snd st))
            else st)"

definition parseNftLine :: "string \<Rightarrow> Attempt \<times> bool" where
  "parseNftLine line = foldl nft_token (zero_Attempt, False) (str_fields line)"

text \<open>The reader's loop body on one line of the kernel log.\<close>

definition log_line :: "gotime \<Rightarrow> string \<Rightarrow> SafetyNet option \<Rightarrow> SafetyNet option" where
  "log_line now line so =
     (if \<not> str_contains line ''xhelix-bo'' then so
      else case parseNftLine line of (a, ok) \<Rightarrow> if ok then RecordAttempt now a so else so)"

subsection \<open>The ring as the tail of a history\<close>

text \<open>\<open>ring_rep N r xs\<close>: the ring \<open>r\<close> with \<open>N\<close> slots after the attempts \<open>xs\<close>, oldest first.\<close>

definition ring_rep :: "nat \<Rightarrow> ring \<Rightarrow> Attempt list \<Rightarrow> bool" where
  "ring_rep N r xs \<longleftrightarrow> 0 < N \<and> length (rg_buf r) = N \<and> rg_pos r = length xs mod N \<and>
     (rg_full r \<longleftrightarrow> N \<le> length xs) \<and>
     (\<forall>j. length xs \<le> j + N \<longrightarrow> j < length xs \<longrightarrow> rg_buf r ! (j mod N) = xs ! j)"

lemma mod_ne_window: "j < L \<Longrightarrow> L < j + N \<Longrightarrow> j mod N \<noteq> L mod (N :: nat)"
  by (metis add.commute less_diff_conv2 less_imp_le_nat mod_eq_dvd_iff_nat nat_dvd_not_less zero_less_diff)

lemma ring_add_rep:
  assumes "ring_rep N r xs"
  shows "ring_rep N (ring_add a r) (xs @ [a])"
proof -
  let ?L = "length xs"
  have N: "0 < N" "length (rg_buf r) = N" "rg_pos r = ?L mod N" "rg_full r \<longleftrightarrow> N \<le> ?L"
    and w: "\<And>j. ?L \<le> j + N \<Longrightarrow> j < ?L \<Longrightarrow> rg_buf r ! (j mod N) = xs ! j"
    using assms by (auto simp: ring_rep_def)
  have buf: "rg_buf (ring_add a r) = (rg_buf r)[?L mod N := a]"
    using N by (auto simp: ring_add_def Let_def)
  have m: "?L mod N < N" "?L mod N \<le> ?L" "?L < N \<Longrightarrow> ?L mod N = ?L" using N(1) by auto
  have ne: "rg_buf r \<noteq> []" using N by auto
  have pos: "rg_pos (ring_add a r) = Suc ?L mod N"
    using m by (simp add: ring_add_def Let_def ne N(2,3) mod_Suc)
  have full: "rg_full (ring_add a r) \<longleftrightarrow> N \<le> Suc ?L"
    using m by (cases "?L < N") (auto simp: ring_add_def Let_def ne N(2,3,4))
  have "rg_buf (ring_add a r) ! (j mod N) = (xs @ [a]) ! j" if j: "Suc ?L \<le> j + N" "j < Suc ?L" for j
  proof (cases "j = ?L")
    case True
    then show ?thesis using N by (simp add: buf)
  next
    case False
    then show ?thesis using j w [of j] mod_ne_window [of j ?L N] by (simp add: buf nth_append)
  qed
  then show ?thesis using N by (simp add: ring_rep_def buf pos full)
qed

lemma walk_back_rep:
  assumes "ring_rep N r xs"
  shows "L \<le> length xs \<Longrightarrow> n \<le> L \<Longrightarrow> length xs + n \<le> L + N \<Longrightarrow>
    walk_back (rg_buf r) n (L mod N) = take n (rev (take L xs))"
proof (induction n arbitrary: L)
  case (Suc n)
  then obtain M where M: "L = Suc M" by (cases L) auto
  have N: "0 < N" "length (rg_buf r) = N" using assms by (auto simp: ring_rep_def)
  have i: "(if L mod N = 0 then length (rg_buf r) - 1 else L mod N - 1) = M mod N"
    using N by (auto simp: M mod_Suc)
  have "rg_buf r ! (M mod N) = xs ! M"
    using assms Suc.prems M by (auto simp: ring_rep_def)
  moreover have "rev (take L xs) = xs ! M # rev (take M xs)"
    using Suc.prems M by (simp add: take_Suc_conv_app_nth)
  moreover have "walk_back (rg_buf r) n (M mod N) = take n (rev (take M xs))"
    using Suc.prems M by (intro Suc.IH) auto
  ultimately show ?case by (simp add: Let_def i)
qed simp

lemma recent_rep:
  assumes "ring_rep N (sn_attempts s) xs"
  shows "RecentAttempts n (Some s) = take (nat n) (take N (rev xs))"
proof (cases "n \<le> 0")
  case False
  have N: "0 < N" "length (rg_buf (sn_attempts s)) = N" "rg_pos (sn_attempts s) = length xs mod N"
      "rg_full (sn_attempts s) \<longleftrightarrow> N \<le> length xs"
    using assms by (auto simp: ring_rep_def)
  have c: "(if rg_full (sn_attempts s) then N else rg_pos (sn_attempts s)) = min N (length xs)"
    using N by (auto simp: min_def)
  have "rg_buf (sn_attempts s) \<noteq> []" using N(1,2) by auto
  then have "RecentAttempts n (Some s) = walk_back (rg_buf (sn_attempts s))
      (min (nat n) (if rg_full (sn_attempts s) then N else rg_pos (sn_attempts s))) (rg_pos (sn_attempts s))"
    using False N(2) by (simp add: RecentAttempts_def Let_def)
  also have "\<dots> = take (min (nat n) (min N (length (rev xs)))) (rev xs)"
    unfolding c using walk_back_rep [OF assms, of "length xs" "min (nat n) (min N (length xs))"]
    by (simp add: N(3) min_le_iff_disj)
  also have "\<dots> = take (nat n) (take N (take (length (rev xs)) (rev xs)))" by (simp only: take_take)
  finally show ?thesis by simp
qed (simp add: RecentAttempts_def Let_def split: option.split)

definition stamped :: "gotime \<times> Attempt \<Rightarrow> Attempt" where
  "stamped e = (if at_Time (snd e) = 0 then (snd e)\<lparr>at_Time := fst e\<rparr> else snd e)"

lemma record_all_rep:
  assumes "ring_rep N (sn_attempts s) xs"
  shows "\<exists>s'. foldl (\<lambda>so e. RecordAttempt (fst e) (snd e) so) (Some s) es = Some s' \<and>
    ring_rep N (sn_attempts s') (xs @ map stamped es)"
  using assms
proof (induction es arbitrary: s xs)
  case (Cons e es)
  have "RecordAttempt (fst e) (snd e) (Some s) = Some (s\<lparr>sn_attempts := ring_add (stamped e) (sn_attempts s)\<rparr>)"
    by (simp add: RecordAttempt_def stamped_def)
  then show ?case
    using Cons.IH [of "s\<lparr>sn_attempts := ring_add (stamped e) (sn_attempts s)\<rparr>" "xs @ [stamped e]"]
      ring_add_rep [OF Cons.prems] by simp
qed simp

lemma New_ring: "SafetyNet_New al bl h = Inr s \<Longrightarrow> ring_rep (if h \<le> 0 then 1000 else nat h) (sn_attempts s) []"
  by (auto simp: SafetyNet_New_def Let_def ring_rep_def split: sum.splits)

subsection \<open>Allowed and blocked addresses\<close>

definition lists_disjoint :: "SafetyNet option \<Rightarrow> bool" where
  "lists_disjoint so = (case so of None \<Rightarrow> True
     | Some s \<Rightarrow> \<forall>a. \<not> (covered (sn_allow s) a \<and> covered (sn_block s) a))"

datatype sn_call =
    SAllowAlways ip
  | SIsBlocked ip
  | SRecord gotime Attempt
  | SLine gotime string
  | SRemoveAllow string
  | SAddBlock string
  | SRemoveBlock string

primrec sn_step :: "SafetyNet option \<Rightarrow> sn_call \<Rightarrow> SafetyNet option" where
  "sn_step so (SAllowAlways i) = fst (AllowAlways i so)"
| "sn_step so (SIsBlocked i) = fst (IsBlocked i so)"
| "sn_step so (SRecord now a) = RecordAttempt now a so"
| "sn_step so (SLine now l) = log_line now l so"
| "sn_step so (SRemoveAllow c) = fst (RemoveAllow c so)"
| "sn_step so (SAddBlock c) = fst (AddBlock c so)"
| "sn_step so (SRemoveBlock c) = fst (RemoveBlock c so)"

lemma covered_append: "covered (ps @ qs) a \<longleftrightarrow> covered ps a \<or> covered qs a"
  by (simp add: covered_def)

lemma covered_filter: "covered (filter P ps) a \<Longrightarrow> covered ps a"
  by (auto simp: covered_def list_ex_iff)

lemma record_disjoint: "lists_disjoint so \<Longrightarrow> lists_disjoint (RecordAttempt now a so)"
  by (auto simp: lists_disjoint_def RecordAttempt_def Let_def split: option.splits)

lemma checks_lists:
  "lists_disjoint so \<Longrightarrow> lists_disjoint (fst (AllowAlways i so))"
  "lists_disjoint so \<Longrightarrow> lists_disjoint (fst (IsBlocked i so))"
  by (auto simp: lists_disjoint_def AllowAlways_def IsBlocked_def Let_def split: option.splits)

lemma removals_disjoint:
  "lists_disjoint so \<Longrightarrow> lists_disjoint (fst (RemoveAllow c so))"
  "lists_disjoint so \<Longrightarrow> lists_disjoint (fst (RemoveBlock c so))"
  by (auto simp: lists_disjoint_def RemoveAllow_def RemoveBlock_def split: option.splits dest: covered_filter)

lemma AddBlock_disjoint: "lists_disjoint so \<Longrightarrow> lists_disjoint (fst (AddBlock c so))"
proof -
  have "find (\<lambda>q. Overlaps q p \<or> Overlaps p q) ps = None \<Longrightarrow> covered ps a \<Longrightarrow> \<not> Prefix_Contains p a" for ps p a
    using common_address_overlaps by (auto simp: find_None_iff covered_def list_ex_iff)
  then show "lists_disjoint so \<Longrightarrow> lists_disjoint (fst (AddBlock c so))"
    by (auto simp: lists_disjoint_def AddBlock_def covered_append covered_def [of "[_]"] split: option.splits)
qed

lemma sn_step_disjoint: "lists_disjoint so \<Longrightarrow> lists_disjoint (sn_step so c)"
  by (cases c) (simp_all add: checks_lists record_disjoint log_line_def removals_disjoint AddBlock_disjoint split: prod.split)

lemma New_no_blocks: "SafetyNet_New al [] h = Inr s \<Longrightarrow> lists_disjoint (Some s)"
  by (auto simp: SafetyNet_New_def Let_def lists_disjoint_def covered_def split: sum.splits)

definition fresh_net :: "string list \<Rightarrow> int \<Rightarrow> SafetyNet option" where
  "fresh_net al h = (case SafetyNet_New al [] h of Inl _ \<Rightarrow> None | Inr s \<Rightarrow> Some s)"

interpretation veto: machine "fresh_net al h" sn_step lists_disjoint for al h
proof
  show "lists_disjoint (fresh_net al h)"
    using New_no_blocks [of al h] by (auto simp: fresh_net_def lists_disjoint_def split: sum.split)
qed (rule sn_step_disjoint)

lemma check_results:
  "snd (AllowAlways i so) = (case so of None \<Rightarrow> False | Some s \<Rightarrow> covered (sn_allow s) (ipToAddr i))"
  "snd (IsBlocked i so) = (case so of None \<Rightarrow> False | Some s \<Rightarrow> covered (sn_block s) (ipToAddr i))"
  by (simp_all add: AllowAlways_def IsBlocked_def Let_def split: option.split)

subsection \<open>Allowing a printed IPv4 address\<close>

lemma last_index_None: "c \<notin> set s \<Longrightarrow> last_index c s = None"
  by (induction s) auto

lemma parsePrefix_dotted: "length bs = 4 \<Longrightarrow> parsePrefix (dotted bs) = Some \<lparr>px_addr = Addr4 bs, px_bits = 32\<rparr>"
  by (simp add: parsePrefix_def ParsePrefix_def last_index_None dotted_no_slash Parse_Addr4)

lemma ipToAddr_wf: "length i = 16 \<Longrightarrow> addr_wf (ipToAddr i)"
  by (auto simp: ipToAddr_def addr_wf_def To4_def split: option.split)

lemma To4_map4 [simp]: "To4 (map4 bs) = Some bs"
  by (simp add: To4_def map4_def)

lemma ipToAddr_4: "length i = 16 \<Longrightarrow> ipToAddr i = Addr4 bs \<longleftrightarrow> i = map4 bs"
proof
  assume "ipToAddr i = Addr4 bs"
  then have "take 12 i = replicate 10 0 @ [0xFF, 0xFF]" "drop 12 i = bs"
    by (auto simp: ipToAddr_def To4_def split: option.splits if_splits)
  then show "i = map4 bs" unfolding map4_def by (metis append.assoc append_take_drop_id)
qed (simp add: ipToAddr_def)

subsection \<open>Properties\<close>

text \<open>C35: the ring keeps exactly the newest attempts. After any sequence of recorded attempts,
  \<^verbatim>\<open>RecentAttempts(n)\<close> returns the last \<open>n\<close> of them that fit its capacity, newest first.\<close>

theorem recent_attempts_newest_first:
  "case SafetyNet_New al bl h of Inl _ \<Rightarrow> True | Inr s \<Rightarrow>
     RecentAttempts n (foldl (\<lambda>so e. RecordAttempt (fst e) (snd e) so) (Some s) es) =
       take (nat n) (take (if h \<le> 0 then 1000 else nat h) (rev (map stamped es)))"
proof (cases "SafetyNet_New al bl h")
  case (Inr s)
  obtain s' where s': "foldl (\<lambda>so e. RecordAttempt (fst e) (snd e) so) (Some s) es = Some s'"
      "ring_rep (if h \<le> 0 then 1000 else nat h) (sn_attempts s') (map stamped es)"
    using record_all_rep [OF New_ring [OF Inr], of es] by auto
  show ?thesis unfolding Inr sum.case s'(1) by (rule recent_rep [OF s'(2)])
qed simp


text \<open>An IPv4 address allowed in the form in which addresses are printed is protected, and no
  other address gains protection by it.\<close>

theorem allow_printed_address:
  assumes "length bs = 4" "length i = 16"
  shows "case AddAllow (ip_String (map4 bs)) (Some s) of (so, err) \<Rightarrow>
    err = None \<and> (snd (AllowAlways i so) \<longleftrightarrow> snd (AllowAlways i (Some s)) \<or> i = map4 bs)"
proof -
  let ?p = "\<lparr>px_addr = Addr4 bs, px_bits = 32\<rparr>"
  have p: "parsePrefix (ip_String (map4 bs)) = Some ?p"
    using assms(1) by (simp add: ip_String_def parsePrefix_dotted)
  have c: "Prefix_Contains ?p (ipToAddr i) \<longleftrightarrow> i = map4 bs"
    using host_prefix_exact [of "Addr4 bs" "ipToAddr i"] ipToAddr_wf [OF assms(2)] assms ipToAddr_4 [of i bs]
    by (simp add: addr_wf_def)
  have "?p \<in> set ps \<Longrightarrow> i = map4 bs \<Longrightarrow> covered ps (ipToAddr i)" for ps
    using c by (auto simp: covered_def list_ex_iff)
  then show ?thesis
    using c by (auto simp: AddAllow_def p check_results covered_append covered_def [of "[_]"])
qed

theorem allow_printed_address_witness:
  "snd (AllowAlways (map4 [10, 0, 0, 1])
     (fst (AddAllow (ip_String (map4 [10, 0, 0, 1])) (fresh_net [] 5)))) \<and>
   \<not> snd (AllowAlways (map4 [10, 0, 0, 2]) (fst (AddAllow (ip_String (map4 [10, 0, 0, 1])) (fresh_net [] 5))))"
proof -
  obtain s where s: "fresh_net [] 5 = Some s" "sn_allow s = []"
    by (simp add: fresh_net_def SafetyNet_New_def)
  show ?thesis
    using allow_printed_address [of "[10, 0, 0, 1]" "map4 [10, 0, 0, 1]" s]
      allow_printed_address [of "[10, 0, 0, 1]" "map4 [10, 0, 0, 2]" s]
    by (auto simp: s map4_def check_results covered_def)
qed

text \<open>
  The veto works in one direction only. Allowing an address that is already blocked, or naming one in
  both lists of the configuration, leaves it blocked; and an IPv4 address allowed in its mapped form is
  not protected, because the prefix then is an IPv6 one.
\<close>

lemma late_allow_stays_blocked:
  "case SafetyNet_New [] [''1.2.3.0/24''] 5 of Inl _ \<Rightarrow> False | Inr s \<Rightarrow>
     (let so = fst (AddAllow ''1.2.3.4'' (Some s)); i = map4 [1, 2, 3, 4]
      in snd (AllowAlways i so) \<and> snd (IsBlocked i so))"
  by code_simp

lemma mapped_text: "parsePrefix ''::ffff:1.2.3.4'' = Some \<lparr>px_addr = Addr6 (map4 [1, 2, 3, 4]), px_bits = 32\<rparr>"
proof -
  have f: "parseIPv4Fields ''1.2.3.4'' = Some [1, 2, 3, 4]" by code_simp
  have h: "is_hex CHR ''f''" "is_hex CHR ''1''" "\<not> is_hex CHR ''.''" "\<not> is_hex CHR '':''"
    by (simp_all add: is_hex_def hex_val_def)
  have x: "hex_acc ''ffff'' = 65535" by (simp add: hex_acc_def hex_val_def)
  have "ip6_loop (Suc (Suc 6)) ''ffff:1.2.3.4'' [] (Some 0) = Some ([], [255, 255, 1, 2, 3, 4], Some 0)"
    by (simp add: Let_def h x f del: Suc_numeral)
  moreover have "Suc (Suc 6) = (8 :: nat)" by simp
  ultimately have "ip6_loop 8 ''ffff:1.2.3.4'' [] (Some 0) = Some ([], [255, 255, 1, 2, 3, 4], Some 0)"
    by (simp only:)
  then have "parseIPv6 ''::ffff:1.2.3.4'' = Some (map4 [1, 2, 3, 4])"
    by (simp add: parseIPv6_def map4_def)
  then have "ParseAddr ''::ffff:1.2.3.4'' = Some (Addr6 (map4 [1, 2, 3, 4]), [])"
    by (simp add: ParseAddr_def split_zone_def index_byte_def)
  then show ?thesis by (simp add: parsePrefix_def ParsePrefix_def map4_def To4_def)
qed

lemma mapped_allow_protects_nothing:
  "case SafetyNet_New [''::ffff:1.2.3.4''] [] 5 of Inl _ \<Rightarrow> False | Inr s \<Rightarrow>
     \<not> snd (AllowAlways (map4 [1, 2, 3, 4]) (Some s))"
  by (simp add: SafetyNet_New_def mapped_text check_results covered_def Prefix_Contains_def ipToAddr_def)

end
