(* ===== verification/SecretTaint.thy ===== *)
theory SecretTaint
  imports EventModel GoNet
begin

text \<open>
  Secret taint, \<^verbatim>\<open>pkg/secrettaint\<close>: which events touch a secret (\<^verbatim>\<open>sources.go\<close>), the in-memory store of
  tainted lineages (\<^verbatim>\<open>store.go\<close>), and the stage of \<^verbatim>\<open>pkg/pipeline\<close> that feeds the one from the other
  and stamps events.

  The set of classes of a lineage is a list without duplicates. The store's lock makes each call one
  step. Log lines are left out; the reason of a promotion shows in the history, that of a forget only
  in the log.
\<close>

subsection \<open>Taint states\<close>

type_synonym SecretClass = string

abbreviation SecretEnv :: SecretClass where "SecretEnv \<equiv> ''env''"
abbreviation SecretProcEnviron :: SecretClass where "SecretProcEnviron \<equiv> ''proc_environ''"
abbreviation SecretCloudCreds :: SecretClass where "SecretCloudCreds \<equiv> ''cloud_creds''"
abbreviation SecretKubeToken :: SecretClass where "SecretKubeToken \<equiv> ''kube_token''"
abbreviation SecretGitToken :: SecretClass where "SecretGitToken \<equiv> ''git_token''"
abbreviation SecretAPIKey :: SecretClass where "SecretAPIKey \<equiv> ''api_key''"
abbreviation SecretBrowserSession :: SecretClass where "SecretBrowserSession \<equiv> ''browser_session''"
abbreviation SecretSecretFile :: SecretClass where "SecretSecretFile \<equiv> ''secret_file''"
abbreviation SecretMetadata :: SecretClass where "SecretMetadata \<equiv> ''metadata''"
abbreviation SecretSessionStore :: SecretClass where "SecretSessionStore \<equiv> ''session_store''"
abbreviation SecretWorkloadIdentity :: SecretClass where "SecretWorkloadIdentity \<equiv> ''workload_identity''"
abbreviation SecretToken :: SecretClass where "SecretToken \<equiv> ''token''"

datatype TaintState =
  TaintClean | TaintSecretTouched | TaintOutboundRestricted | TaintContainmentRequired

primrec taint_rank :: "TaintState \<Rightarrow> nat" where
  "taint_rank TaintClean = 0"
| "taint_rank TaintSecretTouched = 1"
| "taint_rank TaintOutboundRestricted = 2"
| "taint_rank TaintContainmentRequired = 3"

lemma taint_rank_inj: "taint_rank a = taint_rank b \<Longrightarrow> a = b"
  by (cases a; cases b) simp_all

instantiation TaintState :: linorder
begin

definition less_eq_TaintState :: "TaintState \<Rightarrow> TaintState \<Rightarrow> bool" where
  "less_eq_TaintState a b = (taint_rank a \<le> taint_rank b)"

definition less_TaintState :: "TaintState \<Rightarrow> TaintState \<Rightarrow> bool" where
  "less_TaintState a b = (taint_rank a < taint_rank b)"

instance
  by standard (auto simp: less_eq_TaintState_def less_TaintState_def intro: taint_rank_inj)

end

primrec TaintState_String :: "TaintState \<Rightarrow> string" where
  "TaintState_String TaintClean = ''clean''"
| "TaintState_String TaintSecretTouched = ''secret_touched''"
| "TaintState_String TaintOutboundRestricted = ''outbound_restricted''"
| "TaintState_String TaintContainmentRequired = ''containment_required''"

datatype ForgetReason = ForgetLineageExit | ForgetOperatorOverride | ForgetTTLExpiry

primrec ForgetReason_String :: "ForgetReason \<Rightarrow> string" where
  "ForgetReason_String ForgetLineageExit = ''lineage_exit''"
| "ForgetReason_String ForgetOperatorOverride = ''operator_override''"
| "ForgetReason_String ForgetTTLExpiry = ''ttl_expiry''"

record Touch =
  to_PID :: u32
  to_LineageID :: u64
  to_SourceID :: u64
  to_SecretClass :: SecretClass
  to_Path :: string
  to_At :: gotime

subsection \<open>The store\<close>

record historyRecord =
  hr_at :: gotime
  hr_kind :: string
  hr_detail :: string

record entry =
  et_state :: TaintState
  et_classes :: "SecretClass list"
  et_lastSeen :: gotime
  et_history :: "historyRecord list"

record memStore =
  ms_entries :: "(u64, entry) gomap"
  ms_maxAge :: duration

definition NewStore :: "duration \<Rightarrow> memStore" where
  "NewStore maxAge = \<lparr>ms_entries = [], ms_maxAge = maxAge\<rparr>"

definition new_entry :: entry where
  "new_entry = \<lparr>et_state = TaintClean, et_classes = [], et_lastSeen = 0, et_history = []\<rparr>"

text \<open>\<^verbatim>\<open>getOrCreate\<close> inserts a fresh entry where there is none; its callers then update it in place.\<close>

definition getOrCreate :: "u64 \<Rightarrow> memStore \<Rightarrow> entry" where
  "getOrCreate l s = go_get_or new_entry (ms_entries s) l"

definition put_entry :: "u64 \<Rightarrow> entry \<Rightarrow> memStore \<Rightarrow> memStore" where
  "put_entry l e s = s\<lparr>ms_entries := go_set l e (ms_entries s)\<rparr>"

abbreviation historyMax :: nat where "historyMax \<equiv> 16"

definition appendHistory :: "gotime \<Rightarrow> string \<Rightarrow> string \<Rightarrow> entry \<Rightarrow> entry" where
  "appendHistory at kind detail e =
     (let h = et_history e @ [\<lparr>hr_at = at, hr_kind = kind, hr_detail = detail\<rparr>]
      in e\<lparr>et_history := (if historyMax < length h then drop (length h - historyMax) h else h)\<rparr>)"

definition ObserveTouch :: "Touch \<Rightarrow> memStore \<Rightarrow> memStore" where
  "ObserveTouch t s =
     (if to_LineageID t = 0 then s
      else let e0 = getOrCreate (to_LineageID t) s;
               e1 = (if et_state e0 = TaintClean then e0\<lparr>et_state := TaintSecretTouched\<rparr> else e0);
               e2 = e1\<lparr>et_classes := List.insert (to_SecretClass t) (et_classes e1), et_lastSeen := to_At t\<rparr>
           in put_entry (to_LineageID t) (appendHistory (to_At t) ''touch'' (to_SecretClass t) e2) s)"

definition StateForLineage :: "memStore \<Rightarrow> u64 \<Rightarrow> TaintState" where
  "StateForLineage s l =
     (if l = 0 then TaintClean
      else case go_get (ms_entries s) l of None \<Rightarrow> TaintClean | Some e \<Rightarrow> et_state e)"

definition ClassesForLineage :: "memStore \<Rightarrow> u64 \<Rightarrow> SecretClass list" where
  "ClassesForLineage s l =
     (if l = 0 then []
      else case go_get (ms_entries s) l of None \<Rightarrow> [] | Some e \<Rightarrow> et_classes e)"

definition PromoteOutboundRestricted :: "u64 \<Rightarrow> gotime \<Rightarrow> string \<Rightarrow> memStore \<Rightarrow> memStore" where
  "PromoteOutboundRestricted l at reason s =
     (if l = 0 then s
      else case go_get (ms_entries s) l of
             None \<Rightarrow> s
           | Some e \<Rightarrow>
               if TaintOutboundRestricted \<le> et_state e then s
               else put_entry l (appendHistory at ''promote'' (''outbound_restricted: '' @ reason)
                      (e\<lparr>et_state := TaintOutboundRestricted, et_lastSeen := at\<rparr>)) s)"

definition PromoteContainmentRequired :: "u64 \<Rightarrow> gotime \<Rightarrow> string \<Rightarrow> memStore \<Rightarrow> memStore" where
  "PromoteContainmentRequired l at reason s =
     (if l = 0 then s
      else case go_get (ms_entries s) l of
             None \<Rightarrow> s
           | Some e \<Rightarrow>
               if TaintContainmentRequired \<le> et_state e then s
               else put_entry l (appendHistory at ''promote'' (''containment_required: '' @ reason)
                      (e\<lparr>et_state := TaintContainmentRequired, et_lastSeen := at\<rparr>)) s)"

definition InheritFromParent :: "gotime \<Rightarrow> u64 \<Rightarrow> u64 \<Rightarrow> memStore \<Rightarrow> memStore" where
  "InheritFromParent now par chi s =
     (if par = 0 \<or> chi = 0 \<or> par = chi then s
      else case go_get (ms_entries s) par of
             None \<Rightarrow> s
           | Some p \<Rightarrow>
               if et_state p = TaintClean then s
               else let c0 = getOrCreate chi s;
                        c1 = (if et_state c0 < et_state p then c0\<lparr>et_state := et_state p\<rparr> else c0);
                        c2 = c1\<lparr>et_classes := fold List.insert (et_classes p) (et_classes c1), et_lastSeen := now\<rparr>
                    in put_entry chi (appendHistory now ''inherit'' ''from parent lineage'' c2) s)"

definition ForgetLineage :: "u64 \<Rightarrow> ForgetReason \<Rightarrow> memStore \<Rightarrow> memStore \<times> bool" where
  "ForgetLineage l reason s =
     (if l = 0 then (s, False)
      else case go_get (ms_entries s) l of
             None \<Rightarrow> (s, False)
           | Some e \<Rightarrow> (s\<lparr>ms_entries := go_del l (ms_entries s)\<rparr>, et_state e \<noteq> TaintClean))"

definition Store_Size :: "memStore \<Rightarrow> nat" where
  "Store_Size s = length (ms_entries s)"

text \<open>The loop of \<^verbatim>\<open>Sweep\<close>, over the entries in any order, with the count so far.\<close>

definition Sweep_visit :: "gotime \<Rightarrow> memStore \<times> nat \<Rightarrow> u64 \<times> entry \<Rightarrow> memStore \<times> nat" where
  "Sweep_visit cutoff st e =
     (if et_lastSeen (snd e) < cutoff
      then ((fst st)\<lparr>ms_entries := go_del (fst e) (ms_entries (fst st))\<rparr>, snd st + 1) else st)"

definition Sweep :: "gotime \<Rightarrow> memStore \<Rightarrow> memStore \<times> nat" where
  "Sweep now s =
     (if ms_maxAge s \<le> 0 then (s, 0)
      else foldl (Sweep_visit (now - ms_maxAge s)) (s, 0) (ms_entries s))"

definition Store_History :: "memStore \<Rightarrow> u64 \<Rightarrow> historyRecord list" where
  "Store_History s l = (case go_get (ms_entries s) l of None \<Rightarrow> [] | Some e \<Rightarrow> et_history e)"

definition AllTainted :: "memStore \<Rightarrow> u64 list" where
  "AllTainted s = map fst (ms_entries s)"

subsection \<open>Events that touch a secret\<close>

definition isReadAction :: "Event \<Rightarrow> bool" where
  "isReadAction ev =
     (if tag ev ''kind'' = ''file_open'' \<or> tag ev ''kind'' = ''file_read'' then True
      else if tag ev ''mode'' = ''read'' \<or> tag ev ''mode'' = ''''
      then tag ev ''kind'' = ''file_open'' \<or> tag ev ''kind'' = ''''
      else False)"

definition classifyPath :: "string \<Rightarrow> SecretClass option" where
  "classifyPath path =
     (if has_prefix path ''/etc/shadow'' \<or> has_prefix path ''/etc/gshadow'' then Some SecretSecretFile
      else if str_contains path ''/.ssh/id_'' \<or> has_prefix path ''/etc/ssh/ssh_host_'' then Some SecretSecretFile
      else if str_contains path ''/.aws/credentials'' \<or> str_contains path ''/.aws/config'' \<or>
              str_contains path ''/.azure/credentials'' \<or> str_contains path ''/.gcp/credentials'' \<or>
              str_contains path ''service-account-key.json'' then Some SecretCloudCreds
      else if has_prefix path ''/var/run/secrets/kubernetes.io/'' \<or> has_prefix path ''/run/secrets/kubernetes.io/'' \<or>
              str_contains path ''/.kube/config'' then Some SecretKubeToken
      else if str_contains path ''/.git-credentials'' \<or> str_contains path ''/.netrc'' then Some SecretGitToken
      else if str_contains path ''/.docker/config.json'' \<or> str_contains path ''/.npmrc'' then Some SecretAPIKey
      else if has_suffix path ''/.env'' \<or> has_suffix path ''.env.local'' \<or> has_suffix path ''.env.production''
      then Some SecretEnv
      else if has_prefix path ''/var/lib/xhelix/credbroker/'' \<or> has_prefix path ''/run/credentials/''
      then Some SecretSessionStore
      else if str_contains path ''/var/lib/cloud/instance/sensitive-data-dir'' then Some SecretWorkloadIdentity
      else None)"

definition credbroker_class :: "string \<Rightarrow> SecretClass" where
  "credbroker_class c =
     (if c \<in> {''cloud_creds'', ''aws'', ''gcp'', ''azure''} then SecretCloudCreds
      else if c \<in> {''kube_token'', ''service_account''} then SecretKubeToken
      else if c \<in> {''git_token'', ''gh_token''} then SecretGitToken
      else if c = ''api_key'' then SecretAPIKey
      else if c = ''browser_session'' then SecretBrowserSession
      else SecretToken)"

definition file_class :: "Event \<Rightarrow> SecretClass option" where
  "file_class ev =
     (if (ev_Sensor ev = ''ebpf.file'' \<or> ev_Sensor ev = ''fim'') \<and> tag ev ''path'' \<noteq> '''' \<and> isReadAction ev
      then classifyPath (tag ev ''path'') else None)"

definition ClassifyEvent :: "Event \<Rightarrow> SecretClass option" where
  "ClassifyEvent ev =
     (if ev_Sensor ev = ''ebpf.net'' \<and>
         (tag ev ''dst_ip'' = ''169.254.169.254'' \<or> has_prefix (tag ev ''dst_ip'') ''fd00:ec2::'')
      then Some SecretMetadata
      else if ev_Sensor ev = ''procscrape'' \<or> tag ev ''proc_scrape'' = ''environ'' then Some SecretProcEnviron
      else case file_class ev of
             Some c \<Rightarrow> Some c
           | None \<Rightarrow> if ev_Sensor ev = ''credbroker'' then Some (credbroker_class (tag ev ''class'')) else None)"

subsection \<open>The stage of the event pipeline\<close>

definition lineageIDFromEvent :: "Event \<Rightarrow> u64" where
  "lineageIDFromEvent ev =
     (let sa = tag ev ''source_anchor_id'';
          own = (if ev_CGroupID ev \<noteq> 0 then ev_CGroupID ev else ucast (ev_PID ev))
      in if sa \<noteq> '''' \<and> sa \<noteq> ''0''
         then case ParseUint 64 sa of Some n \<Rightarrow> if n \<noteq> 0 then of_nat n else own | None \<Rightarrow> own
         else own)"

definition event_touch :: "Event \<Rightarrow> SecretClass \<Rightarrow> Touch" where
  "event_touch ev class =
     \<lparr>to_PID = ev_PID ev, to_LineageID = lineageIDFromEvent ev, to_SourceID = 0, to_SecretClass = class,
      to_Path = tag ev ''path'', to_At = ev_Time ev\<rparr>"

definition observe_event :: "memStore \<times> Event \<Rightarrow> memStore \<times> Event" where
  "observe_event st =
     (case ClassifyEvent (snd st) of
        None \<Rightarrow> st
      | Some class \<Rightarrow>
          if lineageIDFromEvent (snd st) \<noteq> 0
          then (ObserveTouch (event_touch (snd st) class) (fst st), set_tag ''secret_class'' class (snd st))
          else st)"

definition stamp_taint :: "memStore \<times> Event \<Rightarrow> memStore \<times> Event" where
  "stamp_taint st =
     (let l = lineageIDFromEvent (snd st); state = StateForLineage (fst st) l
      in if l \<noteq> 0 \<and> state \<noteq> TaintClean
         then (fst st, set_tag ''secret_taint'' (TaintState_String state) (snd st)) else st)"

definition taint_stage :: "memStore \<times> Event \<Rightarrow> memStore \<times> Event" where
  "taint_stage st = stamp_taint (observe_event st)"

subsection \<open>The contract of a store\<close>

text \<open>
  The contract the interface \<^verbatim>\<open>Store\<close> documents, over the states and the class sets of all lineages:
  what each operation does to the lineage it names, and that it leaves every other one alone.
\<close>

locale taint_store =
  fixes wf :: "'s \<Rightarrow> bool"
    and state :: "'s \<Rightarrow> u64 \<Rightarrow> TaintState"
    and classes :: "'s \<Rightarrow> u64 \<Rightarrow> SecretClass set"
    and touch :: "Touch \<Rightarrow> 's \<Rightarrow> 's"
    and restrict contain :: "u64 \<Rightarrow> gotime \<Rightarrow> string \<Rightarrow> 's \<Rightarrow> 's"
    and inherit :: "gotime \<Rightarrow> u64 \<Rightarrow> u64 \<Rightarrow> 's \<Rightarrow> 's"
    and forget :: "u64 \<Rightarrow> ForgetReason \<Rightarrow> 's \<Rightarrow> 's \<times> bool"
  assumes touch_wf: "wf s \<Longrightarrow> wf (touch t s)"
    and touch_state: "wf s \<Longrightarrow> to_LineageID t \<noteq> 0 \<Longrightarrow>
      state (touch t s) = (state s)(to_LineageID t := max TaintSecretTouched (state s (to_LineageID t)))"
    and touch_classes: "wf s \<Longrightarrow> to_LineageID t \<noteq> 0 \<Longrightarrow>
      classes (touch t s) = (classes s)(to_LineageID t := insert (to_SecretClass t) (classes s (to_LineageID t)))"
    and touch_zero: "to_LineageID t = 0 \<Longrightarrow> touch t s = s"
    and restrict_wf: "wf s \<Longrightarrow> wf (restrict l at r s)"
    and restrict_state: "wf s \<Longrightarrow> state (restrict l at r s) =
      (state s)(l := if state s l = TaintClean then TaintClean else max TaintOutboundRestricted (state s l))"
    and restrict_classes: "wf s \<Longrightarrow> classes (restrict l at r s) = classes s"
    and contain_wf: "wf s \<Longrightarrow> wf (contain l at r s)"
    and contain_state: "wf s \<Longrightarrow> state (contain l at r s) =
      (state s)(l := if state s l = TaintClean then TaintClean else TaintContainmentRequired)"
    and contain_classes: "wf s \<Longrightarrow> classes (contain l at r s) = classes s"
    and inherit_wf: "wf s \<Longrightarrow> wf (inherit now p c s)"
    and inherit_state: "wf s \<Longrightarrow> p \<noteq> 0 \<Longrightarrow> c \<noteq> 0 \<Longrightarrow>
      state (inherit now p c s) = (state s)(c := max (state s p) (state s c))"
    and inherit_classes: "wf s \<Longrightarrow> p \<noteq> 0 \<Longrightarrow> c \<noteq> 0 \<Longrightarrow>
      classes (inherit now p c s) = (classes s)(c := classes s p \<union> classes s c)"
    and inherit_zero: "p = 0 \<or> c = 0 \<Longrightarrow> inherit now p c s = s"
    and forget_wf: "wf s \<Longrightarrow> wf (fst (forget l why s))"
    and forget_state: "wf s \<Longrightarrow> state (fst (forget l why s)) = (state s)(l := TaintClean)"
    and forget_tells: "wf s \<Longrightarrow> snd (forget l why s) \<longleftrightarrow> state s l \<noteq> TaintClean"
begin

lemma touch_grows: "wf s \<Longrightarrow> state s l \<le> state (touch t s) l \<and> classes s l \<subseteq> classes (touch t s) l"
  by (cases "to_LineageID t = 0") (auto simp: touch_state touch_classes touch_zero)

lemma restrict_grows: "wf s \<Longrightarrow> state s l \<le> state (restrict l' at r s) l \<and> classes s l \<subseteq> classes (restrict l' at r s) l"
  by (simp add: restrict_state restrict_classes)

lemma contain_grows: "wf s \<Longrightarrow> state s l \<le> state (contain l' at r s) l \<and> classes s l \<subseteq> classes (contain l' at r s) l"
  by (cases "state s l'") (auto simp: contain_state contain_classes less_eq_TaintState_def)

lemma inherit_grows: "wf s \<Longrightarrow> state s l \<le> state (inherit now p c s) l \<and> classes s l \<subseteq> classes (inherit now p c s) l"
  by (cases "p = 0 \<or> c = 0") (auto simp: inherit_zero inherit_state inherit_classes)

lemma inherit_covers:
  "wf s \<Longrightarrow> p \<noteq> 0 \<Longrightarrow> c \<noteq> 0 \<Longrightarrow> state s p \<le> state (inherit now p c s) c \<and> classes s p \<subseteq> classes (inherit now p c s) c"
  by (simp add: inherit_state inherit_classes)

lemma promotion_needs_touch: "wf s \<Longrightarrow> state s l = TaintClean \<Longrightarrow>
    state (restrict l' at r s) l = TaintClean \<and> state (contain l' at r s) l = TaintClean"
  by (auto simp: restrict_state contain_state)

end

text \<open>The invariant of the in-memory store: every entry is tainted, named and has a short history.\<close>

definition entry_ok :: "entry \<Rightarrow> bool" where
  "entry_ok e \<longleftrightarrow> et_state e \<noteq> TaintClean \<and> et_classes e \<noteq> [] \<and> distinct (et_classes e) \<and>
     length (et_history e) \<in> {1..historyMax}"

definition tinv :: "memStore \<Rightarrow> bool" where
  "tinv s \<longleftrightarrow> go_wf (ms_entries s) \<and>
     (\<forall>l e. go_get (ms_entries s) l = Some e \<longrightarrow> l \<noteq> 0 \<and> entry_ok e)"

lemma tinv_NewStore: "tinv (NewStore m)"
  by (simp add: tinv_def NewStore_def)

lemma tinv_put: "tinv s \<Longrightarrow> l \<noteq> 0 \<Longrightarrow> entry_ok e \<Longrightarrow> tinv (put_entry l e s)"
  by (auto simp: tinv_def put_entry_def)

lemma tinv_del: "tinv s \<Longrightarrow> tinv (s\<lparr>ms_entries := go_del l (ms_entries s)\<rparr>)"
  by (auto simp: tinv_def split: if_splits)

lemma put_entry_sel [simp]:
  "ms_entries (put_entry l e s) = go_set l e (ms_entries s)" "ms_maxAge (put_entry l e s) = ms_maxAge s"
  by (simp_all add: put_entry_def)

lemma appendHistory_sel [simp]:
  "et_state (appendHistory at k d e) = et_state e" "et_classes (appendHistory at k d e) = et_classes e"
  "et_lastSeen (appendHistory at k d e) = et_lastSeen e"
  "length (et_history (appendHistory at k d e)) = min historyMax (Suc (length (et_history e)))"
  by (simp_all add: appendHistory_def Let_def)

lemma tinv_get: "tinv s \<Longrightarrow> go_get (ms_entries s) l = Some e \<Longrightarrow> l \<noteq> 0 \<and> entry_ok e"
  by (simp add: tinv_def)

lemma State_get: "tinv s \<Longrightarrow> StateForLineage s l = (case go_get (ms_entries s) l of None \<Rightarrow> TaintClean | Some e \<Rightarrow> et_state e)"
  by (auto simp: StateForLineage_def dest: tinv_get split: option.split)

lemma Classes_get: "tinv s \<Longrightarrow> ClassesForLineage s l = (case go_get (ms_entries s) l of None \<Rightarrow> [] | Some e \<Rightarrow> et_classes e)"
  by (auto simp: ClassesForLineage_def dest: tinv_get split: option.split)

lemma State_put: "l \<noteq> 0 \<Longrightarrow> StateForLineage (put_entry l e s) = (StateForLineage s)(l := et_state e)"
  by (auto simp: StateForLineage_def fun_eq_iff)

lemma Classes_put: "l \<noteq> 0 \<Longrightarrow> ClassesForLineage (put_entry l e s) = (ClassesForLineage s)(l := et_classes e)"
  by (auto simp: ClassesForLineage_def fun_eq_iff)

lemma getOrCreate_sel:
  "l \<noteq> 0 \<Longrightarrow> et_state (getOrCreate l s) = StateForLineage s l"
  "l \<noteq> 0 \<Longrightarrow> et_classes (getOrCreate l s) = ClassesForLineage s l"
  by (auto simp: getOrCreate_def go_get_or_def StateForLineage_def ClassesForLineage_def new_entry_def split: option.split)

lemma getOrCreate_distinct: "tinv s \<Longrightarrow> distinct (et_classes (getOrCreate l s))"
  using tinv_get [of s l] by (auto simp: getOrCreate_def go_get_or_def new_entry_def entry_ok_def split: option.split)

lemma TaintClean_least [simp]: "TaintClean \<le> x" "max TaintClean x = x" "max x TaintClean = x"
  "x < TaintClean \<longleftrightarrow> False"
  by (simp_all add: less_eq_TaintState_def less_TaintState_def max_def taint_rank_inj)

lemma max_not_clean: "x \<noteq> TaintClean \<Longrightarrow> max x y \<noteq> TaintClean"
  by (metis TaintClean_least(1) max.cobounded1 order_antisym)

lemma touched_le: "x \<noteq> TaintClean \<Longrightarrow> max TaintSecretTouched x = x"
  by (cases x) (simp_all add: less_eq_TaintState_def max_def)

lemma contained_greatest: "TaintContainmentRequired \<le> x \<longleftrightarrow> x = TaintContainmentRequired"
  by (cases x) (simp_all add: less_eq_TaintState_def)

lemma ObserveTouch_put:
  assumes "tinv s" "to_LineageID t \<noteq> 0"
  obtains e where "ObserveTouch t s = put_entry (to_LineageID t) e s" "entry_ok e"
    "et_state e = max TaintSecretTouched (StateForLineage s (to_LineageID t))"
    "et_classes e = List.insert (to_SecretClass t) (ClassesForLineage s (to_LineageID t))"
proof (rule that)
  let ?l = "to_LineageID t"
  let ?e1 = "if et_state (getOrCreate ?l s) = TaintClean then (getOrCreate ?l s)\<lparr>et_state := TaintSecretTouched\<rparr>
    else getOrCreate ?l s"
  let ?e = "appendHistory (to_At t) ''touch'' (to_SecretClass t)
    (?e1\<lparr>et_classes := List.insert (to_SecretClass t) (et_classes ?e1), et_lastSeen := to_At t\<rparr>)"
  show "ObserveTouch t s = put_entry ?l ?e s"
    using assms(2) by (simp add: ObserveTouch_def Let_def)
  show st: "et_state ?e = max TaintSecretTouched (StateForLineage s ?l)"
    using assms(2) touched_le by (simp add: getOrCreate_sel)
  show cl: "et_classes ?e = List.insert (to_SecretClass t) (ClassesForLineage s ?l)"
    using assms(2) by (simp add: getOrCreate_sel)
  have "max TaintSecretTouched x \<noteq> TaintClean" for x by (cases x) (simp_all add: max_def less_eq_TaintState_def)
  then show "entry_ok ?e"
    using getOrCreate_distinct [OF assms(1), of ?l] assms(2)
    unfolding entry_ok_def st cl by (auto simp: getOrCreate_sel List.insert_def)
qed

lemma InheritFromParent_put:
  assumes "tinv s" "par \<noteq> 0" "chi \<noteq> 0" "par \<noteq> chi" "StateForLineage s par \<noteq> TaintClean"
  obtains e where "InheritFromParent now par chi s = put_entry chi e s" "entry_ok e"
    "et_state e = max (StateForLineage s par) (StateForLineage s chi)"
    "set (et_classes e) = set (ClassesForLineage s par) \<union> set (ClassesForLineage s chi)"
proof -
  obtain p where p: "go_get (ms_entries s) par = Some p" "et_state p = StateForLineage s par"
      "et_classes p = ClassesForLineage s par" "entry_ok p"
    using assms State_get [of s par] Classes_get [of s par] tinv_get [of s par] by (auto split: option.splits)
  let ?c1 = "if et_state (getOrCreate chi s) < et_state p then (getOrCreate chi s)\<lparr>et_state := et_state p\<rparr>
    else getOrCreate chi s"
  let ?e = "appendHistory now ''inherit'' ''from parent lineage''
    (?c1\<lparr>et_classes := fold List.insert (et_classes p) (et_classes ?c1), et_lastSeen := now\<rparr>)"
  have f: "set (fold List.insert xs ys) = set xs \<union> set ys" "distinct ys \<Longrightarrow> distinct (fold List.insert xs ys)"
    for xs ys :: "string list" by (induction xs arbitrary: ys) auto
  have eq: "InheritFromParent now par chi s = put_entry chi ?e s"
    using assms p by (simp add: InheritFromParent_def Let_def)
  have st: "et_state ?e = max (StateForLineage s par) (StateForLineage s chi)"
    using assms(3) by (auto simp: getOrCreate_sel p max_def)
  have cl: "set (et_classes ?e) = set (ClassesForLineage s par) \<union> set (ClassesForLineage s chi)"
    using assms(3) by (simp add: getOrCreate_sel p f)
  have "set (et_classes ?e) \<noteq> {}"
    unfolding cl using p(3,4) by (simp add: entry_ok_def)
  then have "et_classes ?e \<noteq> []" by (metis list.set(1))
  moreover have "et_state ?e \<noteq> TaintClean"
    unfolding st using assms(5) by (rule max_not_clean)
  moreover have "distinct (et_classes ?e)"
    using getOrCreate_distinct [OF assms(1), of chi] by (simp add: f)
  ultimately have "entry_ok ?e" unfolding entry_ok_def by simp
  with eq show thesis using st cl by (rule that)
qed

text \<open>A promotion that has something to do replaces the entry; any other leaves the store alone.\<close>

lemma promote_put:
  assumes "tinv s" "go_get (ms_entries s) l = Some e" "x \<noteq> TaintClean"
  shows "tinv (put_entry l (appendHistory at k d (e\<lparr>et_state := x, et_lastSeen := at\<rparr>)) s)"
  using assms tinv_get [OF assms(1,2)] by (intro tinv_put) (auto simp: entry_ok_def)

lemma Restrict_effect:
  assumes "tinv s"
  shows "tinv (PromoteOutboundRestricted l at r s)"
    "StateForLineage (PromoteOutboundRestricted l at r s) = (StateForLineage s)
       (l := if StateForLineage s l = TaintClean then TaintClean else max TaintOutboundRestricted (StateForLineage s l))"
    "ClassesForLineage (PromoteOutboundRestricted l at r s) = ClassesForLineage s"
  using assms promote_put [OF assms] tinv_get [OF assms, of l]
  by (auto simp: PromoteOutboundRestricted_def State_put Classes_put State_get Classes_get fun_eq_iff entry_ok_def
      max_def split: option.split)

lemma Contain_effect:
  assumes "tinv s"
  shows "tinv (PromoteContainmentRequired l at r s)"
    "StateForLineage (PromoteContainmentRequired l at r s) = (StateForLineage s)
       (l := if StateForLineage s l = TaintClean then TaintClean else TaintContainmentRequired)"
    "ClassesForLineage (PromoteContainmentRequired l at r s) = ClassesForLineage s"
  using assms promote_put [OF assms] tinv_get [OF assms, of l]
  by (auto simp: PromoteContainmentRequired_def State_put Classes_put State_get Classes_get fun_eq_iff entry_ok_def
      contained_greatest split: option.split)

lemma Touch_effect:
  assumes "tinv s"
  shows "tinv (ObserveTouch t s)"
    "to_LineageID t \<noteq> 0 \<Longrightarrow> StateForLineage (ObserveTouch t s) =
       (StateForLineage s)(to_LineageID t := max TaintSecretTouched (StateForLineage s (to_LineageID t)))"
    "to_LineageID t \<noteq> 0 \<Longrightarrow> ClassesForLineage (ObserveTouch t s) =
       (ClassesForLineage s)(to_LineageID t := List.insert (to_SecretClass t) (ClassesForLineage s (to_LineageID t)))"
proof -
  show "tinv (ObserveTouch t s)"
  proof (cases "to_LineageID t = 0")
    case True
    then show ?thesis using assms by (simp add: ObserveTouch_def)
  next
    case False
    then show ?thesis using assms tinv_put [OF assms] by (metis ObserveTouch_put)
  qed
qed (metis ObserveTouch_put [OF assms] State_put, metis ObserveTouch_put [OF assms] Classes_put)

lemma Inherit_noop:
  assumes "tinv s" "par = 0 \<or> chi = 0 \<or> par = chi \<or> StateForLineage s par = TaintClean"
  shows "InheritFromParent now par chi s = s"
  using assms tinv_get [OF assms(1), of par]
  by (auto simp: InheritFromParent_def State_get entry_ok_def split: option.splits)

lemma clean_classes: "tinv s \<Longrightarrow> ClassesForLineage s l = [] \<longleftrightarrow> StateForLineage s l = TaintClean"
  using tinv_get [of s l] by (auto simp: State_get Classes_get entry_ok_def split: option.split)

lemma Inherit_effect:
  assumes "tinv s"
  shows "tinv (InheritFromParent now par chi s)"
    "par \<noteq> 0 \<Longrightarrow> chi \<noteq> 0 \<Longrightarrow> StateForLineage (InheritFromParent now par chi s) =
       (StateForLineage s)(chi := max (StateForLineage s par) (StateForLineage s chi))"
    "par \<noteq> 0 \<Longrightarrow> chi \<noteq> 0 \<Longrightarrow> set (ClassesForLineage (InheritFromParent now par chi s) l) =
       (if l = chi then set (ClassesForLineage s par) \<union> set (ClassesForLineage s chi) else set (ClassesForLineage s l))"
proof -
  consider "par = 0 \<or> chi = 0 \<or> par = chi \<or> StateForLineage s par = TaintClean"
    | e where "par \<noteq> 0" "chi \<noteq> 0" "InheritFromParent now par chi s = put_entry chi e s" "entry_ok e"
      "et_state e = max (StateForLineage s par) (StateForLineage s chi)"
      "set (et_classes e) = set (ClassesForLineage s par) \<union> set (ClassesForLineage s chi)"
    using InheritFromParent_put [OF assms] by metis
  note cases = this
  show "tinv (InheritFromParent now par chi s)"
    by (cases rule: cases) (use assms Inherit_noop tinv_put in auto)
  show "par \<noteq> 0 \<Longrightarrow> chi \<noteq> 0 \<Longrightarrow> StateForLineage (InheritFromParent now par chi s) =
       (StateForLineage s)(chi := max (StateForLineage s par) (StateForLineage s chi))"
    by (cases rule: cases) (use assms in \<open>auto simp: Inherit_noop State_put\<close>)
  show "par \<noteq> 0 \<Longrightarrow> chi \<noteq> 0 \<Longrightarrow> set (ClassesForLineage (InheritFromParent now par chi s) l) =
       (if l = chi then set (ClassesForLineage s par) \<union> set (ClassesForLineage s chi) else set (ClassesForLineage s l))"
    by (cases rule: cases) (use assms clean_classes [OF assms, of par] in \<open>auto simp: Inherit_noop Classes_put\<close>)
qed

lemma Forget_effect:
  assumes "tinv s"
  shows "tinv (fst (ForgetLineage l r s))"
    "StateForLineage (fst (ForgetLineage l r s)) = (StateForLineage s)(l := TaintClean)"
    "snd (ForgetLineage l r s) \<longleftrightarrow> StateForLineage s l \<noteq> TaintClean"
  using assms tinv_del [OF assms, of l]
  by (auto simp: ForgetLineage_def StateForLineage_def fun_eq_iff split: option.split)

lemma lineage_zero:
  "to_LineageID t = 0 \<Longrightarrow> ObserveTouch t s = s" "par = 0 \<or> chi = 0 \<Longrightarrow> InheritFromParent now par chi s = s"
  by (auto simp: ObserveTouch_def InheritFromParent_def)

interpretation mem: taint_store tinv StateForLineage "\<lambda>s l. set (ClassesForLineage s l)" ObserveTouch
  PromoteOutboundRestricted PromoteContainmentRequired InheritFromParent ForgetLineage
  by unfold_locales
     (auto simp: Touch_effect Restrict_effect Contain_effect Inherit_effect Forget_effect fun_eq_iff
        lineage_zero)

subsection \<open>The store over a sequence of calls\<close>

datatype taint_call =
    CTouch Touch
  | CRestrict u64 gotime string
  | CContain u64 gotime string
  | CInherit gotime u64 u64

datatype store_call = CTaint taint_call | CForget u64 ForgetReason | CSweep gotime

primrec taint_step :: "memStore \<Rightarrow> taint_call \<Rightarrow> memStore" where
  "taint_step s (CTouch t) = ObserveTouch t s"
| "taint_step s (CRestrict l at r) = PromoteOutboundRestricted l at r s"
| "taint_step s (CContain l at r) = PromoteContainmentRequired l at r s"
| "taint_step s (CInherit now p c) = InheritFromParent now p c s"

primrec store_step :: "memStore \<Rightarrow> store_call \<Rightarrow> memStore" where
  "store_step s (CTaint c) = taint_step s c"
| "store_step s (CForget l r) = fst (ForgetLineage l r s)"
| "store_step s (CSweep now) = fst (Sweep now s)"

lemma taint_step_inv: "tinv s \<Longrightarrow> tinv (taint_step s c)"
  by (cases c) (simp_all add: Touch_effect Restrict_effect Contain_effect Inherit_effect)

lemma taint_step_grows:
  "tinv s \<Longrightarrow> StateForLineage s l \<le> StateForLineage (taint_step s c) l \<and>
     set (ClassesForLineage s l) \<subseteq> set (ClassesForLineage (taint_step s c) l)"
  by (cases c) (simp_all only: taint_step.simps mem.touch_grows mem.restrict_grows mem.contain_grows mem.inherit_grows
      simp_thms)

lemma go_del_filter: "go_del k m = filter (\<lambda>e. fst e \<noteq> k) m"
  by (induction m) auto

lemma sweep_fold:
  "foldl (Sweep_visit cutoff) (s, n) xs =
     (s\<lparr>ms_entries := filter (\<lambda>e. fst e \<notin> fst ` set (filter (\<lambda>e. et_lastSeen (snd e) < cutoff) xs)) (ms_entries s)\<rparr>,
      n + length (filter (\<lambda>e. et_lastSeen (snd e) < cutoff) xs))"
  by (induction xs arbitrary: s n)
     (simp_all add: Sweep_visit_def go_del_filter conj_commute)

text \<open>\<^verbatim>\<open>Sweep\<close> keeps exactly the entries seen within the maximal age and counts the others.\<close>

lemma Sweep_exact:
  assumes "tinv s" "0 < ms_maxAge s"
  shows "Sweep now s = (s\<lparr>ms_entries := filter (\<lambda>e. now - ms_maxAge s \<le> et_lastSeen (snd e)) (ms_entries s)\<rparr>,
    length (filter (\<lambda>e. et_lastSeen (snd e) < now - ms_maxAge s) (ms_entries s)))"
proof -
  have inj: "inj_on fst (set (ms_entries s))"
    using assms(1) by (simp add: tinv_def distinct_map)
  have "fst e \<notin> fst ` set (filter P (ms_entries s)) \<longleftrightarrow> \<not> P e" if "e \<in> set (ms_entries s)" for e P
    using that inj by (auto dest: inj_onD)
  then have "filter (\<lambda>e. fst e \<notin> fst ` set (filter P (ms_entries s))) (ms_entries s) = filter (\<lambda>e. \<not> P e) (ms_entries s)" for P
    by (simp cong: filter_cong)
  then show ?thesis using assms(2) by (simp add: Sweep_def sweep_fold not_less)
qed

lemma tinv_filter: "tinv s \<Longrightarrow> tinv (s\<lparr>ms_entries := filter P (ms_entries s)\<rparr>)"
  unfolding tinv_def by (simp add: distinct_map_filter) (metis map_of_is_SomeI)

lemma Sweep_inv: "tinv s \<Longrightarrow> tinv (fst (Sweep now s))"
  by (cases "0 < ms_maxAge s") (simp_all add: Sweep_exact tinv_filter, simp add: Sweep_def)

lemma store_step_inv: "tinv s \<Longrightarrow> tinv (store_step s c)"
  by (cases c) (simp_all add: taint_step_inv Forget_effect Sweep_inv)

interpretation store: machine "NewStore m" store_step tinv for m
  by unfold_locales (simp_all add: tinv_NewStore store_step_inv)

interpretation growth: monotone_machine "NewStore m" taint_step tinv StateForLineage for m
  by unfold_locales (simp_all add: tinv_NewStore taint_step_inv taint_step_grows le_fun_def)

text \<open>The lineages that descend from those of \<open>H\<close>, by the spawns among the calls.\<close>

fun heirs :: "u64 set \<Rightarrow> taint_call list \<Rightarrow> u64 set" where
  "heirs H [] = H"
| "heirs H (CInherit now p c # cs) = heirs (if p \<in> H \<and> p \<noteq> 0 \<and> c \<noteq> 0 then insert c H else H) cs"
| "heirs H (_ # cs) = heirs H cs"

lemma heirs_covered:
  assumes "tinv s" "\<And>h. h \<in> H \<Longrightarrow> x \<le> StateForLineage s h \<and> C \<subseteq> set (ClassesForLineage s h)" "d \<in> heirs H cs"
  shows "x \<le> StateForLineage (foldl taint_step s cs) d \<and> C \<subseteq> set (ClassesForLineage (foldl taint_step s cs) d)"
  using assms
proof (induction cs arbitrary: s H)
  case Nil
  then show ?case by simp
next
  case (Cons c cs)
  let ?H = "case c of CInherit now p ch \<Rightarrow> if p \<in> H \<and> p \<noteq> 0 \<and> ch \<noteq> 0 then insert ch H else H | _ \<Rightarrow> H"
  have old: "x \<le> StateForLineage (taint_step s c) h \<and> C \<subseteq> set (ClassesForLineage (taint_step s c) h)" if "h \<in> H" for h
    using Cons.prems(2) [OF that] taint_step_grows [OF Cons.prems(1), of h c] by (meson order_trans)
  have "x \<le> StateForLineage (taint_step s c) h \<and> C \<subseteq> set (ClassesForLineage (taint_step s c) h)" if hH: "h \<in> ?H" for h
  proof (cases "h \<in> H")
    case False
    then obtain now p where "c = CInherit now p h" "p \<in> H" "p \<noteq> 0" "h \<noteq> 0"
      using hH by (auto split: taint_call.splits if_splits)
    then show ?thesis
      using Cons.prems(2) [of p] mem.inherit_covers [OF Cons.prems(1), of p h now] by (auto intro: order_trans)
  qed (rule old)
  moreover have "d \<in> heirs ?H cs" using Cons.prems(3) by (cases c) simp_all
  ultimately show ?case
    using Cons.IH [OF taint_step_inv [OF Cons.prems(1)], of ?H] by simp
qed

subsection \<open>Properties\<close>

text \<open>After any sequence of touches, promotions, spawns, forgets and sweeps, the lineages the store
  tracks are exactly the tainted ones, each once; a lineage has classes precisely when it is tainted;
  lineage 0 is never tracked; and no history is longer than 16 records.\<close>

theorem store_tracks_tainted:
  fixes cs m
  defines "s \<equiv> foldl store_step (NewStore m) cs"
  shows "distinct (AllTainted s) \<and> Store_Size s = length (AllTainted s) \<and> 0 \<notin> set (AllTainted s) \<and>
    (l \<in> set (AllTainted s) \<longleftrightarrow> StateForLineage s l \<noteq> TaintClean) \<and>
    (ClassesForLineage s l \<noteq> [] \<longleftrightarrow> StateForLineage s l \<noteq> TaintClean) \<and>
    length (Store_History s l) \<le> historyMax"
proof -
  have inv: "tinv s" unfolding s_def by (rule store.run_inv)
  have ok: "go_get (ms_entries s) k = Some e \<Longrightarrow> k \<noteq> 0 \<and> entry_ok e" for k e
    using tinv_get [OF inv] by blast
  have dom: "k \<in> set (AllTainted s) \<longleftrightarrow> (\<exists>e. go_get (ms_entries s) k = Some e)" for k
    using map_of_eq_None_iff [of "ms_entries s" k] by (simp add: AllTainted_def) (metis not_None_eq)
  have "distinct (AllTainted s)" using inv by (simp add: tinv_def AllTainted_def)
  moreover have "Store_Size s = length (AllTainted s)" by (simp add: Store_Size_def AllTainted_def)
  moreover have "0 \<notin> set (AllTainted s)" using ok dom by blast
  moreover have "l \<in> set (AllTainted s) \<longleftrightarrow> StateForLineage s l \<noteq> TaintClean"
    unfolding dom State_get [OF inv] using ok by (auto simp: entry_ok_def split: option.splits)
  moreover have "length (Store_History s l) \<le> historyMax"
    using ok [of l] by (auto simp: Store_History_def entry_ok_def split: option.split)
  ultimately show ?thesis using clean_classes [OF inv, of l] by blast
qed


text \<open>An event of a known lineage that touches a secret leaves the pipeline's taint stage with its
  lineage tainted by that class, and stamped with the class and the lineage's state; no other lineage
  changes.\<close>

theorem secret_event_taints:
  assumes "tinv s" "ClassifyEvent ev = Some c" "lineageIDFromEvent ev \<noteq> 0"
  shows "case taint_stage (s, ev) of (s', ev') \<Rightarrow>
    let l = lineageIDFromEvent ev in
      tinv s' \<and> lineageIDFromEvent ev' = l \<and> StateForLineage s' l = max TaintSecretTouched (StateForLineage s l) \<and>
      set (ClassesForLineage s' l) = insert c (set (ClassesForLineage s l)) \<and>
      tag ev' ''secret_class'' = c \<and> tag ev' ''secret_taint'' = TaintState_String (StateForLineage s' l) \<and>
      StateForLineage s' = (StateForLineage s)(l := StateForLineage s' l)"
proof -
  have keep: "k \<noteq> ''source_anchor_id'' \<Longrightarrow> lineageIDFromEvent (set_tag k v e) = lineageIDFromEvent e" for k v e
    by (simp add: lineageIDFromEvent_def) (simp add: set_tag_def)
  let ?t = "event_touch ev c"
  have t: "to_LineageID ?t = lineageIDFromEvent ev" "to_SecretClass ?t = c" by (simp_all add: event_touch_def)
  have o: "observe_event (s, ev) = (ObserveTouch ?t s, set_tag ''secret_class'' c ev)"
    using assms by (simp add: observe_event_def)
  have n: "max TaintSecretTouched x \<noteq> TaintClean" for x by (rule max_not_clean) simp
  have st: "StateForLineage (ObserveTouch ?t s) =
      (StateForLineage s)(lineageIDFromEvent ev := max TaintSecretTouched (StateForLineage s (lineageIDFromEvent ev)))"
    using Touch_effect(2) [OF assms(1), of ?t] assms(3) by (simp add: t)
  have cl: "set (ClassesForLineage (ObserveTouch ?t s) (lineageIDFromEvent ev)) =
      insert c (set (ClassesForLineage s (lineageIDFromEvent ev)))"
    using Touch_effect(3) [OF assms(1), of ?t] assms(3) by (simp add: t)
  have "taint_stage (s, ev) = (ObserveTouch ?t s,
      set_tag ''secret_taint'' (TaintState_String (max TaintSecretTouched (StateForLineage s (lineageIDFromEvent ev))))
        (set_tag ''secret_class'' c ev))"
    using assms(3) n by (simp add: taint_stage_def o stamp_taint_def keep st Let_def)
  then show ?thesis
    using Touch_effect(1) [OF assms(1)] by (simp add: keep st cl)
qed

text \<open>Concrete inputs: a touched lineage with a grandchild, and an event of the credential broker.\<close>

definition sample_touch :: Touch where
  "sample_touch = \<lparr>to_PID = 42, to_LineageID = 7, to_SourceID = 0, to_SecretClass = SecretEnv, to_Path = '''', to_At = 1\<rparr>"

definition sample_event :: Event where
  "sample_event = zero_Event\<lparr>ev_Sensor := ''credbroker'', ev_CGroupID := 7, ev_Tags := [(''class'', ''aws'')]\<rparr>"


theorem secret_event_taints_witness:
  "ClassifyEvent sample_event = Some SecretCloudCreds \<and> lineageIDFromEvent sample_event = 7 \<and>
   (case taint_stage (NewStore 0, sample_event) of (s', ev') \<Rightarrow>
      set (ClassesForLineage s' 7) = {SecretCloudCreds} \<and> tag ev' ''secret_taint'' = ''secret_touched'')"
proof -
  have t: "tag sample_event k = (if k = ''class'' then ''aws'' else [])" for k
    by (simp add: tag_def sample_event_def go_get_or_def)
  have f: "ev_Sensor sample_event = ''credbroker''" "ev_CGroupID sample_event = 7"
    by (simp_all add: sample_event_def)
  have c: "ClassifyEvent sample_event = Some SecretCloudCreds"
    by (simp add: ClassifyEvent_def file_class_def credbroker_class_def t f)
  have l: "lineageIDFromEvent sample_event = 7"
    by (simp add: lineageIDFromEvent_def t f)
  have e: "StateForLineage (NewStore 0) 7 = TaintClean" "ClassesForLineage (NewStore 0) 7 = []"
    by (simp_all add: StateForLineage_def ClassesForLineage_def NewStore_def)
  have n: "lineageIDFromEvent sample_event \<noteq> 0" by (simp add: l)
  show ?thesis
    using secret_event_taints [OF tinv_NewStore [of 0] c n]
    by (cases "taint_stage (NewStore 0, sample_event)") (simp add: Let_def c l e)
qed

end
