(* ===== verification/EgressGuard.thy ===== *)
theory EgressGuard
  imports SafetyLists SecretTaint
begin

text \<open>
  The egress guard, \<^verbatim>\<open>pkg/egressguard\<close>: the verdict on a connection (\<^verbatim>\<open>guard.go\<close>), the cache of denies
  (\<^verbatim>\<open>cache.go\<close>), the kernel backends (\<^verbatim>\<open>backend.go\<close>, \<^verbatim>\<open>nft.go\<close>), the adapter to behaviour profiles
  (\<^verbatim>\<open>profile_brp.go\<close>), and the stage of \<^verbatim>\<open>pkg/pipeline\<close> that calls the guard for a connection event.

  The package's global variables for \<^verbatim>\<open>nft\<close> are the state \<open>nftstate\<close>, with the commands run so far. An
  explanation or error text is a constructor with the values it prints, so the stage's
  \<^verbatim>\<open>egress_reason\<close> tag and the text of the alert it emits are left out. Clock readings are arguments.
  A nil safety net and an absent one act alike and are both \<open>None\<close>.
\<close>

subsection \<open>Requests and verdicts\<close>

datatype Decision = EgressAllow | EgressVerify | EgressDeny

primrec Decision_String :: "Decision \<Rightarrow> string" where
  "Decision_String EgressAllow = ''allow''"
| "Decision_String EgressVerify = ''verify''"
| "Decision_String EgressDeny = ''deny''"

datatype Mode = ModeObserve | ModeShadow | ModeEnforce

primrec Mode_String :: "Mode \<Rightarrow> string" where
  "Mode_String ModeObserve = ''observe''"
| "Mode_String ModeShadow = ''shadow''"
| "Mode_String ModeEnforce = ''enforce''"

record PolicyContext =
  pc_EgressPolicyAction :: string
  pc_TrustZoneAction :: string
  pc_PolicyID :: string
  pc_PolicyMatchedBy :: string
  pc_ZoneLabel :: string

record Request =
  rq_PID :: u32
  rq_LineageID :: u64
  rq_CGroupID :: u64
  rq_AppName :: string
  rq_AppRole :: string
  rq_DestIP :: string
  rq_DestPort :: u16
  rq_SNI :: string
  rq_DNSName :: string
  rq_DestClass :: string
  rq_AssetClass :: string
  rq_SecretTaint :: string
  rq_SourceID :: u64
  rq_At :: gotime
  rq_PolicyCtx :: PolicyContext

subsection \<open>The deny cache\<close>

record denyCache =
  dc_entries :: "(string, gotime) gomap"
  dc_maxEntries :: nat

definition newDenyCache :: denyCache where
  "newDenyCache = \<lparr>dc_entries = [], dc_maxEntries = 4096\<rparr>"

text \<open>The conversion to a rune keeps the low 32 bits of the lineage, as a signed number.\<close>

definition cacheKey :: "u64 \<Rightarrow> string \<Rightarrow> string" where
  "cacheKey lineage destKey = utf8_rune (sint (ucast lineage :: 32 word)) @ '':'' @ destKey"

definition cache_has :: "gotime \<Rightarrow> u64 \<Rightarrow> string \<Rightarrow> denyCache \<Rightarrow> denyCache \<times> bool" where
  "cache_has now lineage destKey c =
     (if destKey = '''' then (c, False)
      else let k = cacheKey lineage destKey in
        case go_get (dc_entries c) k of
          None \<Rightarrow> (c, False)
        | Some exp \<Rightarrow> if exp < now then (c\<lparr>dc_entries := go_del k (dc_entries c)\<rparr>, False) else (c, True))"

text \<open>The two eviction loops, over the entries in any order.\<close>

fun evict_expired :: "gotime \<Rightarrow> nat \<Rightarrow> (string \<times> gotime) list \<Rightarrow> (string, gotime) gomap \<Rightarrow> (string, gotime) gomap" where
  "evict_expired threshold lim [] m = m"
| "evict_expired threshold lim (e # es) m =
     (let m1 = (if snd e < threshold then go_del (fst e) m else m)
      in if length m1 < lim then m1 else evict_expired threshold lim es m1)"

fun evict_any :: "nat \<Rightarrow> (string \<times> gotime) list \<Rightarrow> (string, gotime) gomap \<Rightarrow> (string, gotime) gomap" where
  "evict_any lim [] m = m"
| "evict_any lim (e # es) m = (if length m < lim then m else evict_any lim es (go_del (fst e) m))"

definition cache_evict :: "gotime \<Rightarrow> denyCache \<Rightarrow> (string, gotime) gomap" where
  "cache_evict threshold c =
     (let m = dc_entries c; lim = dc_maxEntries c * 9 div 10
      in if dc_maxEntries c \<le> length m
         then let m1 = evict_expired threshold lim m m in evict_any lim m1 m1
         else m)"

definition cache_add :: "gotime \<Rightarrow> gotime \<Rightarrow> u64 \<Rightarrow> string \<Rightarrow> duration \<Rightarrow> denyCache \<Rightarrow> denyCache" where
  "cache_add threshold now lineage destKey ttl c =
     (if destKey = '''' \<or> ttl \<le> 0 then c
      else c\<lparr>dc_entries := go_set (cacheKey lineage destKey) (now + ttl) (cache_evict threshold c)\<rparr>)"

definition cache_Size :: "denyCache \<Rightarrow> nat" where
  "cache_Size c = length (dc_entries c)"

subsection \<open>The nft helpers\<close>

datatype egress_error =
    ErrEBPFNotImplemented
  | NftNotOnPath
  | NftBinaryNotAvailable
  | NftCommand cmd string
  | NftRuleV4 string
  | NftRuleV6 string
  | NftAddElement string
  | NftDelElement string
  | NftEnsure egress_error
  | DestNotIP string

record nftstate =
  ns_probed :: bool
  ns_path :: string
  ns_ensured :: bool
  ns_tableErr :: "egress_error option"
  ns_trace :: "cmd list"

definition nft_start :: nftstate where
  "nft_start = \<lparr>ns_probed = False, ns_path = '''', ns_ensured = False, ns_tableErr = None, ns_trace = []\<rparr>"

abbreviation nftTable :: string where "nftTable \<equiv> ''xhelix_egress''"
abbreviation nftChain :: string where "nftChain \<equiv> ''xhelix_egress_out''"
abbreviation nftSetV4 :: string where "nftSetV4 \<equiv> ''xhelix_egress_deny_v4''"
abbreviation nftSetV6 :: string where "nftSetV6 \<equiv> ''xhelix_egress_deny_v6''"

definition nft_probe :: "host \<Rightarrow> nftstate \<Rightarrow> nftstate" where
  "nft_probe h n =
     (if ns_probed n then n
      else n\<lparr>ns_probed := True, ns_path := (case ho_LookPath h ''nft'' of None \<Rightarrow> ns_path n | Some p \<Rightarrow> p)\<rparr>)"

definition nftBinaryAvailable :: "host \<Rightarrow> nftstate \<Rightarrow> nftstate \<times> bool" where
  "nftBinaryAvailable h n = (let n1 = nft_probe h n in (n1, ns_path n1 \<noteq> ''''))"

text \<open>One command of the binary: its output, whether it succeeded, and the state with it on the trace.\<close>

definition nft_run :: "host \<Rightarrow> string list \<Rightarrow> nftstate \<Rightarrow> string \<times> bool \<times> nftstate" where
  "nft_run h args n =
     (case run_cmd h (ns_path n # args) (ns_trace n) of (out, ok, tr) \<Rightarrow> (out, ok, n\<lparr>ns_trace := tr\<rparr>))"

definition table_cmds :: "string list list" where
  "table_cmds =
    [[''add'', ''table'', ''inet'', nftTable],
     [''add'', ''set'', ''inet'', nftTable, nftSetV4, ''{ type ipv4_addr; flags timeout; }''],
     [''add'', ''set'', ''inet'', nftTable, nftSetV6, ''{ type ipv6_addr; flags timeout; }''],
     [''add'', ''chain'', ''inet'', nftTable, nftChain, ''{ type filter hook output priority 0; policy accept; }'']]"

fun create_table :: "host \<Rightarrow> string list list \<Rightarrow> nftstate \<Rightarrow> nftstate \<times> egress_error option" where
  "create_table h [] n = (n, None)"
| "create_table h (c # cs) n =
     (case nft_run h c n of (out, ok, n1) \<Rightarrow>
        if \<not> ok \<and> \<not> str_contains out ''File exists'' then (n1, Some (NftCommand c out)) else create_table h cs n1)"

definition add_rules :: "host \<Rightarrow> nftstate \<Rightarrow> nftstate \<times> egress_error option" where
  "add_rules h n =
     (case nft_run h [''flush'', ''chain'', ''inet'', nftTable, nftChain] n of (_, _, n1) \<Rightarrow>
      case nft_run h [''add'', ''rule'', ''inet'', nftTable, nftChain, ''ip'', ''daddr'', ''@'' @ nftSetV4, ''drop''] n1 of
        (out4, ok4, n2) \<Rightarrow>
          if \<not> ok4 then (n2, Some (NftRuleV4 out4))
          else case nft_run h [''add'', ''rule'', ''inet'', nftTable, nftChain, ''ip6'', ''daddr'', ''@'' @ nftSetV6, ''drop''] n2 of
                 (out6, ok6, n3) \<Rightarrow> (n3, if ok6 then None else Some (NftRuleV6 out6)))"

text \<open>What \<^verbatim>\<open>ensureNFTTable\<close> does the first time; its result is kept for every later call.\<close>

definition ensure_once :: "host \<Rightarrow> nftstate \<Rightarrow> nftstate \<times> egress_error option" where
  "ensure_once h n =
     (case nftBinaryAvailable h n of (n1, ok) \<Rightarrow>
        if \<not> ok then (n1, Some NftBinaryNotAvailable)
        else case create_table h table_cmds n1 of
               (n2, Some e) \<Rightarrow> (n2, Some e)
             | (n2, None) \<Rightarrow> add_rules h n2)"

definition ensureNFTTable :: "host \<Rightarrow> nftstate \<Rightarrow> nftstate \<times> egress_error option" where
  "ensureNFTTable h n =
     (if ns_ensured n then (n, ns_tableErr n)
      else case ensure_once h n of (n1, err) \<Rightarrow> (n1\<lparr>ns_ensured := True, ns_tableErr := err\<rparr>, err))"

definition int_str :: "int \<Rightarrow> string" where
  "int_str n = (if n < 0 then CHR ''-'' # dec_str (nat (- n)) else dec_str (nat n))"

definition nft_set_for :: "ip \<Rightarrow> string" where
  "nft_set_for i = (if To4 i = None then nftSetV6 else nftSetV4)"

text \<open>
  The commands on one address. Whole seconds of the TTL are taken by integer division; the source
  goes through a floating point number, which agrees for every TTL below 97 days.
\<close>

definition add_element :: "ip \<Rightarrow> duration \<Rightarrow> string list" where
  "add_element i ttl = [''add'', ''element'', ''inet'', nftTable, nft_set_for i,
     ''{ '' @ ip_String i @ '' timeout '' @ int_str (ttl sdiv second) @ ''s }'']"

definition del_element :: "ip \<Rightarrow> string list" where
  "del_element i = [''delete'', ''element'', ''inet'', nftTable, nft_set_for i, ''{ '' @ ip_String i @ '' }'']"

definition nftAddDeny :: "host \<Rightarrow> string \<Rightarrow> duration \<Rightarrow> nftstate \<Rightarrow> nftstate \<times> egress_error option" where
  "nftAddDeny h dest ttl n =
     (case ParseIP dest of
        None \<Rightarrow> (n, Some (DestNotIP dest))
      | Some i \<Rightarrow>
          case nft_run h (add_element i ttl) n of (out, ok, n1) \<Rightarrow> (n1, if ok then None else Some (NftAddElement out)))"

definition nftDelDeny :: "host \<Rightarrow> string \<Rightarrow> nftstate \<Rightarrow> nftstate \<times> egress_error option" where
  "nftDelDeny h dest n =
     (case ParseIP dest of
        None \<Rightarrow> (n, Some (DestNotIP dest))
      | Some i \<Rightarrow>
          case nft_run h (del_element i) n of (out, ok, n1) \<Rightarrow>
            (n1, if ok \<or> str_contains out ''No such file'' \<or> str_contains out ''does not exist''
                 then None else Some (NftDelElement out)))"

subsection \<open>The backends\<close>

datatype Backend = EBPFBackend Mode | NFTBackend Mode | ObserveBackend Mode

primrec Backend_Name :: "Backend \<Rightarrow> string" where
  "Backend_Name (EBPFBackend m) = ''ebpf-cgroup-connect''"
| "Backend_Name (NFTBackend m) = ''nftables''"
| "Backend_Name (ObserveBackend m) = ''observe''"

primrec Backend_Mode :: "Backend \<Rightarrow> Mode" where
  "Backend_Mode (EBPFBackend m) = m"
| "Backend_Mode (NFTBackend m) = m"
| "Backend_Mode (ObserveBackend m) = m"

primrec SetMode :: "Mode \<Rightarrow> Backend \<Rightarrow> Backend" where
  "SetMode m (EBPFBackend _) = EBPFBackend m"
| "SetMode m (NFTBackend _) = NFTBackend m"
| "SetMode m (ObserveBackend _) = ObserveBackend m"

primrec Available :: "host \<Rightarrow> Backend \<Rightarrow> nftstate \<Rightarrow> nftstate \<times> egress_error option" where
  "Available h (EBPFBackend m) n = (n, Some ErrEBPFNotImplemented)"
| "Available h (NFTBackend m) n = (case nftBinaryAvailable h n of (n1, ok) \<Rightarrow> (n1, if ok then None else Some NftNotOnPath))"
| "Available h (ObserveBackend m) n = (n, None)"

definition nft_Push :: "host \<Rightarrow> Mode \<Rightarrow> string \<Rightarrow> duration \<Rightarrow> nftstate \<Rightarrow> nftstate \<times> egress_error option" where
  "nft_Push h m dest ttl n =
     (if m = ModeObserve \<or> m = ModeShadow then (n, None)
      else case ensureNFTTable h n of
             (n1, Some e) \<Rightarrow> (n1, Some (NftEnsure e))
           | (n1, None) \<Rightarrow> nftAddDeny h dest ttl n1)"

primrec Push :: "host \<Rightarrow> Backend \<Rightarrow> u64 \<Rightarrow> string \<Rightarrow> duration \<Rightarrow> nftstate \<Rightarrow> nftstate \<times> egress_error option" where
  "Push h (EBPFBackend m) cgroup dest ttl n = (n, Some ErrEBPFNotImplemented)"
| "Push h (NFTBackend m) cgroup dest ttl n = nft_Push h m dest ttl n"
| "Push h (ObserveBackend m) cgroup dest ttl n = (n, None)"

primrec Remove :: "host \<Rightarrow> Backend \<Rightarrow> u64 \<Rightarrow> string \<Rightarrow> nftstate \<Rightarrow> nftstate \<times> egress_error option" where
  "Remove h (EBPFBackend m) cgroup dest n = (n, Some ErrEBPFNotImplemented)"
| "Remove h (NFTBackend m) cgroup dest n =
     (if m = ModeObserve \<or> m = ModeShadow then (n, None) else nftDelDeny h dest n)"
| "Remove h (ObserveBackend m) cgroup dest n = (n, None)"

fun pick_backend :: "host \<Rightarrow> Mode \<Rightarrow> Backend list \<Rightarrow> nftstate \<Rightarrow> nftstate \<times> Backend \<times> string" where
  "pick_backend h m [] n = (n, ObserveBackend m, Backend_Name (ObserveBackend m))"
| "pick_backend h m (c # cs) n =
     (case Available h c n of
        (n1, None) \<Rightarrow> (n1, c, Backend_Name c)
      | (n1, Some _) \<Rightarrow> pick_backend h m cs n1)"

definition SelectBackend :: "host \<Rightarrow> Mode \<Rightarrow> nftstate \<Rightarrow> nftstate \<times> Backend \<times> string" where
  "SelectBackend h m n = pick_backend h m [EBPFBackend m, NFTBackend m, ObserveBackend m] n"

subsection \<open>The guard\<close>

text \<open>The two fields of a behaviour profile the adapter reads; an absent matcher is \<open>None\<close>.\<close>

record BRPProfile =
  bp_Role :: string
  bp_UpstreamHosts :: "string list"

definition UpstreamHostsForRole :: "BRPProfile list option \<Rightarrow> string \<Rightarrow> string list" where
  "UpstreamHostsForRole matcher role =
     (if matcher = None \<or> role = '''' then []
      else case find (\<lambda>p. bp_Role p = role) (the matcher) of None \<Rightarrow> [] | Some p \<Rightarrow> bp_UpstreamHosts p)"

record guard =
  gd_backend :: Backend
  gd_mode :: Mode
  gd_cache :: denyCache
  gd_profiles :: "(string \<Rightarrow> string list) option"
  gd_protectedRoles :: "(string, bool) gomap"
  gd_safetynet :: "SafetyNet option"

definition defaultProtectedRoles :: "(string, bool) gomap" where
  "defaultProtectedRoles = map (\<lambda>r. (r, True))
    [''nginx-static'', ''nginx-reverse-proxy'', ''nginx-fastcgi'', ''nginx-lua'', ''nginx-njs'',
     ''nginx-grpc-proxy'', ''apache-static'', ''apache-reverse-proxy'', ''apache-cgi'', ''apache-fastcgi'',
     ''apache-wsgi'', ''mysql-default'', ''mysql-primary'', ''mysql-replica'', ''mysql-galera'',
     ''postgres-default'', ''redis-default'', ''sshd-permissive'', ''sshd-strict'']"

definition NewGuard :: "Backend option \<Rightarrow> (string \<Rightarrow> string list) option \<Rightarrow> Mode \<Rightarrow> guard" where
  "NewGuard backend profiles mode =
     (let b = (case backend of None \<Rightarrow> ObserveBackend mode | Some b \<Rightarrow> b)
      in \<lparr>gd_backend = SetMode mode b, gd_mode = mode, gd_cache = newDenyCache, gd_profiles = profiles,
          gd_protectedRoles = defaultProtectedRoles, gd_safetynet = None\<rparr>)"

definition SetSafetyNet :: "SafetyNet option \<Rightarrow> guard \<Rightarrow> guard" where
  "SetSafetyNet s g = g\<lparr>gd_safetynet := s\<rparr>"

definition SetProtectedRoles :: "string list \<Rightarrow> guard \<Rightarrow> guard" where
  "SetProtectedRoles roles g =
     g\<lparr>gd_protectedRoles := foldl (\<lambda>m r. go_set r True m) [] roles\<rparr>"

definition ProtectedRoles :: "guard \<Rightarrow> string list" where
  "ProtectedRoles g = map fst (gd_protectedRoles g)"

definition isLoopbackOrPrivate :: "string \<Rightarrow> bool" where
  "isLoopbackOrPrivate s =
     (if s = '''' then False
      else if s = ''169.254.169.254'' \<or> has_prefix s ''fd00:ec2::'' then False
      else case ParseIP s of
             None \<Rightarrow> False
           | Some i \<Rightarrow> IsLoopback i \<or> IsPrivate i \<or> IsLinkLocalUnicast i)"

definition splitHostPort :: "string \<Rightarrow> string \<times> string" where
  "splitHostPort decl =
     (case last_index CHR '':'' decl of
        Some i \<Rightarrow> if length (filter (\<lambda>c. c = CHR '':'') decl) = 1 then (take i decl, drop (i + 1) decl) else (decl, '''')
      | None \<Rightarrow> (decl, ''''))"

definition hostMatch :: "string \<Rightarrow> string \<Rightarrow> bool" where
  "hostMatch declared observed \<longleftrightarrow> declared = observed \<or>
     (has_prefix declared ''*.'' \<and> has_suffix observed (drop 1 declared))"

definition matchesDeclaredPeer :: "string list \<Rightarrow> Request \<Rightarrow> bool" where
  "matchesDeclaredPeer declared r =
     list_ex (\<lambda>d. d \<noteq> '''' \<and>
       (let (host, port) = splitHostPort d
        in list_ex (\<lambda>name. name \<noteq> '''' \<and> hostMatch host name \<and>
             (port = '''' \<or> port = ''*'' \<or> port = dec_str (unat (rq_DestPort r))))
           [rq_DestIP r, rq_DNSName r, rq_SNI r])) declared"

definition host_port :: "string \<Rightarrow> u16 \<Rightarrow> string" where
  "host_port h p = h @ '':'' @ dec_str (unat p)"

definition destKey :: "Request \<Rightarrow> string" where
  "destKey r =
     (if rq_SNI r \<noteq> '''' then host_port (rq_SNI r) (rq_DestPort r)
      else if rq_DNSName r \<noteq> '''' then host_port (rq_DNSName r) (rq_DestPort r)
      else if rq_DestIP r \<noteq> '''' then host_port (rq_DestIP r) (rq_DestPort r)
      else '''')"

definition destKeyToIP :: "string \<Rightarrow> string" where
  "destKeyToIP key = (case last_index CHR '':'' key of Some i \<Rightarrow> take i key | None \<Rightarrow> key)"

text \<open>The explanations, with the values their texts print.\<close>

datatype reason =
    EgressPolicy string
  | ZoneForbids string
  | ZoneTorOnly
  | ZoneVerify string
  | PrivateOrLoopback
  | ProtectedRawIP string string
  | SecretTainted string
  | DeclaredUpstream
  | UndeclaredPeer string string
  | Unrestricted

definition policy_verdict :: "PolicyContext \<Rightarrow> (Decision \<times> reason) option" where
  "policy_verdict p =
     (if pc_EgressPolicyAction p = ''deny'' then Some (EgressDeny, EgressPolicy (pc_PolicyMatchedBy p))
      else if pc_EgressPolicyAction p = ''allow'' then Some (EgressAllow, EgressPolicy (pc_PolicyID p))
      else if pc_EgressPolicyAction p = ''verify'' then Some (EgressVerify, EgressPolicy (pc_PolicyMatchedBy p))
      else if pc_TrustZoneAction p = ''deny'' then Some (EgressDeny, ZoneForbids (pc_ZoneLabel p))
      else if pc_TrustZoneAction p = ''tor_require'' then Some (EgressDeny, ZoneTorOnly)
      else if pc_TrustZoneAction p = ''verify'' then Some (EgressVerify, ZoneVerify (pc_ZoneLabel p))
      else None)"

definition profile_verdict :: "guard \<Rightarrow> Request \<Rightarrow> Decision \<times> reason" where
  "profile_verdict g r =
     (case gd_profiles g of
        None \<Rightarrow> (EgressAllow, Unrestricted)
      | Some lookup \<Rightarrow>
          if rq_AppRole r = '''' then (EgressAllow, Unrestricted)
          else let declared = lookup (rq_AppRole r) in
            if declared = [] then (EgressAllow, Unrestricted)
            else if matchesDeclaredPeer declared r then (EgressAllow, DeclaredUpstream)
            else (EgressVerify, UndeclaredPeer (rq_AppRole r) (destKey r)))"

definition Decide :: "Request \<Rightarrow> guard \<Rightarrow> Decision \<times> reason" where
  "Decide r g =
     (case policy_verdict (rq_PolicyCtx r) of
        Some v \<Rightarrow> v
      | None \<Rightarrow>
          if isLoopbackOrPrivate (rq_DestIP r) then (EgressAllow, PrivateOrLoopback)
          else if go_get_or False (gd_protectedRoles g) (rq_AppRole r) \<and> rq_SNI r = '''' \<and> rq_DNSName r = '''' \<and>
                  rq_DestIP r \<noteq> ''''
          then (EgressDeny, ProtectedRawIP (rq_AppRole r) (rq_DestIP r))
          else if rq_SecretTaint r = ''outbound_restricted'' \<or> rq_SecretTaint r = ''containment_required''
          then (EgressDeny, SecretTainted (rq_SecretTaint r))
          else profile_verdict g r)"

subsection \<open>Applying a deny\<close>

text \<open>The clock readings of one call: in the lookup, and the two of the insertion.\<close>

record clock =
  ck_has :: gotime
  ck_evict :: gotime
  ck_add :: gotime

definition vetoed :: "string \<Rightarrow> guard \<Rightarrow> guard \<times> bool" where
  "vetoed key g =
     (case gd_safetynet g of
        None \<Rightarrow> (g, False)
      | Some s \<Rightarrow>
          if destKeyToIP key = '''' then (g, False)
          else case ParseIP (destKeyToIP key) of
                 None \<Rightarrow> (g, False)
               | Some i \<Rightarrow> case AllowAlways i (Some s) of (so, yes) \<Rightarrow> (g\<lparr>gd_safetynet := so\<rparr>, yes))"

definition ApplyDeny ::
    "host \<Rightarrow> clock \<Rightarrow> u64 \<Rightarrow> string \<Rightarrow> duration \<Rightarrow> guard \<times> nftstate \<Rightarrow> (guard \<times> nftstate) \<times> egress_error option" where
  "ApplyDeny h ck lineage key ttl st =
     (case vetoed key (fst st) of (g1, veto) \<Rightarrow>
        if veto then ((g1, snd st), None)
        else case cache_has (ck_has ck) lineage key (gd_cache g1) of (c1, hit) \<Rightarrow>
          let g2 = g1\<lparr>gd_cache := c1\<rparr> in
          if hit then ((g2, snd st), None)
          else let g3 = g2\<lparr>gd_cache := cache_add (ck_evict ck) (ck_add ck) lineage key ttl c1\<rparr> in
            if gd_mode g3 \<noteq> ModeEnforce then ((g3, snd st), None)
            else if destKeyToIP key = '''' then ((g3, snd st), Some (DestNotIP key))
            else case Push h (gd_backend g3) lineage (destKeyToIP key) ttl (snd st) of (n1, err) \<Rightarrow> ((g3, n1), err))"

subsection \<open>The stage of the event pipeline\<close>

definition egress_request :: "Event \<Rightarrow> Request" where
  "egress_request ev =
     \<lparr>rq_PID = ev_PID ev, rq_LineageID = lineageIDFromEvent ev, rq_CGroupID = ev_CGroupID ev,
      rq_AppName = tag ev ''app_name'', rq_AppRole = tag ev ''app_role'', rq_DestIP = tag ev ''dst_ip'',
      rq_DestPort = (if tag ev ''dst_port'' = '''' then 0
        else case ParseUint 16 (tag ev ''dst_port'') of None \<Rightarrow> 0 | Some n \<Rightarrow> of_nat n),
      rq_SNI = tag ev ''sni'', rq_DNSName = tag ev ''dst_dns'', rq_DestClass = tag ev ''dest_class'',
      rq_AssetClass = tag ev ''asset_class'', rq_SecretTaint = tag ev ''secret_taint'', rq_SourceID = 0,
      rq_At = ev_Time ev,
      rq_PolicyCtx = \<lparr>pc_EgressPolicyAction = tag ev ''egress_policy_action'',
        pc_TrustZoneAction = tag ev ''trustzone_action'', pc_PolicyID = tag ev ''egress_policy_id'',
        pc_PolicyMatchedBy = tag ev ''egress_policy_matched_by'', pc_ZoneLabel = tag ev ''trustzone_label''\<rparr>\<rparr>"

text \<open>The state and the event after the stage, and the rule of the alert it emits, if any.\<close>

definition egress_stage ::
    "host \<Rightarrow> clock \<Rightarrow> Event \<Rightarrow> guard \<times> nftstate \<Rightarrow> (guard \<times> nftstate) \<times> Event \<times> string option" where
  "egress_stage h ck ev st =
     (if ev_Sensor ev \<noteq> ''ebpf.net'' \<or> tag ev ''kind'' \<noteq> ''net_connect'' then (st, ev, None)
      else let req = egress_request ev; d = fst (Decide req (fst st));
               ev1 = set_tag ''egress_decision'' (Decision_String d) ev
           in if d = EgressDeny
              then case ApplyDeny h ck (rq_LineageID req) (host_port (rq_DestIP req) (rq_DestPort req)) (5 * minute) st of
                     (st1, _) \<Rightarrow> (st1, ev1,
                       Some (if gd_mode (fst st1) = ModeEnforce then ''egressguard.deny'' else ''egressguard.shadow_deny''))
              else (st, ev1, None))"

subsection \<open>The contract of a backend\<close>

text \<open>The commands that set the table up, whatever the path of the binary.\<close>

definition setup_args :: "string list list" where
  "setup_args = table_cmds @
     [[''flush'', ''chain'', ''inet'', nftTable, nftChain],
      [''add'', ''rule'', ''inet'', nftTable, nftChain, ''ip'', ''daddr'', ''@'' @ nftSetV4, ''drop''],
      [''add'', ''rule'', ''inet'', nftTable, nftChain, ''ip6'', ''daddr'', ''@'' @ nftSetV6, ''drop'']]"

definition push_cmd :: "string \<Rightarrow> duration \<Rightarrow> cmd \<Rightarrow> bool" where
  "push_cmd dest ttl c \<longleftrightarrow> tl c \<in> set setup_args \<or> (\<exists>i. ParseIP dest = Some i \<and> tl c = add_element i ttl)"

definition adds :: "(cmd \<Rightarrow> bool) \<Rightarrow> nftstate \<Rightarrow> nftstate \<Rightarrow> bool" where
  "adds P n n' \<longleftrightarrow> (\<exists>tr. ns_trace n' = ns_trace n @ tr \<and> list_all P tr)"

lemma adds_refl [simp]: "adds P n n"
  by (simp add: adds_def)

lemma adds_trans: "adds P n n1 \<Longrightarrow> adds P n1 n2 \<Longrightarrow> adds P n n2"
  unfolding adds_def by fastforce

lemma adds_mono: "adds P n n' \<Longrightarrow> (\<And>c. P c \<Longrightarrow> Q c) \<Longrightarrow> adds Q n n'"
  by (auto simp: adds_def list_all_iff)

lemma adds_same_trace: "ns_trace n' = ns_trace n \<Longrightarrow> adds P n n'"
  by (simp add: adds_def)

text \<open>
  What the guard relies on: a push runs only commands for the destination it was given, or the set-up
  of the table, and none at all outside enforce mode.
\<close>

locale egress_backend =
  fixes push :: "Mode \<Rightarrow> string \<Rightarrow> duration \<Rightarrow> nftstate \<Rightarrow> nftstate \<times> egress_error option"
  assumes push_adds: "adds (push_cmd dest ttl) n (fst (push m dest ttl n))"
    and push_quiet: "m \<noteq> ModeEnforce \<Longrightarrow> fst (push m dest ttl n) = n"
begin

lemma push_no_ip: "ParseIP dest = None \<Longrightarrow> adds (\<lambda>c. tl c \<in> set setup_args) n (fst (push m dest ttl n))"
  by (rule adds_mono [OF push_adds]) (simp add: push_cmd_def)

end

lemma nft_run_adds: "P (ns_path n # args) \<Longrightarrow> adds P n (snd (snd (nft_run h args n)))"
  by (simp add: adds_def nft_run_def case_prod_beta)

lemma create_table_adds:
  "list_all (\<lambda>c. c \<in> set setup_args) cs \<Longrightarrow> adds (\<lambda>c. tl c \<in> set setup_args) n (fst (create_table h cs n))"
proof (induction cs arbitrary: n)
  case (Cons c cs)
  have "adds (\<lambda>c. tl c \<in> set setup_args) n (snd (snd (nft_run h c n)))"
    using Cons.prems by (intro nft_run_adds) simp
  then show ?case using Cons by (auto simp: case_prod_beta intro: adds_trans)
qed simp

lemma probe_trace [simp]: "ns_trace (fst (nftBinaryAvailable h n)) = ns_trace n"
  by (simp add: nftBinaryAvailable_def nft_probe_def Let_def)

lemma rule_args_setup:
  "[''flush'', ''chain'', ''inet'', nftTable, nftChain] \<in> set setup_args"
  "[''add'', ''rule'', ''inet'', nftTable, nftChain, ''ip'', ''daddr'', ''@'' @ nftSetV4, ''drop''] \<in> set setup_args"
  "[''add'', ''rule'', ''inet'', nftTable, nftChain, ''ip6'', ''daddr'', ''@'' @ nftSetV6, ''drop''] \<in> set setup_args"
  by (simp_all only: setup_args_def set_append list.set Un_iff insert_iff simp_thms)

lemma add_rules_adds: "adds (\<lambda>c. tl c \<in> set setup_args) n (fst (add_rules h n))"
proof -
  note step = nft_run_adds [where P = "\<lambda>c. tl c \<in> set setup_args" and h = h, unfolded list.sel]
  note 1 = step [OF rule_args_setup(1), of n]
  note 2 = adds_trans [OF 1 step [OF rule_args_setup(2)]]
  note 3 = adds_trans [OF 2 step [OF rule_args_setup(3)]]
  show ?thesis
    unfolding add_rules_def case_prod_beta using 2 3 by (simp only: fst_conv split: if_split) blast
qed

lemma table_cmds_setup: "list_all (\<lambda>c. c \<in> set setup_args) table_cmds"
  by (simp add: list_all_iff setup_args_def)

lemma ensure_once_adds: "adds (\<lambda>c. tl c \<in> set setup_args) n (fst (ensure_once h n))"
proof -
  let ?n1 = "fst (nftBinaryAvailable h n)"
  have 1: "adds (\<lambda>c. tl c \<in> set setup_args) n ?n1" by (rule adds_same_trace) simp
  have 2: "adds (\<lambda>c. tl c \<in> set setup_args) n (fst (create_table h table_cmds ?n1))"
    using adds_trans [OF 1 create_table_adds [OF table_cmds_setup]] .
  then have 3: "adds (\<lambda>c. tl c \<in> set setup_args) n (fst (add_rules h (fst (create_table h table_cmds ?n1))))"
    using add_rules_adds adds_trans by blast
  show ?thesis
    using 1 2 3 by (simp add: ensure_once_def case_prod_beta split: option.split)
qed

lemma ensureNFTTable_adds: "adds (\<lambda>c. tl c \<in> set setup_args) n (fst (ensureNFTTable h n))"
  using ensure_once_adds [of n h] by (simp add: ensureNFTTable_def case_prod_beta adds_def)

lemma nftAddDeny_adds: "adds (push_cmd dest ttl) n (fst (nftAddDeny h dest ttl n))"
proof (cases "ParseIP dest")
  case (Some i)
  have "adds (push_cmd dest ttl) n (snd (snd (nft_run h (add_element i ttl) n)))"
    by (rule nft_run_adds) (simp add: push_cmd_def Some)
  then show ?thesis by (simp add: nftAddDeny_def Some case_prod_beta)
qed (simp add: nftAddDeny_def)

lemma nft_Push_adds: "adds (push_cmd dest ttl) n (fst (nft_Push h m dest ttl n))"
proof -
  have e: "adds (push_cmd dest ttl) n (fst (ensureNFTTable h n))"
    by (rule adds_mono [OF ensureNFTTable_adds]) (simp add: push_cmd_def)
  have "adds (push_cmd dest ttl) n (fst (nftAddDeny h dest ttl (fst (ensureNFTTable h n))))"
    using adds_trans [OF e nftAddDeny_adds] .
  with e show ?thesis by (simp add: nft_Push_def case_prod_beta split: option.split)
qed

interpretation ebpf: egress_backend "\<lambda>m. Push h (EBPFBackend m) cg" for h cg
  by unfold_locales simp_all

interpretation nft: egress_backend "\<lambda>m. Push h (NFTBackend m) cg" for h cg
proof
  show "adds (push_cmd dest ttl) n (fst (Push h (NFTBackend m) cg dest ttl n))" for dest ttl n m
    by (simp add: nft_Push_adds)
  show "m \<noteq> ModeEnforce \<Longrightarrow> fst (Push h (NFTBackend m) cg dest ttl n) = n" for dest ttl n m
    by (cases m) (simp_all add: nft_Push_def)
qed

interpretation observe: egress_backend "\<lambda>m. Push h (ObserveBackend m) cg" for h cg
  by unfold_locales simp_all

lemma Push_adds: "adds (push_cmd dest ttl) n (fst (Push h b cg dest ttl n))"
  by (cases b) (simp_all only: ebpf.push_adds nft.push_adds observe.push_adds)

subsection \<open>Every way through a deny\<close>

lemma ParseIP_Nil [simp]: "ParseIP [] = None"
  by (simp add: ParseIP_def)

lemma AllowAlways_snd_counters: "snd (AllowAlways i (fst (AllowAlways j so))) = snd (AllowAlways i so)"
  by (simp add: check_results) (simp add: AllowAlways_def Let_def split: option.split)

lemma vetoed_effect:
  "gd_cache (fst (vetoed key g)) = gd_cache g" "gd_mode (fst (vetoed key g)) = gd_mode g"
  "gd_backend (fst (vetoed key g)) = gd_backend g"
  by (simp_all add: vetoed_def case_prod_beta split: option.split)

lemma vetoed_iff:
  "snd (vetoed key g) \<longleftrightarrow> (\<exists>i. ParseIP (destKeyToIP key) = Some i \<and> snd (AllowAlways i (gd_safetynet g)))"
  by (auto simp: vetoed_def case_prod_beta check_results split: option.split)

lemma vetoed_again: "snd (vetoed key (fst (vetoed key g))) = snd (vetoed key g)"
  unfolding vetoed_iff
  by (auto simp: vetoed_def case_prod_beta AllowAlways_snd_counters split: option.split)

lemma ApplyDeny_cases:
  fixes key g ck l ttl
  defines "g1 \<equiv> fst (vetoed key g)"
  defines "hit \<equiv> cache_has (ck_has ck) l key (gd_cache g)"
  defines "g3 \<equiv> g1\<lparr>gd_cache := cache_add (ck_evict ck) (ck_add ck) l key ttl (fst hit)\<rparr>"
  obtains (vetoed) "snd (vetoed key g)" "ApplyDeny h ck l key ttl (g, n) = ((g1, n), None)"
  | (hit) "\<not> snd (vetoed key g)" "snd hit" "ApplyDeny h ck l key ttl (g, n) = ((g1\<lparr>gd_cache := fst hit\<rparr>, n), None)"
  | (shadow) "\<not> snd (vetoed key g)" "\<not> snd hit" "gd_mode g \<noteq> ModeEnforce"
      "ApplyDeny h ck l key ttl (g, n) = ((g3, n), None)"
  | (no_dest) "\<not> snd (vetoed key g)" "\<not> snd hit" "gd_mode g = ModeEnforce" "destKeyToIP key = ''''"
      "ApplyDeny h ck l key ttl (g, n) = ((g3, n), Some (DestNotIP key))"
  | (push) "\<not> snd (vetoed key g)" "\<not> snd hit" "gd_mode g = ModeEnforce" "destKeyToIP key \<noteq> ''''"
      "ApplyDeny h ck l key ttl (g, n) =
        ((g3, fst (Push h (gd_backend g) l (destKeyToIP key) ttl n)), snd (Push h (gd_backend g) l (destKeyToIP key) ttl n))"
proof -
  note eq = ApplyDeny_def case_prod_beta Let_def fst_conv snd_conv vetoed_effect
  consider "snd (vetoed key g)" | "\<not> snd (vetoed key g)" "snd hit" | "\<not> snd (vetoed key g)" "\<not> snd hit" by blast
  then show thesis
  proof cases
    case 1
    then show thesis by (intro vetoed) (simp_all add: eq g1_def)
  next
    case 2
    then show thesis by (intro hit) (simp_all add: eq g1_def hit_def)
  next
    case 3
    consider "gd_mode g \<noteq> ModeEnforce" | "gd_mode g = ModeEnforce" "destKeyToIP key = ''''"
      | "gd_mode g = ModeEnforce" "destKeyToIP key \<noteq> ''''" by blast
    then show thesis
    proof cases
      case 1
      with 3 show thesis by (intro shadow) (simp_all add: eq g1_def hit_def g3_def)
    next
      case 2
      with 3 show thesis by (intro no_dest) (simp_all add: eq g1_def hit_def g3_def)
    next
      case 3
      with \<open>\<not> snd hit\<close> \<open>\<not> snd (vetoed key g)\<close> show thesis
        by (intro push) (simp_all add: eq g1_def hit_def g3_def)
    qed
  qed
qed

subsection \<open>The cache is bounded\<close>

lemma go_del_length: "length (go_del k m) \<le> length m"
  by (induction m) auto

lemma go_set_length: "length (go_set k v m) \<le> Suc (length m)"
  by (induction m) auto

lemma evict_any_bound:
  "fst ` set m \<subseteq> fst ` set es \<Longrightarrow> length (evict_any lim es m) < lim \<or> evict_any lim es m = []"
proof (induction es arbitrary: m)
  case (Cons e es)
  have "fst ` set (go_del (fst e) m) \<subseteq> fst ` set es"
    using Cons.prems by (auto simp: go_del_filter)
  then show ?case using Cons.IH by simp
qed simp

lemma cache_evict_bound: "1 < dc_maxEntries c \<Longrightarrow> length (cache_evict t c) < dc_maxEntries c"
proof -
  assume m: "1 < dc_maxEntries c"
  let ?lim = "dc_maxEntries c * 9 div 10"
  have "length (evict_any ?lim xs xs) < dc_maxEntries c" for xs
    using evict_any_bound [of xs xs ?lim] m by auto
  then show ?thesis by (simp add: cache_evict_def Let_def)
qed

definition cache_ok :: "denyCache \<Rightarrow> bool" where
  "cache_ok c \<longleftrightarrow> dc_maxEntries c = 4096 \<and> length (dc_entries c) \<le> 4096"

lemma cache_has_ok: "cache_ok c \<Longrightarrow> cache_ok (fst (cache_has now l k c))"
  using go_del_length [of "cacheKey l k" "dc_entries c"] by (auto simp: cache_has_def cache_ok_def Let_def split: option.split)

lemma cache_add_ok: "cache_ok c \<Longrightarrow> cache_ok (cache_add t now l k ttl c)"
  using cache_evict_bound [of c t] go_set_length [of "cacheKey l k" "now + ttl" "cache_evict t c"]
  by (auto simp: cache_add_def cache_ok_def)

lemma ApplyDeny_ok: "cache_ok (gd_cache g) \<Longrightarrow> cache_ok (gd_cache (fst (fst (ApplyDeny h ck l key ttl (g, n)))))"
  by (cases rule: ApplyDeny_cases [where key = key and g = g and ck = ck and l = l and h = h and ttl = ttl and n = n]) (simp_all add: vetoed_effect cache_has_ok cache_add_ok)

subsection \<open>The guard over a sequence of calls\<close>

datatype gcall =
    GDeny clock u64 string duration
  | GEvent clock Event
  | GSafetyNet "SafetyNet option"
  | GRoles "string list"

primrec gstep :: "host \<Rightarrow> guard \<times> nftstate \<Rightarrow> gcall \<Rightarrow> guard \<times> nftstate" where
  "gstep h st (GDeny ck l key ttl) = fst (ApplyDeny h ck l key ttl st)"
| "gstep h st (GEvent ck ev) = fst (egress_stage h ck ev st)"
| "gstep h st (GSafetyNet s) = (SetSafetyNet s (fst st), snd st)"
| "gstep h st (GRoles rs) = (SetProtectedRoles rs (fst st), snd st)"

text \<open>The mode is fixed; outside enforce mode the kernel's state is the one at the start.\<close>

definition ginv :: "Mode \<Rightarrow> nftstate \<Rightarrow> guard \<times> nftstate \<Rightarrow> bool" where
  "ginv m n st \<longleftrightarrow> cache_ok (gd_cache (fst st)) \<and> gd_mode (fst st) = m \<and> (m = ModeEnforce \<or> snd st = n)"

lemma ApplyDeny_frame:
  "gd_mode (fst (fst (ApplyDeny h ck l key ttl (g, n)))) = gd_mode g"
  "gd_mode g \<noteq> ModeEnforce \<Longrightarrow> snd (fst (ApplyDeny h ck l key ttl (g, n))) = n"
  by (cases rule: ApplyDeny_cases [where key = key and g = g and ck = ck and l = l and h = h and ttl = ttl and n = n];
      simp add: vetoed_effect)+

lemma ginv_deny: "ginv m n st \<Longrightarrow> ginv m n (fst (ApplyDeny h ck l key ttl st))"
  using ApplyDeny_frame [where h = h and ck = ck and l = l and key = key and ttl = ttl and g = "fst st" and n = "snd st"]
    ApplyDeny_ok [where h = h and ck = ck and l = l and key = key and ttl = ttl and g = "fst st" and n = "snd st"]
  by (auto simp: ginv_def)

lemma ginv_step: "ginv m n st \<Longrightarrow> ginv m n (gstep h st c)"
proof (cases c)
  case (GEvent ck ev)
  assume "ginv m n st"
  then show ?thesis
    using ginv_deny GEvent by (simp add: egress_stage_def Let_def case_prod_beta)
qed (simp_all add: ginv_deny, simp_all add: ginv_def SetSafetyNet_def SetProtectedRoles_def)

interpretation guarded: machine "(NewGuard b p m, n)" "gstep h" "ginv m n" for b p m n h
proof
  show "ginv m n (NewGuard b p m, n)"
    by (simp add: ginv_def NewGuard_def cache_ok_def newDenyCache_def Let_def)
qed (rule ginv_step)

subsection \<open>Destination keys\<close>

lemma last_index_append: "c \<notin> set ys \<Longrightarrow> last_index c (xs @ c # ys) = Some (length xs)"
  by (induction xs) (simp_all add: last_index_None)

lemma destKeyToIP_host_port: "destKeyToIP (host_port ip port) = ip"
proof -
  have "CHR '':'' \<notin> set (dec_str (unat port))" using dec_str_digits digits_no_dot by blast
  then show ?thesis by (simp add: destKeyToIP_def host_port_def last_index_append)
qed

subsection \<open>Properties\<close>

text \<open>C32: a deny reaches the kernel only for the destination asked for and never for an address the
  safety net allows: every command \<^verbatim>\<open>ApplyDeny\<close> runs either sets the table up or adds that one parsed
  address, the address is not on the always-allow list, and nothing runs outside enforce mode.\<close>

theorem deny_respects_safety_net:
  "\<exists>tr. ns_trace (snd (fst (ApplyDeny h ck l key ttl (g, n)))) = ns_trace n @ tr \<and>
     list_all (\<lambda>c. tl c \<in> set setup_args \<or> (\<exists>i. ParseIP (destKeyToIP key) = Some i \<and>
       tl c = add_element i ttl \<and> \<not> snd (AllowAlways i (gd_safetynet g)))) tr \<and>
     (tr = [] \<or> gd_mode g = ModeEnforce)"
proof (cases rule: ApplyDeny_cases [where key = key and g = g and ck = ck and l = l and h = h and ttl = ttl and n = n])
  case push
  obtain tr where "ns_trace (fst (Push h (gd_backend g) l (destKeyToIP key) ttl n)) = ns_trace n @ tr"
      "list_all (push_cmd (destKeyToIP key) ttl) tr"
    using Push_adds [of "destKeyToIP key" ttl n h "gd_backend g" l] by (auto simp: adds_def)
  then show ?thesis using push(1,3,5) by (auto simp: push_cmd_def vetoed_iff list_all_iff)
qed simp_all

text \<open>Whatever denies, events, safety nets and role lists a guard meets: its cache never holds
  more than 4096 entries, its mode never changes, and in observe and shadow mode no \<^verbatim>\<open>nft\<close> command is
  ever run.\<close>

theorem guard_bounded_and_quiet:
  "case foldl (gstep h) (NewGuard b p m, n) cs of (g, n') \<Rightarrow>
     cache_Size (gd_cache g) \<le> 4096 \<and> gd_mode g = m \<and> (m = ModeEnforce \<or> n' = n)"
  using guarded.run_inv [where h = h and m = m and n = n and b = b and p = p and cs = cs]
  by (cases "foldl (gstep h) (NewGuard b p m, n) cs") (simp add: ginv_def cache_ok_def cache_Size_def)


text \<open>C40: a deny that failed in the kernel is not retried: the cache has it already, so until its TTL
  is over the same call reports success and runs no command.\<close>

theorem failed_deny_not_retried:
  assumes "ApplyDeny h ck l key ttl (g, n) = ((g1, n1), Some err)" "key \<noteq> ''''" "0 < ttl"
    and "ck_has ck' \<le> ck_add ck + ttl"
  shows "snd (ApplyDeny h ck' l key ttl' (g1, n1)) = None \<and> snd (fst (ApplyDeny h ck' l key ttl' (g1, n1))) = n1"
proof -
  let ?c = "cache_add (ck_evict ck) (ck_add ck) l key ttl (fst (cache_has (ck_has ck) l key (gd_cache g)))"
  have g1: "g1 = (fst (vetoed key g))\<lparr>gd_cache := ?c\<rparr>" and nv: "\<not> snd (vetoed key g)"
    using assms(1)
    by (cases rule: ApplyDeny_cases [where key = key and g = g and ck = ck and l = l and h = h and ttl = ttl and n = n]; simp)+
  have "gd_safetynet g1 = gd_safetynet (fst (vetoed key g))" by (simp add: g1)
  then have "\<not> snd (vetoed key g1)" using nv vetoed_again [of key g] by (simp add: vetoed_iff)
  moreover have "snd (cache_has (ck_has ck') l key (gd_cache g1))"
    using assms(2-4) by (simp add: g1 cache_has_def cache_add_def Let_def)
  ultimately show ?thesis
    by (cases rule: ApplyDeny_cases [where key = key and g = g1 and ck = ck' and l = l and h = h and ttl = ttl' and n = n1])
       simp_all
qed

text \<open>Concrete inputs: a connection to a public address, from a restricted lineage, on a host without \<^verbatim>\<open>nft\<close>.\<close>

definition sample_connect :: Event where
  "sample_connect = zero_Event\<lparr>ev_Sensor := ''ebpf.net'', ev_CGroupID := 7,
     ev_Tags := [(''kind'', ''net_connect''), (''dst_ip'', ''8.8.8.8''), (''dst_port'', ''443'')]\<rparr>"

definition restricted_store :: memStore where
  "restricted_store = PromoteOutboundRestricted 7 2 ''novel'' (ObserveTouch sample_touch (NewStore 0))"

definition bare_host :: host where
  "bare_host = \<lparr>ho_LookPath = (\<lambda>_. None), ho_run = (\<lambda>_ _. ([], False))\<rparr>"

definition sample_clock :: clock where
  "sample_clock = \<lparr>ck_has = 1, ck_evict = 1, ck_add = 1\<rparr>"


theorem failed_deny_not_retried_witness:
  "case ApplyDeny bare_host sample_clock 7 ''8.8.8.8:443'' 300 (NewGuard (Some (NFTBackend ModeEnforce)) None ModeEnforce, nft_start) of
     ((g1, n1), e) \<Rightarrow> e = Some (NftEnsure NftBinaryNotAvailable) \<and>
       snd (ApplyDeny bare_host sample_clock 7 ''8.8.8.8:443'' 300 (g1, n1)) = None"
proof -
  let ?r = "ApplyDeny bare_host sample_clock 7 ''8.8.8.8:443'' 300 (NewGuard (Some (NFTBackend ModeEnforce)) None ModeEnforce, nft_start)"
  have d: "destKeyToIP ''8.8.8.8:443'' = ''8.8.8.8''" by code_simp
  have "snd (Push bare_host (NFTBackend ModeEnforce) 7 x 300 nft_start) = Some (NftEnsure NftBinaryNotAvailable)" for x
    by (simp add: nft_Push_def ensureNFTTable_def ensure_once_def nftBinaryAvailable_def nft_probe_def bare_host_def
        nft_start_def Let_def)
  then have "snd ?r = Some (NftEnsure NftBinaryNotAvailable)"
    by (simp add: ApplyDeny_def vetoed_def NewGuard_def cache_has_def newDenyCache_def Let_def d case_prod_beta)
  then have r: "?r = ((fst (fst ?r), snd (fst ?r)), Some (NftEnsure NftBinaryNotAvailable))" by (simp add: prod_eq_iff)
  have "ck_has sample_clock \<le> ck_add sample_clock + 300" by (simp add: sample_clock_def)
  from failed_deny_not_retried [OF r _ _ this, where ttl' = 300] show ?thesis by (subst r) simp
qed

text \<open>
  Lineages from U+110000 on (and those in the range of the surrogates) all have the same first
  character in the cache: their keys for a destination coincide.
\<close>

lemma lineages_share_key: "cacheKey 0x110000 k = cacheKey 0x110001 k"
  by (simp add: cacheKey_def utf8_rune_def)

end
