(* ===== verification/GoLib.thy ===== *)
theory GoLib
  imports NetIP
begin

text \<open>
  Further parts of Go's library: \<^verbatim>\<open>strings.EqualFold\<close> and \<^verbatim>\<open>ReplaceAll\<close>, \<^verbatim>\<open>net.ParseCIDR\<close> and
  \<^verbatim>\<open>IPNet.Contains\<close>, \<^verbatim>\<open>filepath.Base\<close>, and the standard Base64 encoding with its round trip.
\<close>

unbundle bit_operations_syntax

subsection \<open>Texts and networks\<close>

text \<open>
  \<^verbatim>\<open>strings.EqualFold\<close>: besides the ASCII capitals, the two other letters that fold to ASCII, U+017F
  and U+212A. It is exact when one of the two texts is ASCII.
\<close>

fun fold_str :: "string \<Rightarrow> string" where
  "fold_str [] = []"
| "fold_str (c # s) =
     (if c = CHR 0xC5 \<and> take 1 s = [CHR 0xBF] then CHR ''s'' # fold_str (drop 1 s)
      else if c = CHR 0xE2 \<and> take 2 s = [CHR 0x84, CHR 0xAA] then CHR ''k'' # fold_str (drop 2 s)
      else lower_char c # fold_str s)"

definition equal_fold :: "string \<Rightarrow> string \<Rightarrow> bool" where
  "equal_fold s t \<longleftrightarrow> fold_str s = fold_str t"

text \<open>\<^verbatim>\<open>net.ParseCIDR\<close> and \<^verbatim>\<open>IPNet.Contains\<close>.\<close>

record IPNet =
  nt_IP :: "u8 list"
  nt_Mask :: "u8 list"

definition cidr_mask :: "nat \<Rightarrow> nat \<Rightarrow> u8 list" where
  "cidr_mask ones bytes = map (\<lambda>i. NOT (drop_bit (min 8 (ones - 8 * i)) 0xFF)) [0..<bytes]"

definition cidr_bits :: "string \<Rightarrow> nat \<Rightarrow> nat option" where
  "cidr_bits s maxBits =
     (if s = [] \<or> \<not> list_all is_digit s \<or> maxBits < dec_val s then None else Some (dec_val s))"

definition ParseCIDR :: "string \<Rightarrow> IPNet option" where
  "ParseCIDR s =
     (case index_byte CHR ''/'' s of
        None \<Rightarrow> None
      | Some i \<Rightarrow>
          case ParseAddr (take i s) of
            None \<Rightarrow> None
          | Some (a, zone) \<Rightarrow>
              if zone \<noteq> '''' then None
              else case cidr_bits (drop (Suc i) s) (BitLen a) of
                     None \<Rightarrow> None
                   | Some n \<Rightarrow>
                       let m = cidr_mask n (BitLen a div 8)
                       in Some \<lparr>nt_IP = map2 (AND) (addr_bytes a) m, nt_Mask = m\<rparr>)"

definition short_form :: "u8 list \<Rightarrow> u8 list" where
  "short_form bs = (if length bs = 16 then (case To4 bs of Some v4 \<Rightarrow> v4 | None \<Rightarrow> bs) else bs)"

definition IPNet_Contains :: "IPNet \<Rightarrow> ip \<Rightarrow> bool" where
  "IPNet_Contains n i =
     (let nn = short_form (nt_IP n); b = short_form i;
          m = (if length (nt_Mask n) = 16 \<and> length nn = 4 then drop 12 (nt_Mask n) else nt_Mask n)
      in length m = length nn \<and> length b = length nn \<and> map2 (AND) nn m = map2 (AND) b m)"

text \<open>\<^verbatim>\<open>filepath.Base\<close>, and \<^verbatim>\<open>strings.ReplaceAll\<close> for a pattern that is not empty.\<close>

definition path_base :: "string \<Rightarrow> string" where
  "path_base p =
     (if p = '''' then ''.''
      else let r = takeWhile (\<lambda>c. c \<noteq> CHR ''/'') (dropWhile (\<lambda>c. c = CHR ''/'') (rev p))
           in if r = '''' then ''/'' else rev r)"

function replace_all :: "string \<Rightarrow> string \<Rightarrow> string \<Rightarrow> string" where
  "replace_all old new [] = []"
| "replace_all old new (c # s) =
     (if old \<noteq> [] \<and> has_prefix (c # s) old then new @ replace_all old new (drop (length old) (c # s))
      else c # replace_all old new s)"
  by pat_completeness auto
termination
  by (relation "measure (\<lambda>(old, new, s). length s)") auto

subsection \<open>Base64\<close>

text \<open>Base64 in the standard alphabet with padding; the decoder ignores line ends.\<close>

definition b64_alphabet :: string where
  "b64_alphabet = ''ABCDEFGHIJKLMNOPQRSTUVWXYZabcdefghijklmnopqrstuvwxyz0123456789+/''"

definition b64_char :: "nat \<Rightarrow> char" where
  "b64_char n = b64_alphabet ! (n mod 64)"

definition b64_val :: "char \<Rightarrow> nat option" where
  "b64_val c = index_byte c b64_alphabet"

fun b64_encode :: "string \<Rightarrow> string" where
  "b64_encode [] = []"
| "b64_encode [a] =
     [b64_char (of_char a div 4), b64_char (of_char a * 16), CHR ''='', CHR ''='']"
| "b64_encode [a, b] =
     [b64_char (of_char a div 4), b64_char (of_char a * 16 + of_char b div 16),
      b64_char (of_char b * 4), CHR ''='']"
| "b64_encode (a # b # c # s) =
     b64_char (of_char a div 4) # b64_char (of_char a * 16 + of_char b div 16) #
     b64_char (of_char b * 4 + of_char c div 64) # b64_char (of_char c) # b64_encode s"

text \<open>One group of four: the bytes of its leading values.\<close>

definition b64_bytes :: "nat list \<Rightarrow> string" where
  "b64_bytes vs =
     (let v = (\<lambda>i. if i < length vs then vs ! i else 0)
      in take (length vs - 1)
           [char_of (v 0 * 4 + v 1 div 16), char_of (v 1 * 16 + v 2 div 4), char_of (v 2 * 64 + v 3)])"

definition b64_group :: "string \<Rightarrow> string option" where
  "b64_group cs =
     (if list_all (\<lambda>c. b64_val c \<noteq> None) cs then Some (b64_bytes (map (the \<circ> b64_val) cs)) else None)"

fun b64_quanta :: "string \<Rightarrow> string option" where
  "b64_quanta [] = Some []"
| "b64_quanta (a # b # c # d # s) =
     (if s = [] \<and> d = CHR ''='' then b64_group (if c = CHR ''='' then [a, b] else [a, b, c])
      else case b64_group [a, b, c, d] of
             None \<Rightarrow> None
           | Some bs \<Rightarrow> map_option ((@) bs) (b64_quanta s))"
| "b64_quanta _ = None"

definition b64_decode :: "string \<Rightarrow> string option" where
  "b64_decode s = b64_quanta (filter (\<lambda>c. c \<noteq> CHR 0x0A \<and> c \<noteq> CHR 0x0D) s)"

text \<open>The alphabet is read back, one letter at a time.\<close>

lemma b64_alphabet_index:
  "list_all (\<lambda>n. b64_val (b64_char n) = Some n \<and> b64_char n \<notin> set [CHR ''='', CHR 0x0A, CHR 0x0D]) [0..<64]"
  by code_simp

lemma b64_val_char [simp]: "b64_val (b64_char n) = Some (n mod 64)"
proof -
  have "b64_char n = b64_char (n mod 64)" by (simp add: b64_char_def)
  then show ?thesis using b64_alphabet_index by (simp add: list_all_iff)
qed

lemma b64_char_plain [simp]:
  "b64_char n \<noteq> CHR ''=''" "b64_char n \<noteq> CHR 0x0A" "b64_char n \<noteq> CHR 0x0D"
proof -
  have "b64_char n = b64_char (n mod 64)" by (simp add: b64_char_def)
  then show "b64_char n \<noteq> CHR ''=''" "b64_char n \<noteq> CHR 0x0A" "b64_char n \<noteq> CHR 0x0D"
    using b64_alphabet_index by (simp_all add: list_all_iff)
qed

lemma b64_encode_plain: "filter (\<lambda>c. c \<noteq> CHR 0x0A \<and> c \<noteq> CHR 0x0D) (b64_encode s) = b64_encode s"
  by (induction s rule: b64_encode.induct) simp_all

lemma char_of_nat_eq: "n mod 256 = of_char c \<Longrightarrow> char_of n = (c :: char)" for n :: nat
  by (metis char_of_mod_256 char_of_char)

lemma of_char_less_256: "of_char c < (256 :: nat)"
  by (metis mod_less_divisor of_char_mod_256 zero_less_numeral)

lemma mod64_div: "m mod 64 div 16 = m div 16 mod 4" "m mod 64 div 4 = m div 4 mod 16" for m :: nat
proof -
  show "m mod 64 div 16 = m div 16 mod 4" using mod_mult2_eq [of m 16 4] by simp
  show "m mod 64 div 4 = m div 4 mod 16" using mod_mult2_eq [of m 4 16] by simp
qed

lemma shifted_mod:
  "(t mod 64 * 16 + z) mod 256 = (t * 16 + z) mod 256" "(t mod 64 * 64 + z) mod 256 = (t * 64 + z) mod 256"
  for t z :: nat
proof -
  have "t mod 64 * 16 = t * 16 mod 1024" "t mod 64 * 64 = t * 64 mod 4096"
    using mod_mult_mult2 [of t 16 64] mod_mult_mult2 [of t 64 64] by simp_all
  moreover have "t * 16 mod 1024 mod 256 = t * 16 mod 256" "t * 64 mod 4096 mod 256 = t * 64 mod 256"
    by (rule mod_mod_cancel; simp)+
  ultimately show "(t mod 64 * 16 + z) mod 256 = (t * 16 + z) mod 256"
    "(t mod 64 * 64 + z) mod 256 = (t * 64 + z) mod 256"
    by (metis mod_add_left_eq)+
qed

text \<open>The three bytes of a group from its four six-bit values.\<close>

lemma sextets:
  "char_of (of_char a div 4 mod 64 * 4 + (of_char a * 16 + y) mod 64 div 16 :: nat) = a" if "y < 16"
  for y :: nat and a :: char
proof (rule char_of_nat_eq)
  have a: "of_char a < (256 :: nat)" by (rule of_char_less_256)
  then have "of_char a div 4 < (64 :: nat)" by linarith
  then have "of_char a div 4 mod 64 = (of_char a div 4 :: nat)" by (rule mod_less)
  moreover have "(of_char a * 16 + y) mod 64 div 16 = of_char a mod 4"
    using that by (simp add: mod64_div)
  ultimately have "of_char a div 4 mod 64 * 4 + (of_char a * 16 + y) mod 64 div 16 = (of_char a :: nat)"
    by (simp only: div_mult_mod_eq)
  then show "(of_char a div 4 mod 64 * 4 + (of_char a * 16 + y) mod 64 div 16) mod 256 = (of_char a :: nat)"
    using a by (simp only: mod_less)
qed

lemma sextets2:
  "char_of ((x * 16 + of_char b div 16) mod 64 * 16 + (of_char b * 4 + y) mod 64 div 4 :: nat) = b" if "y < 4"
  for x y :: nat and b :: char
proof (rule char_of_nat_eq)
  have "((x * 16 + of_char b div 16) mod 64 * 16 + (of_char b * 4 + y) mod 64 div 4) mod 256 =
      (x * 256 + (of_char b div 16 * 16 + of_char b mod 16)) mod (256 :: nat)"
    using that by (simp only: shifted_mod mod64_div) (simp add: algebra_simps)
  also have "\<dots> = of_char b" by simp
  finally show "((x * 16 + of_char b div 16) mod 64 * 16 + (of_char b * 4 + y) mod 64 div 4) mod 256 = (of_char b :: nat)" .
qed

lemma sextets3: "char_of ((x * 4 + of_char c div 64) mod 64 * 64 + of_char c mod 64 :: nat) = c"
  for x :: nat and c :: char
proof (rule char_of_nat_eq)
  have "((x * 4 + of_char c div 64) mod 64 * 64 + of_char c mod 64) mod 256 =
      (x * 256 + (of_char c div 64 * 64 + of_char c mod 64)) mod (256 :: nat)"
    by (simp only: shifted_mod) (simp add: algebra_simps)
  also have "\<dots> = of_char c" by simp
  finally show "((x * 4 + of_char c div 64) mod 64 * 64 + of_char c mod 64) mod 256 = (of_char c :: nat)" .
qed

lemma b64_roundtrip: "b64_decode (b64_encode s) = Some s"
proof -
  have "b64_quanta (b64_encode s) = Some s"
  proof (induction s rule: b64_encode.induct)
    case (2 a)
    then show ?case using sextets [of 0 a] by (simp add: b64_group_def b64_bytes_def)
  next
    case (3 a b)
    have "of_char b div 16 < (16 :: nat)" using of_char_less_256 [of b] by linarith
    from sextets [OF this] show ?case
      using sextets2 [of 0 "of_char a" b] by (simp add: b64_group_def b64_bytes_def)
  next
    case (4 a b c s)
    have "of_char b div 16 < (16 :: nat)" "of_char c div 64 < (4 :: nat)"
      using of_char_less_256 [of b] of_char_less_256 [of c] by linarith+
    then show ?case
      using 4 sextets [of "of_char b div 16" a] sextets2 [of "of_char c div 64" "of_char a" b]
        sextets3 [of "of_char b" c]
      by (simp add: b64_group_def b64_bytes_def)
  qed simp
  then show ?thesis by (simp add: b64_decode_def b64_encode_plain)
qed

subsection \<open>Replacement\<close>

lemma replace_byte: "replace_all [c] new s = concat (map (\<lambda>x. if x = c then new else [x]) s)"
  by (induction s) (auto simp: has_prefix_def)

lemma replace_byte_gone: "c \<notin> set new \<Longrightarrow> c \<notin> set (replace_all [c] new s)"
  by (auto simp: replace_byte)

lemma set_replace_all: "set (replace_all old new s) \<subseteq> set new \<union> set s"
proof (induction old new s rule: replace_all.induct)
  case (2 old new c s)
  have "set (drop (length old) (c # s)) \<subseteq> set (c # s)" by (rule set_drop_subset)
  then show ?case using 2 by (simp only: replace_all.simps split: if_split) auto
qed simp

text \<open>Nothing is left of a doubled byte once it is replaced.\<close>

lemma replace_double_hd:
  "c \<noteq> d \<Longrightarrow> replace_all [c, c] [d] s = c # r \<Longrightarrow> \<exists>s'. s = c # s' \<and> \<not> has_prefix s [c, c]"
  by (cases s) (auto split: if_splits)

lemma replace_double_gone: "c \<noteq> d \<Longrightarrow> \<not> sublist [c, c] (replace_all [c, c] [d] s)"
proof (induction "[c, c]" "[d]" s rule: replace_all.induct)
  case (2 x s)
  show ?case
  proof (cases "has_prefix (x # s) [c, c]")
    case True
    then show ?thesis using 2 by (simp add: sublist_Cons_right)
  next
    case False
    have "\<not> prefix [c, c] (x # replace_all [c, c] [d] s)"
    proof
      assume "prefix [c, c] (x # replace_all [c, c] [d] s)"
      then obtain r where r: "x = c" "replace_all [c, c] [d] s = c # r" by (auto simp: prefix_def)
      from replace_double_hd [OF "2.prems" r(2)] r(1) False show False by (auto simp: has_prefix_def)
    qed
    then show ?thesis using 2 False by (simp add: sublist_Cons_right)
  qed
qed simp

end
