(* ===== verification/EgressPolicy.thy ===== *)
theory EgressPolicy
  imports GoLib "HOL-Library.Product_Lexorder"
begin

text \<open>
  The per-binary egress policies, \<^verbatim>\<open>pkg/egresspolicy\<close>: the policy document with its validation,
  canonical form and signature (\<^verbatim>\<open>policy.go\<close>), the store of verified policies (\<^verbatim>\<open>store.go\<close>), the
  decision on a connection (\<^verbatim>\<open>engine.go\<close>), and the proposals drawn from observed flows
  (\<^verbatim>\<open>workflow.go\<close>).

  YAML encoding and the Ed25519 primitives are the fields of a record \<open>crypto\<close>; a directory listing,
  the parsed content of a file and the outcome of a write are arguments, as are clock readings. The
  canonical form sorts the port and protocol lists of the rules in place, so \<open>canonicalBytes\<close>,
  \<open>Verify\<close> and \<open>Sign\<close> return the policy they leave behind. Errors and the engine's own reason
  texts are constructors; the watcher's ticker is a sequence of \<open>Reload\<close> calls.
\<close>

subsection \<open>Policy documents\<close>

text \<open>The enforcement postures are strings in the file format.\<close>

type_synonym PolicyMode = string

abbreviation PolicyObserve :: PolicyMode where "PolicyObserve \<equiv> ''observe''"
abbreviation PolicyAllowAny :: PolicyMode where "PolicyAllowAny \<equiv> ''allow_any''"
abbreviation PolicyDenyDefault :: PolicyMode where "PolicyDenyDefault \<equiv> ''deny_default''"
abbreviation PolicyTorOnly :: PolicyMode where "PolicyTorOnly \<equiv> ''tor_only''"
abbreviation SchemaVersion :: int where "SchemaVersion \<equiv> 1"
abbreviation AlgorithmEd25519 :: string where "AlgorithmEd25519 \<equiv> ''ed25519''"

record EgressRule =
  er_DestCIDR :: string
  er_DestClass :: string
  er_Country :: string
  er_ASN :: string
  er_Ports :: "u16 list"
  er_Protocols :: "string list"
  er_SNI :: string
  er_DNSName :: string
  er_Comment :: string

record EgressPolicy =
  ep_SchemaVersion :: int
  ep_Binary :: string
  ep_Mode :: PolicyMode
  ep_SignedAt :: gotime
  ep_Signer :: string
  ep_Comment :: string
  ep_Allow :: "EgressRule list"
  ep_Deny :: "EgressRule list"
  ep_OnlyUIDs :: "u32 list"
  ep_OnlyCgroups :: "string list"
  ep_ExceptUIDs :: "u32 list"
  ep_ExceptCgroups :: "string list"

record SignedPolicy =
  sp_Policy :: EgressPolicy
  sp_Signer :: string
  sp_Algorithm :: string
  sp_Signature :: string

datatype policy_error =
    SchemaRequired | SchemaTooNew int | BinaryRequired | UnknownMode string | SignerRequired
  | BadRule bool nat policy_error
  | InvalidCIDR string | UnknownProtocol string
  | ValidateFailed policy_error | EncodeFailed
  | BadPrivateKey nat | BadPublicKey nat | UnsupportedAlgorithm string | SignerEmpty
  | BadBase64 | BadSignature
  | DirRequired | ReadDirFailed | FileFailed string policy_error | VerifyFailed policy_error | LoadFailed
  | MkdirFailed | MarshalFailed | WriteFailed | RemoveFailed

definition rule_validate :: "EgressRule \<Rightarrow> policy_error option" where
  "rule_validate r =
     (if er_DestCIDR r \<noteq> '''' \<and> ParseCIDR (er_DestCIDR r) = None then Some (InvalidCIDR (er_DestCIDR r))
      else case find (\<lambda>p. p \<notin> set [''tcp'', ''udp'', ''icmp'', '''']) (er_Protocols r) of
             None \<Rightarrow> None | Some p \<Rightarrow> Some (UnknownProtocol p))"

text \<open>The first rule that is not well formed, with its index and whether it is an allow rule.\<close>

fun rules_validate :: "bool \<Rightarrow> nat \<Rightarrow> EgressRule list \<Rightarrow> policy_error option" where
  "rules_validate allow i [] = None"
| "rules_validate allow i (r # rs) =
     (case rule_validate r of Some e \<Rightarrow> Some (BadRule allow i e) | None \<Rightarrow> rules_validate allow (Suc i) rs)"

definition Policy_Validate :: "EgressPolicy \<Rightarrow> policy_error option" where
  "Policy_Validate p =
     (if ep_SchemaVersion p = 0 then Some SchemaRequired
      else if SchemaVersion < ep_SchemaVersion p then Some (SchemaTooNew (ep_SchemaVersion p))
      else if ep_Binary p = '''' then Some BinaryRequired
      else if ep_Mode p \<notin> set [PolicyObserve, PolicyAllowAny, PolicyDenyDefault, PolicyTorOnly]
      then Some (UnknownMode (ep_Mode p))
      else if ep_Signer p = '''' then Some SignerRequired
      else case rules_validate True 0 (ep_Allow p) of
             Some e \<Rightarrow> Some e
           | None \<Rightarrow> rules_validate False 0 (ep_Deny p))"

definition sortRuleLists :: "EgressRule \<Rightarrow> EgressRule" where
  "sortRuleLists r = r\<lparr>er_Ports := sort (er_Ports r), er_Protocols := sort (er_Protocols r)\<rparr>"

text \<open>What the canonical form does to the slices of the policy itself, and the form that is encoded.\<close>

definition sort_rules :: "EgressPolicy \<Rightarrow> EgressPolicy" where
  "sort_rules p = p\<lparr>ep_Allow := map sortRuleLists (ep_Allow p), ep_Deny := map sortRuleLists (ep_Deny p)\<rparr>"

definition truncate_second :: "gotime \<Rightarrow> gotime" where
  "truncate_second t = t - t mod second"

definition canonical_form :: "EgressPolicy \<Rightarrow> EgressPolicy" where
  "canonical_form p =
     (sort_rules p)\<lparr>ep_OnlyUIDs := sort (ep_OnlyUIDs p), ep_OnlyCgroups := sort (ep_OnlyCgroups p),
        ep_ExceptUIDs := sort (ep_ExceptUIDs p), ep_ExceptCgroups := sort (ep_ExceptCgroups p),
        ep_SignedAt := truncate_second (ep_SignedAt p)\<rparr>"

record crypto =
  cr_Encode :: "EgressPolicy \<Rightarrow> string option"
  cr_Sign :: "string \<Rightarrow> string \<Rightarrow> string"
  cr_Verify :: "string \<Rightarrow> string \<Rightarrow> string \<Rightarrow> bool"

definition canonicalBytes :: "crypto \<Rightarrow> EgressPolicy \<Rightarrow> EgressPolicy \<times> (policy_error + string)" where
  "canonicalBytes cr p =
     (sort_rules p, case cr_Encode cr (canonical_form p) of None \<Rightarrow> Inl EncodeFailed | Some b \<Rightarrow> Inr b)"

definition sign_defaults :: "gotime \<Rightarrow> string \<Rightarrow> EgressPolicy \<Rightarrow> EgressPolicy" where
  "sign_defaults now signerID p =
     p\<lparr>ep_SchemaVersion := (if ep_SchemaVersion p = 0 then SchemaVersion else ep_SchemaVersion p),
       ep_Signer := (if ep_Signer p = '''' then signerID else ep_Signer p),
       ep_SignedAt := (if ep_SignedAt p = 0 then truncate_second now else ep_SignedAt p)\<rparr>"

definition Sign :: "crypto \<Rightarrow> gotime \<Rightarrow> EgressPolicy \<Rightarrow> string \<Rightarrow> string \<Rightarrow> policy_error + SignedPolicy" where
  "Sign cr now p signerID priv =
     (if length priv \<noteq> 64 then Inl (BadPrivateKey (length priv))
      else if signerID = '''' then Inl SignerRequired
      else let p1 = sign_defaults now signerID p in
        case Policy_Validate p1 of
          Some e \<Rightarrow> Inl (ValidateFailed e)
        | None \<Rightarrow>
            case canonicalBytes cr p1 of
              (p2, Inl e) \<Rightarrow> Inl e
            | (p2, Inr b) \<Rightarrow>
                Inr \<lparr>sp_Policy = p2, sp_Signer = signerID, sp_Algorithm = AlgorithmEd25519,
                     sp_Signature = b64_encode (cr_Sign cr priv b)\<rparr>)"

definition Verify :: "crypto \<Rightarrow> SignedPolicy \<Rightarrow> string \<Rightarrow> SignedPolicy \<times> policy_error option" where
  "Verify cr sp pub =
     (if length pub \<noteq> 32 then (sp, Some (BadPublicKey (length pub)))
      else if sp_Algorithm sp \<noteq> AlgorithmEd25519 then (sp, Some (UnsupportedAlgorithm (sp_Algorithm sp)))
      else if sp_Signer sp = '''' then (sp, Some SignerEmpty)
      else case Policy_Validate (sp_Policy sp) of
             Some e \<Rightarrow> (sp, Some (ValidateFailed e))
           | None \<Rightarrow>
               case b64_decode (sp_Signature sp) of
                 None \<Rightarrow> (sp, Some BadBase64)
               | Some sig \<Rightarrow>
                   case canonicalBytes cr (sp_Policy sp) of
                     (p2, Inl e) \<Rightarrow> (sp\<lparr>sp_Policy := p2\<rparr>, Some e)
                   | (p2, Inr b) \<Rightarrow>
                       (sp\<lparr>sp_Policy := p2\<rparr>, if cr_Verify cr pub b sig then None else Some BadSignature))"

subsection \<open>The store\<close>

record PolicyStore =
  ps_dir :: string
  ps_publicKey :: string
  ps_policies :: "(string, SignedPolicy) gomap"

definition NewPolicyStore :: "string \<Rightarrow> string \<Rightarrow> policy_error + PolicyStore" where
  "NewPolicyStore dir pub =
     (if length pub \<noteq> 32 then Inl (BadPublicKey (length pub))
      else if dir = '''' then Inl DirRequired
      else Inr \<lparr>ps_dir = dir, ps_publicKey = pub, ps_policies = []\<rparr>)"

datatype dir_listing = DirMissing | DirError | DirEntries "(string \<times> bool) list"

text \<open>One entry of the directory: its name and whether it is a directory.\<close>

definition reload_entry ::
    "crypto \<Rightarrow> (string \<Rightarrow> SignedPolicy option) \<Rightarrow> string \<Rightarrow>
     (string, SignedPolicy) gomap \<times> policy_error option \<Rightarrow> string \<times> bool \<Rightarrow>
     (string, SignedPolicy) gomap \<times> policy_error option" where
  "reload_entry cr load pub acc e =
     (let name = fst e; first = (\<lambda>x. case snd acc of None \<Rightarrow> Some x | Some y \<Rightarrow> Some y) in
      if snd e \<or> \<not> has_suffix name ''.yaml'' \<or> name = ''operator.pub'' \<or> name = ''operator.pub.yaml'' then acc
      else case load name of
             None \<Rightarrow> (fst acc, first (FileFailed name LoadFailed))
           | Some sp \<Rightarrow>
               case Verify cr sp pub of
                 (_, Some err) \<Rightarrow> (fst acc, first (FileFailed name (VerifyFailed err)))
               | (sp', None) \<Rightarrow> (go_set (ep_Binary (sp_Policy sp')) sp' (fst acc), snd acc))"

definition Policy_Reload ::
    "crypto \<Rightarrow> dir_listing \<Rightarrow> (string \<Rightarrow> SignedPolicy option) \<Rightarrow> PolicyStore \<Rightarrow>
     PolicyStore \<times> nat \<times> policy_error option" where
  "Policy_Reload cr listing load s =
     (case listing of
        DirMissing \<Rightarrow> (s\<lparr>ps_policies := []\<rparr>, 0, None)
      | DirError \<Rightarrow> (s, 0, Some ReadDirFailed)
      | DirEntries es \<Rightarrow>
          case foldl (reload_entry cr load (ps_publicKey s)) ([], None) es of
            (loaded, err) \<Rightarrow> (s\<lparr>ps_policies := loaded\<rparr>, length loaded, err))"

definition Policy_Get :: "PolicyStore \<Rightarrow> string \<Rightarrow> SignedPolicy option" where
  "Policy_Get s binary =
     (case go_get (ps_policies s) binary of
        Some sp \<Rightarrow> Some sp
      | None \<Rightarrow> if path_base binary \<noteq> binary then go_get (ps_policies s) (path_base binary) else None)"

definition Policy_All :: "PolicyStore \<Rightarrow> SignedPolicy list" where
  "Policy_All s = map snd (ps_policies s)"

definition sanitizeBinary :: "string \<Rightarrow> string" where
  "sanitizeBinary binary =
     (let b0 = (if has_prefix binary ''/'' then drop 1 binary else binary);
          b = replace_all '' '' ''_'' (replace_all ''..'' ''_''
                (replace_all [CHR 0x5C] ''_'' (replace_all ''/'' ''_'' b0)))
      in if b = '''' then ''unnamed'' else b)"

text \<open>The answer of the file system to a save, and to a removal.\<close>

datatype save_outcome = SaveMkdirFails | SaveMarshalFails | SaveWriteFails | SaveWritten

datatype remove_outcome = FileRemoved | FileMissing | FileRemoveFails

definition Policy_Save :: "save_outcome \<Rightarrow> SignedPolicy \<Rightarrow> PolicyStore \<Rightarrow> PolicyStore \<times> policy_error option" where
  "Policy_Save out sp s =
     (if ep_Binary (sp_Policy sp) = '''' then (s, Some BinaryRequired)
      else case out of
             SaveMkdirFails \<Rightarrow> (s, Some MkdirFailed)
           | SaveMarshalFails \<Rightarrow> (s, Some MarshalFailed)
           | SaveWriteFails \<Rightarrow> (s, Some WriteFailed)
           | SaveWritten \<Rightarrow> (s\<lparr>ps_policies := go_set (ep_Binary (sp_Policy sp)) sp (ps_policies s)\<rparr>, None))"

definition VerifyAndSave ::
    "crypto \<Rightarrow> save_outcome \<Rightarrow> SignedPolicy \<Rightarrow> PolicyStore \<Rightarrow> PolicyStore \<times> policy_error option" where
  "VerifyAndSave cr out sp s =
     (case Verify cr sp (ps_publicKey s) of
        (_, Some e) \<Rightarrow> (s, Some (VerifyFailed e))
      | (sp', None) \<Rightarrow> Policy_Save out sp' s)"

definition Policy_Delete :: "remove_outcome \<Rightarrow> string \<Rightarrow> PolicyStore \<Rightarrow> PolicyStore \<times> policy_error option" where
  "Policy_Delete out binary s =
     (if out = FileRemoveFails then (s, Some RemoveFailed)
      else (s\<lparr>ps_policies := go_del binary (ps_policies s)\<rparr>, None))"

subsection \<open>The engine\<close>

datatype PolicyAction = ActionAllow | ActionObserve | ActionVerify | ActionDeny

primrec PolicyAction_String :: "PolicyAction \<Rightarrow> string" where
  "PolicyAction_String ActionAllow = ''allow''"
| "PolicyAction_String ActionObserve = ''observe''"
| "PolicyAction_String ActionVerify = ''verify''"
| "PolicyAction_String ActionDeny = ''deny''"

record PolicyRequest =
  pr_Binary :: string
  pr_UID :: u32
  pr_Cgroup :: string
  pr_DestIP :: "ip option"
  pr_DestPort :: u16
  pr_Protocol :: string
  pr_SNI :: string
  pr_DNSName :: string
  pr_DestClass :: string
  pr_Country :: string
  pr_ASN :: string

datatype policy_reason =
    EngineNil | StoreNil | NoPolicy | OutOfScope | ModeAllowsAny | ModeObserves | TorEndpoint | NotTorEndpoint
  | RuleComment string | NoAllowRule | UnknownPolicyMode string

record PolicyDecision =
  pd_Action :: PolicyAction
  pd_Mode :: PolicyMode
  pd_PolicyID :: string
  pd_MatchedBy :: string
  pd_Reason :: policy_reason

record PolicyEngine =
  pe_store :: "PolicyStore option"
  pe_defaultMode :: PolicyMode

definition NewPolicyEngine :: "PolicyStore option \<Rightarrow> PolicyMode \<Rightarrow> PolicyEngine" where
  "NewPolicyEngine store m = \<lparr>pe_store = store, pe_defaultMode = (if m = '''' then PolicyObserve else m)\<rparr>"

definition containsStringCI :: "string list \<Rightarrow> string \<Rightarrow> bool" where
  "containsStringCI xs x = list_ex (\<lambda>v. equal_fold v x) xs"

definition subjectInScope :: "EgressPolicy \<Rightarrow> PolicyRequest \<Rightarrow> bool" where
  "subjectInScope p req =
     (if ep_OnlyUIDs p \<noteq> [] \<and> pr_UID req \<notin> set (ep_OnlyUIDs p) then False
      else if ep_OnlyCgroups p \<noteq> [] \<and> \<not> containsStringCI (ep_OnlyCgroups p) (pr_Cgroup req) then False
      else if pr_UID req \<in> set (ep_ExceptUIDs p) then False
      else if containsStringCI (ep_ExceptCgroups p) (pr_Cgroup req) then False
      else True)"

definition matchHostname :: "string \<Rightarrow> string \<Rightarrow> bool" where
  "matchHostname pattern0 host0 =
     (let pattern = to_lower (trim_space pattern0); hst = to_lower (trim_space host0) in
      if pattern = '''' \<or> hst = '''' then False
      else if has_prefix pattern ''*.'' then has_suffix hst (drop 1 pattern) \<or> hst = drop 2 pattern
      else if has_prefix pattern ''.'' then has_suffix hst pattern \<or> hst = drop 1 pattern
      else pattern = hst)"

definition match_cidr :: "string \<Rightarrow> ip option \<Rightarrow> bool" where
  "match_cidr cidr dest =
     (case (ParseCIDR cidr, dest) of (Some n, Some i) \<Rightarrow> IPNet_Contains n i | _ \<Rightarrow> False)"

definition matchRule :: "EgressRule \<Rightarrow> PolicyRequest \<Rightarrow> bool" where
  "matchRule r req =
     (if er_DestCIDR r \<noteq> '''' \<and> \<not> match_cidr (er_DestCIDR r) (pr_DestIP req) then False
      else if er_DestClass r \<noteq> '''' \<and> \<not> equal_fold (er_DestClass r) (pr_DestClass req) then False
      else if er_Country r \<noteq> '''' \<and> \<not> equal_fold (er_Country r) (pr_Country req) then False
      else if er_ASN r \<noteq> '''' \<and> \<not> equal_fold (er_ASN r) (pr_ASN req) then False
      else if er_Ports r \<noteq> [] \<and> pr_DestPort req \<notin> set (er_Ports r) then False
      else if er_Protocols r \<noteq> [] \<and> \<not> containsStringCI (er_Protocols r) (pr_Protocol req) then False
      else if er_SNI r \<noteq> '''' \<and> \<not> matchHostname (er_SNI r) (pr_SNI req) then False
      else if er_DNSName r \<noteq> '''' \<and> \<not> matchHostname (er_DNSName r) (pr_DNSName req) then False
      else True)"

definition isTorEndpoint :: "PolicyRequest \<Rightarrow> bool" where
  "isTorEndpoint req \<longleftrightarrow> pr_DestPort req = 9050 \<and>
     (case pr_DestIP req of
        None \<Rightarrow> False
      | Some i \<Rightarrow> (case To4 i of Some v4 \<Rightarrow> v4 = [127, 0, 0, 1] | None \<Rightarrow> i = replicate 15 0 @ [1]))"

definition go_list_str :: "string list \<Rightarrow> string" where
  "go_list_str xs = ''['' @ str_join '' '' xs @ '']''"

definition describeRule :: "EgressRule \<Rightarrow> string" where
  "describeRule r =
     (if er_DestCIDR r \<noteq> '''' then ''dest_cidr='' @ er_DestCIDR r
      else if er_SNI r \<noteq> '''' then ''sni='' @ er_SNI r
      else if er_DNSName r \<noteq> '''' then ''dns_name='' @ er_DNSName r
      else if er_DestClass r \<noteq> '''' then ''dest_class='' @ er_DestClass r
      else if er_Country r \<noteq> '''' then ''country='' @ er_Country r
      else if er_ASN r \<noteq> '''' then ''asn='' @ er_ASN r
      else if er_Ports r \<noteq> [] then ''ports='' @ go_list_str (map (\<lambda>p. dec_str (unat p)) (er_Ports r))
      else if er_Protocols r \<noteq> [] then ''protocols='' @ go_list_str (er_Protocols r)
      else ''*'')"

text \<open>The first rule that matches, with its index.\<close>

fun first_match :: "nat \<Rightarrow> EgressRule list \<Rightarrow> PolicyRequest \<Rightarrow> (nat \<times> EgressRule) option" where
  "first_match i [] req = None"
| "first_match i (r # rs) req = (if matchRule r req then Some (i, r) else first_match (Suc i) rs req)"

definition matched_by :: "string \<Rightarrow> nat \<times> EgressRule \<Rightarrow> string" where
  "matched_by kind m = kind @ ''['' @ dec_str (fst m) @ '']: '' @ describeRule (snd m)"

definition decide_rules :: "EgressPolicy \<Rightarrow> PolicyRequest \<Rightarrow> PolicyDecision" where
  "decide_rules p req =
     (case first_match 0 (ep_Deny p) req of
        Some m \<Rightarrow> \<lparr>pd_Action = ActionDeny, pd_Mode = PolicyDenyDefault, pd_PolicyID = ep_Binary p,
                   pd_MatchedBy = matched_by ''deny'' m, pd_Reason = RuleComment (er_Comment (snd m))\<rparr>
      | None \<Rightarrow>
          case first_match 0 (ep_Allow p) req of
            Some m \<Rightarrow> \<lparr>pd_Action = ActionAllow, pd_Mode = PolicyDenyDefault, pd_PolicyID = ep_Binary p,
                       pd_MatchedBy = matched_by ''allow'' m, pd_Reason = RuleComment (er_Comment (snd m))\<rparr>
          | None \<Rightarrow> \<lparr>pd_Action = ActionDeny, pd_Mode = PolicyDenyDefault, pd_PolicyID = ep_Binary p,
                     pd_MatchedBy = '''', pd_Reason = NoAllowRule\<rparr>)"

definition decide_policy :: "PolicyMode \<Rightarrow> EgressPolicy \<Rightarrow> PolicyRequest \<Rightarrow> PolicyDecision" where
  "decide_policy dm p req =
     (let by = (\<lambda>a m w why. \<lparr>pd_Action = a, pd_Mode = m, pd_PolicyID = ep_Binary p, pd_MatchedBy = w, pd_Reason = why\<rparr>) in
      if \<not> subjectInScope p req then by ActionObserve dm '''' OutOfScope
      else if ep_Mode p = PolicyAllowAny then by ActionAllow PolicyAllowAny ''allow_any'' ModeAllowsAny
      else if ep_Mode p = PolicyObserve then by ActionObserve PolicyObserve '''' ModeObserves
      else if ep_Mode p = PolicyTorOnly then
        (if isTorEndpoint req then by ActionAllow PolicyTorOnly ''tor_loopback'' TorEndpoint
         else by ActionDeny PolicyTorOnly '''' NotTorEndpoint)
      else if ep_Mode p = PolicyDenyDefault then decide_rules p req
      else by ActionObserve dm '''' (UnknownPolicyMode (ep_Mode p)))"

definition Policy_Decide :: "PolicyRequest \<Rightarrow> PolicyEngine option \<Rightarrow> PolicyDecision" where
  "Policy_Decide req eo =
     (let obs = (\<lambda>m why. \<lparr>pd_Action = ActionObserve, pd_Mode = m, pd_PolicyID = '''', pd_MatchedBy = '''', pd_Reason = why\<rparr>) in
      case eo of
        None \<Rightarrow> obs PolicyObserve EngineNil
      | Some e \<Rightarrow>
          case pe_store e of
            None \<Rightarrow> obs (pe_defaultMode e) StoreNil
          | Some s \<Rightarrow>
              case Policy_Get s (pr_Binary req) of
                None \<Rightarrow> obs (pe_defaultMode e) NoPolicy
              | Some sp \<Rightarrow> decide_policy (pe_defaultMode e) (sp_Policy sp) req)"

subsection \<open>Proposals\<close>

record LedgerFlow =
  lf_Binary :: string
  lf_DestCIDR :: string
  lf_DestPort :: u16
  lf_Protocol :: string
  lf_SNI :: string
  lf_DNSName :: string
  lf_DestClass :: string
  lf_BytesOut :: u64
  lf_BytesIn :: u64
  lf_Connects :: u64
  lf_FirstSeen :: gotime
  lf_LastSeen :: gotime

record ProposalRule =
  pu_DestCIDR :: string
  pu_DestPort :: u16
  pu_Protocol :: string
  pu_SNI :: string
  pu_DNSName :: string
  pu_DestClass :: string
  pu_Observations :: u64
  pu_BytesOut :: u64
  pu_LastSeen :: gotime
  pu_Reason :: string
  pu_Confidence :: int

datatype proposal_note = NoFlowsNote | NoConnectsNote | TightNote nat | NoisyNote nat | WindowNote gotime gotime

record Proposal =
  pp_Binary :: string
  pp_ObservedDays :: int
  pp_TotalConnects :: u64
  pp_TotalBytesOut :: u64
  pp_UniqueDests :: nat
  pp_UniqueClasses :: "string list"
  pp_SuggestedMode :: PolicyMode
  pp_Allow :: "ProposalRule list"
  pp_Notes :: "proposal_note list"

abbreviation maxAllowRules :: nat where "maxAllowRules \<equiv> 30"

type_synonym ruleKey = "string \<times> u16 \<times> string \<times> string \<times> string"

definition flow_key :: "LedgerFlow \<Rightarrow> ruleKey" where
  "flow_key f = (lf_DestCIDR f, lf_DestPort f, lf_Protocol f, lf_SNI f, lf_DNSName f)"

record ruleAgg =
  ra_destClass :: string
  ra_connects :: u64
  ra_bytesOut :: u64
  ra_firstSeen :: gotime
  ra_lastSeen :: gotime
  ra_days :: "int list"

text \<open>The calendar day of a time, counted from the zero time, which is a midnight.\<close>

definition day_of :: "gotime \<Rightarrow> int" where
  "day_of t = t div (24 * hour)"

definition new_agg :: "LedgerFlow \<Rightarrow> ruleAgg" where
  "new_agg f = \<lparr>ra_destClass = lf_DestClass f, ra_connects = 0, ra_bytesOut = 0,
     ra_firstSeen = lf_FirstSeen f, ra_lastSeen = lf_LastSeen f, ra_days = []\<rparr>"

definition merge_flow :: "LedgerFlow \<Rightarrow> ruleAgg \<Rightarrow> ruleAgg" where
  "merge_flow f a =
     \<lparr>ra_destClass = (if lf_DestClass f \<noteq> '''' \<and> ra_destClass a = '''' then lf_DestClass f else ra_destClass a),
      ra_connects = ra_connects a + lf_Connects f,
      ra_bytesOut = ra_bytesOut a + lf_BytesOut f,
      ra_firstSeen = (if lf_FirstSeen f \<noteq> 0 \<and> (ra_firstSeen a = 0 \<or> lf_FirstSeen f < ra_firstSeen a)
                      then lf_FirstSeen f else ra_firstSeen a),
      ra_lastSeen = (if ra_lastSeen a < lf_LastSeen f then lf_LastSeen f else ra_lastSeen a),
      ra_days = (let d1 = (if lf_LastSeen f \<noteq> 0 then List.insert (day_of (lf_LastSeen f)) (ra_days a) else ra_days a)
                 in if lf_FirstSeen f \<noteq> 0 then List.insert (day_of (lf_FirstSeen f)) d1 else d1)\<rparr>"

definition agg_flow :: "(ruleKey, ruleAgg) gomap \<Rightarrow> LedgerFlow \<Rightarrow> (ruleKey, ruleAgg) gomap" where
  "agg_flow agg f =
     go_set (flow_key f) (merge_flow f (go_get_or (new_agg f) agg (flow_key f))) agg"

definition wellKnownInfraClasses :: "string list" where
  "wellKnownInfraClasses = [''cloudflare'', ''google'', ''aws'', ''azure'', ''akamai'', ''fastly'', ''cdn'']"

definition attachConfidence :: "u64 \<Rightarrow> string \<Rightarrow> nat \<Rightarrow> int" where
  "attachConfidence observations destClass spanDays =
     (let c0 = (if 100 < observations \<and> 3 \<le> spanDays then 80
                else if 10 < observations \<and> 1 \<le> spanDays then 60
                else if 1 \<le> observations then 30 else 0);
          c1 = (if to_lower destClass \<in> set wellKnownInfraClasses then c0 + 10 else c0);
          c2 = (if equal_fold destClass ''raw'' \<and> 30 < c1 then 30 else c1)
      in if 100 < c2 then 100 else c2)"

definition u64_str :: "u64 \<Rightarrow> string" where
  "u64_str x = dec_str (unat x)"

definition rule_reason :: "u64 \<Rightarrow> nat \<Rightarrow> string" where
  "rule_reason connects spanDays =
     (if 100 < connects \<and> 3 \<le> spanDays
      then ''observed '' @ u64_str connects @ '' connects across '' @ dec_str spanDays @ '' days''
      else if 10 < connects \<and> 1 \<le> spanDays
      then ''observed '' @ u64_str connects @ '' connects across '' @ dec_str spanDays @ '' day(s)''
      else ''sparse: '' @ u64_str connects @ '' connect(s) in '' @ dec_str spanDays @ '' day(s) '' @
        [CHR 0xE2, CHR 0x80, CHR 0x94] @ '' review'')"

definition proposal_rule :: "ruleKey \<times> ruleAgg \<Rightarrow> ProposalRule" where
  "proposal_rule e =
     (case e of ((cidr, port, proto, sni, dns), a) \<Rightarrow>
        \<lparr>pu_DestCIDR = cidr, pu_DestPort = port, pu_Protocol = proto, pu_SNI = sni, pu_DNSName = dns,
         pu_DestClass = ra_destClass a, pu_Observations = ra_connects a, pu_BytesOut = ra_bytesOut a,
         pu_LastSeen = ra_lastSeen a, pu_Reason = rule_reason (ra_connects a) (length (ra_days a)),
         pu_Confidence = attachConfidence (ra_connects a) (ra_destClass a) (length (ra_days a))\<rparr>)"

text \<open>Confidence and observations descending, then the network ascending.\<close>

definition rule_order :: "ProposalRule \<Rightarrow> int \<times> int \<times> string" where
  "rule_order r = (- pu_Confidence r, - uint (pu_Observations r), pu_DestCIDR r)"

definition observed_days :: "ruleAgg list \<Rightarrow> int" where
  "observed_days as =
     (let minFirst = foldl (\<lambda>m a. if ra_firstSeen a \<noteq> 0 \<and> (m = 0 \<or> ra_firstSeen a < m) then ra_firstSeen a else m) 0 as;
          maxLast = foldl (\<lambda>m a. if m < ra_lastSeen a then ra_lastSeen a else m) 0 as
      in if minFirst \<noteq> 0 \<and> maxLast \<noteq> 0 then time_sub maxLast minFirst sdiv (24 * hour) + 1 else 0)"

definition proposeOne :: "string \<Rightarrow> LedgerFlow list \<Rightarrow> gotime \<Rightarrow> gotime \<Rightarrow> Proposal" where
  "proposeOne binary flows start stop =
     (if flows = []
      then \<lparr>pp_Binary = binary, pp_ObservedDays = 0, pp_TotalConnects = 0, pp_TotalBytesOut = 0, pp_UniqueDests = 0,
            pp_UniqueClasses = [], pp_SuggestedMode = PolicyObserve, pp_Allow = [], pp_Notes = [NoFlowsNote]\<rparr>
      else
        let agg = foldl agg_flow [] flows;
            rules = sort_key rule_order (map proposal_rule agg);
            connects = foldl (\<lambda>n f. n + lf_Connects f) 0 flows;
            mode = (if connects \<noteq> 0 \<and> length rules \<le> maxAllowRules then PolicyDenyDefault else PolicyObserve);
            why = (if connects = 0 then NoConnectsNote
                     else if length rules \<le> maxAllowRules then TightNote (length rules) else NoisyNote (length rules))
        in \<lparr>pp_Binary = binary, pp_ObservedDays = observed_days (map snd agg), pp_TotalConnects = connects,
            pp_TotalBytesOut = foldl (\<lambda>n f. n + lf_BytesOut f) 0 flows, pp_UniqueDests = length rules,
            pp_UniqueClasses = sort (remdups (filter (\<lambda>c. c \<noteq> '''') (map lf_DestClass flows))),
            pp_SuggestedMode = mode, pp_Allow = rules,
            pp_Notes = why # (if start \<noteq> 0 \<and> stop \<noteq> 0 then [WindowNote start stop] else [])\<rparr>)"

text \<open>\<open>cancelled\<close> says whether the context is done before the binary is looked at.\<close>

fun propose_from :: "(string \<Rightarrow> bool) \<Rightarrow> (string \<Rightarrow> gotime \<Rightarrow> gotime \<Rightarrow> LedgerFlow list) \<Rightarrow> gotime \<Rightarrow> gotime \<Rightarrow>
    string list \<Rightarrow> Proposal list" where
  "propose_from cancelled query start stop [] = []"
| "propose_from cancelled query start stop (b # bs) =
     (if cancelled b then []
      else proposeOne b (query b start stop) start stop # propose_from cancelled query start stop bs)"

definition ProposeFromLedger ::
    "gotime \<times> gotime \<Rightarrow> (string \<Rightarrow> bool) \<Rightarrow> (string \<Rightarrow> gotime \<Rightarrow> gotime \<Rightarrow> LedgerFlow list) option \<Rightarrow> string list \<Rightarrow>
     gotime \<Rightarrow> gotime \<Rightarrow> Proposal list" where
  "ProposeFromLedger now cancelled src binaries start stop =
     (case src of
        None \<Rightarrow> []
      | Some query \<Rightarrow>
          propose_from cancelled query (if start = 0 then fst now - 14 * 24 * hour else start)
            (if stop = 0 then snd now else stop) binaries)"

definition proposed_rule :: "ProposalRule \<Rightarrow> EgressRule" where
  "proposed_rule u =
     \<lparr>er_DestCIDR = pu_DestCIDR u, er_DestClass = pu_DestClass u, er_Country = '''', er_ASN = '''',
      er_Ports = (if pu_DestPort u \<noteq> 0 then [pu_DestPort u] else []),
      er_Protocols = (if pu_Protocol u \<noteq> '''' then [pu_Protocol u] else []),
      er_SNI = pu_SNI u, er_DNSName = pu_DNSName u, er_Comment = pu_Reason u\<rparr>"

definition proposalComment :: "Proposal \<Rightarrow> string" where
  "proposalComment p =
     str_join ''; ''
       ([''auto-proposed from '' @ u64_str (pp_TotalConnects p) @ '' observed connect(s)''] @
        (if 0 < pp_ObservedDays p then [dec_str (nat (pp_ObservedDays p)) @ '' day(s) of observation''] else []) @
        (if pp_UniqueClasses p \<noteq> [] then [''classes: '' @ str_join '','' (pp_UniqueClasses p)] else []))"

definition ToPolicy :: "Proposal \<Rightarrow> EgressPolicy" where
  "ToPolicy p =
     \<lparr>ep_SchemaVersion = SchemaVersion, ep_Binary = pp_Binary p,
      ep_Mode = (if pp_SuggestedMode p = '''' then PolicyObserve else pp_SuggestedMode p),
      ep_SignedAt = 0, ep_Signer = '''', ep_Comment = proposalComment p, ep_Allow = map proposed_rule (pp_Allow p),
      ep_Deny = [], ep_OnlyUIDs = [], ep_OnlyCgroups = [], ep_ExceptUIDs = [], ep_ExceptCgroups = []\<rparr>"

definition ProposalToSignedPolicy ::
    "crypto \<Rightarrow> gotime \<Rightarrow> Proposal \<Rightarrow> string \<Rightarrow> string \<Rightarrow> policy_error + SignedPolicy" where
  "ProposalToSignedPolicy cr now p signer priv = Sign cr now (ToPolicy p) signer priv"

subsection \<open>Signatures\<close>

text \<open>Sorting is idempotent, so the form that is signed does not change when it is computed again.\<close>

lemma sortRuleLists_idem [simp]: "sortRuleLists (sortRuleLists r) = sortRuleLists r"
  by (simp add: sortRuleLists_def sorted_sort_id)

lemma sort_rules_idem [simp]: "sort_rules (sort_rules p) = sort_rules p"
  by (simp add: sort_rules_def)

lemma canonical_form_sort_rules [simp]: "canonical_form (sort_rules p) = canonical_form p"
  by (simp add: canonical_form_def sort_rules_def)

lemma rule_validate_iff:
  "rule_validate r = None \<longleftrightarrow> (er_DestCIDR r = '''' \<or> ParseCIDR (er_DestCIDR r) \<noteq> None) \<and>
     (\<forall>p\<in>set (er_Protocols r). p \<in> set [''tcp'', ''udp'', ''icmp'', ''''])"
proof -
  have e: "(case x of None \<Rightarrow> None | Some p \<Rightarrow> Some (UnknownProtocol p)) = None \<longleftrightarrow> x = None" for x
    by (cases x) simp_all
  show ?thesis unfolding rule_validate_def by (simp only: e find_None_iff split: if_split) auto
qed

lemma rule_validate_sort: "rule_validate (sortRuleLists r) = None \<longleftrightarrow> rule_validate r = None"
  by (simp add: rule_validate_iff sortRuleLists_def)

lemma rules_validate_iff: "rules_validate a i rs = None \<longleftrightarrow> (\<forall>r\<in>set rs. rule_validate r = None)"
  by (induction rs arbitrary: i) (auto split: option.split)

lemma Validate_iff:
  "Policy_Validate p = None \<longleftrightarrow>
     ep_SchemaVersion p \<noteq> 0 \<and> ep_SchemaVersion p \<le> SchemaVersion \<and> ep_Binary p \<noteq> '''' \<and>
     ep_Mode p \<in> set [PolicyObserve, PolicyAllowAny, PolicyDenyDefault, PolicyTorOnly] \<and> ep_Signer p \<noteq> '''' \<and>
     (\<forall>r\<in>set (ep_Allow p). rule_validate r = None) \<and> (\<forall>r\<in>set (ep_Deny p). rule_validate r = None)"
proof -
  have e: "(case x of Some e \<Rightarrow> Some e | None \<Rightarrow> y) = None \<longleftrightarrow> x = None \<and> y = None"
    for x y :: "policy_error option" by (cases x) simp_all
  show ?thesis unfolding Policy_Validate_def by (simp only: e rules_validate_iff split: if_split) auto
qed

lemma Validate_sort_rules [simp]: "Policy_Validate (sort_rules p) = None \<longleftrightarrow> Policy_Validate p = None"
  by (simp only: Validate_iff) (simp add: sort_rules_def rule_validate_sort)

lemma sort_rules_binary [simp]: "ep_Binary (sort_rules p) = ep_Binary p"
  by (simp add: sort_rules_def)

definition verified :: "crypto \<Rightarrow> string \<Rightarrow> SignedPolicy \<Rightarrow> bool" where
  "verified cr pub sp \<longleftrightarrow> snd (Verify cr sp pub) = None"

lemma Verify_ok_iff:
  "snd (Verify cr sp pub) = None \<longleftrightarrow>
     length pub = 32 \<and> sp_Algorithm sp = AlgorithmEd25519 \<and> sp_Signer sp \<noteq> '''' \<and>
     Policy_Validate (sp_Policy sp) = None \<and>
     (\<exists>sig b. b64_decode (sp_Signature sp) = Some sig \<and>
        cr_Encode cr (canonical_form (sp_Policy sp)) = Some b \<and> cr_Verify cr pub b sig)"
  by (auto simp: Verify_def canonicalBytes_def split: option.split)

lemma Verify_leaves:
  "snd (Verify cr sp pub) = None \<Longrightarrow> fst (Verify cr sp pub) = sp\<lparr>sp_Policy := sort_rules (sp_Policy sp)\<rparr>"
  by (auto simp: Verify_def canonicalBytes_def split: option.splits if_splits)

lemma Verify_keeps_verified:
  assumes "Verify cr sp pub = (sp', None)"
  shows "verified cr pub sp' \<and> ep_Binary (sp_Policy sp') = ep_Binary (sp_Policy sp)"
proof -
  have ok: "snd (Verify cr sp pub) = None" using assms by simp
  have "sp' = sp\<lparr>sp_Policy := sort_rules (sp_Policy sp)\<rparr>" using Verify_leaves [OF ok] assms by simp
  then show ?thesis using ok by (simp add: verified_def Verify_ok_iff)
qed

text \<open>
  C18: signing and verifying round trip. With the key pair's law (a signature made with the private
  key verifies with the public one, on every message), whatever \<open>Sign\<close> returns is accepted by
  \<open>Verify\<close> and left as it is, although both sort the rules' lists in place; and so is every other
  valid spelling of the same policy, with the scope lists and the rules' lists in any order and the
  signing time within the same second.
\<close>

theorem sign_verify_roundtrip:
  assumes "\<And>m. cr_Verify cr pub m (cr_Sign cr priv m)" and "length pub = 32"
    and "Sign cr now p signerID priv = Inr sp"
  shows "Verify cr sp pub = (sp, None) \<and>
    (\<forall>q. canonical_form q = canonical_form (sp_Policy sp) \<and> Policy_Validate q = None \<longrightarrow>
       verified cr pub (sp\<lparr>sp_Policy := q\<rparr>))"
proof -
  let ?p = "sign_defaults now signerID p"
  from assms(3) obtain b where b: "cr_Encode cr (canonical_form ?p) = Some b"
    and v: "Policy_Validate ?p = None" and s: "signerID \<noteq> ''''"
    and sp: "sp = \<lparr>sp_Policy = sort_rules ?p, sp_Signer = signerID, sp_Algorithm = AlgorithmEd25519,
                   sp_Signature = b64_encode (cr_Sign cr priv b)\<rparr>"
    by (auto simp: Sign_def canonicalBytes_def Let_def split: option.splits if_splits)
  have ok: "snd (Verify cr sp pub) = None"
    using assms(1,2) b v s by (simp add: Verify_ok_iff sp b64_roundtrip)
  from Verify_leaves [OF ok] have "fst (Verify cr sp pub) = sp" by (simp add: sp)
  with ok have "Verify cr sp pub = (sp, None)" by (simp add: prod_eq_iff)
  moreover have "verified cr pub (sp\<lparr>sp_Policy := q\<rparr>)"
    if "canonical_form q = canonical_form (sp_Policy sp)" "Policy_Validate q = None" for q
    using that assms(1,2) b s by (simp add: verified_def Verify_ok_iff sp b64_roundtrip)
  ultimately show ?thesis by blast
qed

subsection \<open>The store holds verified policies\<close>

datatype policy_call =
    PReload dir_listing "string \<Rightarrow> SignedPolicy option"
  | PVerifyAndSave save_outcome SignedPolicy
  | PDelete remove_outcome string

primrec policy_step :: "crypto \<Rightarrow> PolicyStore \<Rightarrow> policy_call \<Rightarrow> PolicyStore" where
  "policy_step cr s (PReload listing load) = fst (Policy_Reload cr listing load s)"
| "policy_step cr s (PVerifyAndSave out sp) = fst (VerifyAndSave cr out sp s)"
| "policy_step cr s (PDelete out b) = fst (Policy_Delete out b s)"

definition good_entries :: "crypto \<Rightarrow> string \<Rightarrow> (string, SignedPolicy) gomap \<Rightarrow> bool" where
  "good_entries cr pub m \<longleftrightarrow> go_wf m \<and>
     (\<forall>b sp. go_get m b = Some sp \<longrightarrow> ep_Binary (sp_Policy sp) = b \<and> verified cr pub sp)"

definition store_ok :: "crypto \<Rightarrow> PolicyStore \<Rightarrow> bool" where
  "store_ok cr s \<longleftrightarrow> good_entries cr (ps_publicKey s) (ps_policies s)"

lemma good_entries_Nil [simp]: "good_entries cr pub []"
  by (simp add: good_entries_def)

lemma good_entries_set:
  "good_entries cr pub m \<Longrightarrow> verified cr pub sp \<Longrightarrow> good_entries cr pub (go_set (ep_Binary (sp_Policy sp)) sp m)"
  by (simp add: good_entries_def)

lemma good_entries_del: "good_entries cr pub m \<Longrightarrow> good_entries cr pub (go_del b m)"
  by (simp add: good_entries_def)

lemma reload_entry_good:
  "good_entries cr pub (fst acc) \<Longrightarrow> good_entries cr pub (fst (reload_entry cr load pub acc e))"
  by (auto simp: reload_entry_def Let_def dest!: Verify_keeps_verified intro: good_entries_set
      split: option.split prod.split)

lemma reload_good:
  "good_entries cr pub (fst acc) \<Longrightarrow> good_entries cr pub (fst (foldl (reload_entry cr load pub) acc es))"
  by (induction es arbitrary: acc) (simp_all add: reload_entry_good)

lemma policy_step_key [simp]: "ps_publicKey (policy_step cr s c) = ps_publicKey s"
  by (cases c) (auto simp: Policy_Reload_def VerifyAndSave_def Policy_Save_def Policy_Delete_def
      split: dir_listing.split prod.split option.split save_outcome.split)

lemma policy_step_ok: "store_ok cr s \<Longrightarrow> store_ok cr (policy_step cr s c)"
proof (cases c)
  case (PReload listing load)
  assume "store_ok cr s"
  then show ?thesis
    using reload_good [of cr "ps_publicKey s" "([], None)" load]
    by (auto simp: PReload store_ok_def Policy_Reload_def case_prod_beta split: dir_listing.split)
next
  case (PVerifyAndSave out sp)
  assume "store_ok cr s"
  then show ?thesis
    by (auto simp: PVerifyAndSave store_ok_def VerifyAndSave_def Policy_Save_def
        dest!: Verify_keeps_verified intro: good_entries_set split: prod.split option.split save_outcome.split)
next
  case (PDelete out b)
  assume "store_ok cr s"
  then show ?thesis by (simp add: PDelete store_ok_def Policy_Delete_def good_entries_del)
qed

interpretation pols: machine "\<lparr>ps_dir = d, ps_publicKey = pub, ps_policies = []\<rparr>" "policy_step cr" "store_ok cr"
  for d pub cr
  by unfold_locales (simp add: store_ok_def, rule policy_step_ok)

lemma policy_run_key [simp]: "ps_publicKey (foldl (policy_step cr) s cs) = ps_publicKey s"
  by (induction cs arbitrary: s) simp_all

lemma Policy_Get_verified:
  assumes "store_ok cr s" and "Policy_Get s b = Some sp"
  shows "verified cr (ps_publicKey s) sp \<and> ep_Binary (sp_Policy sp) \<in> {b, path_base b}"
  using assms
  by (auto simp: Policy_Get_def store_ok_def good_entries_def split: option.splits if_splits)

lemma verified_valid: "verified cr pub sp \<Longrightarrow> Policy_Validate (sp_Policy sp) = None"
  by (simp add: verified_def Verify_ok_iff)

lemma first_match_None: "first_match i rs req = None \<longleftrightarrow> (\<forall>r\<in>set rs. \<not> matchRule r req)"
  by (induction rs arbitrary: i) auto

lemma decide_rules_action:
  "pd_Action (decide_rules p req) =
     (if (\<exists>r\<in>set (ep_Deny p). matchRule r req) then ActionDeny
      else if (\<exists>r\<in>set (ep_Allow p). matchRule r req) then ActionAllow else ActionDeny)"
proof -
  have e: "(\<exists>r\<in>set rs. matchRule r req) \<longleftrightarrow> first_match 0 rs req \<noteq> None" for rs
    by (simp add: first_match_None)
  show ?thesis unfolding e decide_rules_def by (simp split: option.split)
qed

text \<open>
  C6: the engine acts only on what was signed. Whatever sequence of reloads, verified saves and
  deletions a store has been through, and whatever the files held, the verdict on a connection is
  \<open>observe\<close> with no policy named, or it is the verdict of a policy for that binary (by full path or
  base name) whose signature verifies and which is valid; so the branch for an unknown mode is
  never taken. A connection is let through only under \<open>allow_any\<close>, to the Tor endpoint under
  \<open>tor_only\<close>, or under \<open>deny_default\<close> when an allow rule and no deny rule matches; it is denied
  exactly in the other cases of the two strict modes; and it is never sent to the verifier.
\<close>

theorem only_signed_policies_act:
  assumes "NewPolicyStore d pub = Inr s0" and "s = foldl (policy_step cr) s0 calls"
    and "dec = Policy_Decide req (Some (NewPolicyEngine (Some s) m))"
  shows "(dec = \<lparr>pd_Action = ActionObserve, pd_Mode = (if m = '''' then PolicyObserve else m), pd_PolicyID = '''',
                 pd_MatchedBy = '''', pd_Reason = NoPolicy\<rparr> \<and> Policy_Get s (pr_Binary req) = None) \<or>
    (\<exists>sp p. Policy_Get s (pr_Binary req) = Some sp \<and> p = sp_Policy sp \<and> verified cr pub sp \<and>
       ep_Binary p \<in> {pr_Binary req, path_base (pr_Binary req)} \<and> pd_PolicyID dec = ep_Binary p \<and>
       (pd_Action dec = ActionAllow \<longleftrightarrow> subjectInScope p req \<and>
          (ep_Mode p = PolicyAllowAny \<or> (ep_Mode p = PolicyTorOnly \<and> isTorEndpoint req) \<or>
           (ep_Mode p = PolicyDenyDefault \<and> (\<exists>r\<in>set (ep_Allow p). matchRule r req) \<and>
            \<not> (\<exists>r\<in>set (ep_Deny p). matchRule r req)))) \<and>
       (pd_Action dec = ActionDeny \<longleftrightarrow> subjectInScope p req \<and>
          ((ep_Mode p = PolicyTorOnly \<and> \<not> isTorEndpoint req) \<or>
           (ep_Mode p = PolicyDenyDefault \<and> ((\<exists>r\<in>set (ep_Deny p). matchRule r req) \<or>
            \<not> (\<exists>r\<in>set (ep_Allow p). matchRule r req))))) \<and>
       pd_Action dec \<noteq> ActionVerify \<and> pd_Reason dec \<noteq> UnknownPolicyMode (ep_Mode p))"
proof (cases "Policy_Get s (pr_Binary req)")
  case None
  then show ?thesis by (simp add: assms(3) Policy_Decide_def NewPolicyEngine_def)
next
  case (Some sp)
  have s0: "s0 = \<lparr>ps_dir = d, ps_publicKey = pub, ps_policies = []\<rparr>"
    using assms(1) by (auto simp: NewPolicyStore_def split: if_splits)
  have "store_ok cr s" unfolding assms(2) s0 by (rule pols.run_inv)
  from Policy_Get_verified [OF this Some]
  have v: "verified cr pub sp" and b: "ep_Binary (sp_Policy sp) \<in> {pr_Binary req, path_base (pr_Binary req)}"
    by (simp_all add: assms(2) s0)
  have modes: "ep_Mode (sp_Policy sp) \<in> {PolicyObserve, PolicyAllowAny, PolicyDenyDefault, PolicyTorOnly}"
    using verified_valid [OF v] by (simp add: Validate_iff)
  have d: "dec = decide_policy (if m = '''' then PolicyObserve else m) (sp_Policy sp) req"
    by (simp add: assms(3) Policy_Decide_def NewPolicyEngine_def Some)
  have "pd_PolicyID (decide_rules (sp_Policy sp) req) = ep_Binary (sp_Policy sp)"
    "pd_Reason (decide_rules (sp_Policy sp) req) \<noteq> UnknownPolicyMode x" for x
    by (simp_all add: decide_rules_def split: option.split)
  then show ?thesis
    using v b modes by (auto simp: Some d decide_policy_def decide_rules_action Let_def)
qed

subsection \<open>Proposals cover what was observed\<close>

lemma agg_has: "f \<in> set fs \<Longrightarrow> \<exists>a. go_get (foldl agg_flow m fs) (flow_key f) = Some a"
  by (induction fs rule: rev_induct) (auto simp: agg_flow_def)

text \<open>The class kept for a destination is the class of one of the flows to it.\<close>

lemma agg_class:
  "go_get (foldl agg_flow [] fs) k = Some a \<Longrightarrow> \<exists>f\<in>set fs. flow_key f = k \<and> ra_destClass a = lf_DestClass f"
proof (induction fs arbitrary: a rule: rev_induct)
  case (snoc f fs)
  show ?case
  proof (cases "k = flow_key f")
    case True
    then show ?thesis
      using snoc.prems snoc.IH
      by (auto simp: agg_flow_def merge_flow_def new_agg_def go_get_or_def split: option.splits if_splits)
  next
    case False
    then show ?thesis using snoc by (auto simp: agg_flow_def)
  qed
qed simp

lemma to_lower_Nil [simp]: "to_lower s = [] \<longleftrightarrow> s = []"
  by (cases s) auto

lemma has_suffix_drop [simp]: "has_suffix s (drop n s)" "has_suffix s s"
  by (simp_all add: has_suffix_suffix suffix_drop)

lemma matchHostname_refl: "trim_space h \<noteq> '''' \<Longrightarrow> matchHostname h h"
  by (simp add: matchHostname_def Let_def)

lemma sort_Nil_iff [simp]: "sort xs = [] \<longleftrightarrow> xs = []"
  by (metis set_empty set_sort)

lemma matchRule_sort [simp]: "matchRule (sortRuleLists r) req = matchRule r req"
  by (simp add: matchRule_def sortRuleLists_def containsStringCI_def list_ex_iff)

text \<open>The connection of a flow, as a process makes it again.\<close>

definition flow_request :: "u32 \<Rightarrow> string \<Rightarrow> ip option \<Rightarrow> string \<Rightarrow> string \<Rightarrow> LedgerFlow \<Rightarrow> PolicyRequest" where
  "flow_request uid cg dest country asn f =
     \<lparr>pr_Binary = lf_Binary f, pr_UID = uid, pr_Cgroup = cg, pr_DestIP = dest, pr_DestPort = lf_DestPort f,
      pr_Protocol = lf_Protocol f, pr_SNI = lf_SNI f, pr_DNSName = lf_DNSName f, pr_DestClass = lf_DestClass f,
      pr_Country = country, pr_ASN = asn\<rparr>"

lemma proposed_rule_matches:
  assumes "lf_DestCIDR f = '''' \<or> match_cidr (lf_DestCIDR f) dest"
    and "lf_SNI f = '''' \<or> trim_space (lf_SNI f) \<noteq> ''''"
    and "lf_DNSName f = '''' \<or> trim_space (lf_DNSName f) \<noteq> ''''"
    and "ra_destClass a = lf_DestClass f"
  shows "matchRule (proposed_rule (proposal_rule (flow_key f, a))) (flow_request uid cg dest country asn f)"
  using assms matchHostname_refl [of "lf_SNI f"] matchHostname_refl [of "lf_DNSName f"]
  by (auto simp: matchRule_def proposed_rule_def proposal_rule_def flow_key_def flow_request_def
      equal_fold_def containsStringCI_def)

lemma proposal_has_rule:
  assumes "f \<in> set flows" and "\<forall>g\<in>set flows. flow_key g = flow_key f \<longrightarrow> lf_DestClass g = lf_DestClass f"
  shows "\<exists>a. ra_destClass a = lf_DestClass f \<and>
    proposed_rule (proposal_rule (flow_key f, a)) \<in> set (ep_Allow (ToPolicy (proposeOne b flows t1 t2)))"
proof -
  from agg_has [OF assms(1)] obtain a where a: "go_get (foldl agg_flow [] flows) (flow_key f) = Some a" by blast
  from agg_class [OF a] assms(2) have "ra_destClass a = lf_DestClass f" by auto
  moreover from map_of_SomeD [OF a] assms(1)
  have "proposed_rule (proposal_rule (flow_key f, a)) \<in> set (ep_Allow (ToPolicy (proposeOne b flows t1 t2)))"
    by (auto simp: ToPolicy_def proposeOne_def Let_def)
  ultimately show ?thesis by blast
qed


text \<open>A policy file never leaves the store's directory: its name has no separator, blank or \<^verbatim>\<open>..\<close>.\<close>

lemma sanitizeBinary_plain:
  "sanitizeBinary b \<noteq> ''''"
  "CHR ''/'' \<notin> set (sanitizeBinary b)" "CHR 0x5C \<notin> set (sanitizeBinary b)" "CHR '' '' \<notin> set (sanitizeBinary b)"
proof -
  let ?b1 = "replace_all ''/'' ''_'' (if has_prefix b ''/'' then drop 1 b else b)"
  let ?b2 = "replace_all [CHR 0x5C] ''_'' ?b1"
  let ?b3 = "replace_all ''..'' ''_'' ?b2"
  let ?b4 = "replace_all '' '' ''_'' ?b3"
  have 1: "CHR ''/'' \<notin> set ?b1" by (rule replace_byte_gone) simp
  have 2: "CHR ''/'' \<notin> set ?b2" using 1 set_replace_all [of "[CHR 0x5C]" "''_''" ?b1] by auto
  have 3: "CHR 0x5C \<notin> set ?b2" by (rule replace_byte_gone) simp
  have 4: "CHR ''/'' \<notin> set ?b3" "CHR 0x5C \<notin> set ?b3"
    using 2 3 set_replace_all [of "''..''" "''_''" ?b2] by auto
  have 5: "CHR ''/'' \<notin> set ?b4" "CHR 0x5C \<notin> set ?b4"
    using 4 set_replace_all [of "'' ''" "''_''" ?b3] by auto
  have 6: "CHR '' '' \<notin> set ?b4" by (rule replace_byte_gone) simp
  show "sanitizeBinary b \<noteq> ''''" by (simp add: sanitizeBinary_def Let_def)
  show "CHR ''/'' \<notin> set (sanitizeBinary b)" "CHR 0x5C \<notin> set (sanitizeBinary b)"
    "CHR '' '' \<notin> set (sanitizeBinary b)"
    using 5 6 by (simp_all only: sanitizeBinary_def Let_def split: if_split) simp_all
qed

subsection \<open>Sample inputs\<close>

definition sample_crypto :: crypto where
  "sample_crypto = \<lparr>cr_Encode = (\<lambda>p. Some (ep_Binary p)), cr_Sign = (\<lambda>k m. m), cr_Verify = (\<lambda>k m sig. sig = m)\<rparr>"

definition sample_flow :: LedgerFlow where
  "sample_flow = \<lparr>lf_Binary = ''/usr/bin/curl'', lf_DestCIDR = ''1.1.1.0/24'', lf_DestPort = 443, lf_Protocol = ''tcp'',
     lf_SNI = ''one.one'', lf_DNSName = '''', lf_DestClass = ''cloudflare'', lf_BytesOut = 10, lf_BytesIn = 20,
     lf_Connects = 3, lf_FirstSeen = 100, lf_LastSeen = 200\<rparr>"

definition sample_pub :: string where "sample_pub = replicate 32 CHR ''k''"

definition sample_priv :: string where "sample_priv = replicate 64 CHR ''k''"

definition sample_signed :: SignedPolicy where
  "sample_signed =
     \<lparr>sp_Policy = \<lparr>ep_SchemaVersion = 1, ep_Binary = ''/usr/bin/curl'', ep_Mode = PolicyDenyDefault, ep_SignedAt = 0,
        ep_Signer = ''op'',
        ep_Comment = ''auto-proposed from 3 observed connect(s); 1 day(s) of observation; classes: cloudflare'',
        ep_Allow = [\<lparr>er_DestCIDR = ''1.1.1.0/24'', er_DestClass = ''cloudflare'', er_Country = '''', er_ASN = '''',
          er_Ports = [443], er_Protocols = [''tcp''], er_SNI = ''one.one'', er_DNSName = '''',
          er_Comment = ''sparse: 3 connect(s) in 1 day(s) '' @ [CHR 0xE2, CHR 0x80, CHR 0x94] @ '' review''\<rparr>],
        ep_Deny = [], ep_OnlyUIDs = [], ep_OnlyCgroups = [], ep_ExceptUIDs = [], ep_ExceptCgroups = []\<rparr>,
      sp_Signer = ''op'', sp_Algorithm = ''ed25519'', sp_Signature = ''L3Vzci9iaW4vY3VybA==''\<rparr>"

definition sample_store :: PolicyStore where
  "sample_store = projr (NewPolicyStore ''/etc/xhelix/policies'' sample_pub)"

definition sample_saved :: PolicyStore where
  "sample_saved = foldl (policy_step sample_crypto) sample_store [PVerifyAndSave SaveWritten sample_signed]"

lemma sample_sign: "ProposalToSignedPolicy sample_crypto 5 (proposeOne ''/usr/bin/curl'' [sample_flow] 1 2) ''op'' sample_priv =
    Inr sample_signed"
  by code_simp

lemma sample_verify: "Verify sample_crypto sample_signed sample_pub = (sample_signed, None)"
proof -
  have "sp_Signature sample_signed = b64_encode ''/usr/bin/curl''" by code_simp
  then have "b64_decode (sp_Signature sample_signed) = Some ''/usr/bin/curl''" by (simp only: b64_roundtrip)
  moreover have "Policy_Validate (sp_Policy sample_signed) = None \<and>
      ep_Binary (canonical_form (sp_Policy sample_signed)) = ''/usr/bin/curl'' \<and>
      sort_rules (sp_Policy sample_signed) = sp_Policy sample_signed \<and>
      sp_Algorithm sample_signed = AlgorithmEd25519 \<and> sp_Signer sample_signed = ''op'' \<and> length sample_pub = 32"
    by code_simp
  ultimately have ok: "snd (Verify sample_crypto sample_signed sample_pub) = None"
    and "sort_rules (sp_Policy sample_signed) = sp_Policy sample_signed"
    by (simp_all add: Verify_ok_iff sample_crypto_def)
  with Verify_leaves [OF ok] show ?thesis by (simp add: prod_eq_iff)
qed

lemma sample_get: "Policy_Get sample_saved ''/usr/bin/curl'' = Some sample_signed"
proof -
  have "ps_publicKey sample_store = sample_pub" "ep_Binary (sp_Policy sample_signed) = ''/usr/bin/curl''"
    by (simp_all add: sample_store_def NewPolicyStore_def sample_pub_def sample_signed_def)
  then show ?thesis
    by (simp add: sample_saved_def VerifyAndSave_def sample_verify Policy_Save_def Policy_Get_def)
qed

theorem sign_verify_roundtrip_witness: "fst (Verify sample_crypto sample_signed sample_pub) = sample_signed"
proof -
  have "Sign sample_crypto 5 (ToPolicy (proposeOne ''/usr/bin/curl'' [sample_flow] 1 2)) ''op'' sample_priv = Inr sample_signed"
    using sample_sign by (simp add: ProposalToSignedPolicy_def)
  from sign_verify_roundtrip [OF _ _ this, of sample_pub] show ?thesis
    by (simp add: sample_crypto_def sample_pub_def)
qed

theorem only_signed_policies_act_witness:
  "pd_Action (Policy_Decide (flow_request 0 '''' (ParseIP ''8.8.8.8'') '''' '''' sample_flow)
     (Some (NewPolicyEngine (Some sample_saved) ''''))) = ActionDeny \<and>
   verified sample_crypto sample_pub sample_signed"
proof -
  let ?req = "flow_request 0 '''' (ParseIP ''8.8.8.8'') '''' '''' sample_flow"
  have 0: "NewPolicyStore ''/etc/xhelix/policies'' sample_pub = Inr sample_store" by code_simp
  have g: "Policy_Get sample_saved (pr_Binary ?req) = Some sample_signed"
    using sample_get by (simp add: flow_request_def sample_flow_def)
  have m: "ep_Mode (sp_Policy sample_signed) = PolicyDenyDefault \<and> subjectInScope (sp_Policy sample_signed) ?req \<and>
      \<not> (\<exists>r\<in>set (ep_Allow (sp_Policy sample_signed)). matchRule r ?req)"
    by code_simp
  from only_signed_policies_act [OF 0 sample_saved_def refl, of ?req "''''"] g m show ?thesis by auto
qed


text \<open>A destination whose class changes between two flows keeps the first class, so the policy drawn
  from both of them denies the second.\<close>

lemma class_change_is_denied:
  "pd_Action (decide_policy '''' (ToPolicy (proposeOne ''/usr/bin/curl'' [sample_flow, sample_flow\<lparr>lf_DestClass := ''cdn''\<rparr>] 1 2))
     (flow_request 0 '''' (ParseIP ''1.1.1.1'') '''' '''' (sample_flow\<lparr>lf_DestClass := ''cdn''\<rparr>))) = ActionDeny"
  by code_simp

end
