(* ===== verification/TrustZone.thy ===== *)
theory TrustZone
  imports GoNet
begin

text \<open>
  Trust zones, \<^verbatim>\<open>pkg/trustzone\<close>: the operator's labels for subjects, kept by a manager that reads and
  writes one YAML file (\<^verbatim>\<open>zone.go\<close>), and the policy matrix from labels and destinations to actions
  (\<^verbatim>\<open>decision.go\<close>).

  A nil manager is \<open>None\<close>. The YAML parser is an argument of \<open>Zone_Reload\<close>, the answers of the file
  system are arguments too, and \<open>persist\<close> returns the document it writes. Reason texts are constructors
  with the values they print; the watcher is a sequence of \<open>Zone_Reload\<close> calls.
\<close>

subsection \<open>Labels and assignments\<close>

type_synonym Label = string

abbreviation LabelTrusted :: Label where "LabelTrusted \<equiv> ''trusted''"
abbreviation LabelRestricted :: Label where "LabelRestricted \<equiv> ''restricted''"
abbreviation LabelUntrusted :: Label where "LabelUntrusted \<equiv> ''untrusted''"
abbreviation LabelTorOnly :: Label where "LabelTorOnly \<equiv> ''tor_only''"

record Assignment =
  as_UID :: "u32 option"
  as_CGroupUnit :: string
  as_CGroupClass :: string
  as_Comm :: string
  as_Label :: Label
  as_Comment :: string

record ZoneConfig =
  zc_DefaultLabel :: Label
  zc_Assignments :: "Assignment list"

record Subject =
  su_UID :: u32
  su_CGroupUnit :: string
  su_CGroupClass :: string
  su_Comm :: string

record ZoneManager =
  zm_defaultLbl :: Label
  zm_assignments :: "Assignment list"
  zm_path :: string

definition ZoneManager_New :: "string \<Rightarrow> Label \<Rightarrow> ZoneManager" where
  "ZoneManager_New path defaultLabel =
     \<lparr>zm_defaultLbl = (if defaultLabel = '''' then LabelTrusted else defaultLabel), zm_assignments = [], zm_path = path\<rparr>"

definition assignmentMatches :: "Assignment \<Rightarrow> Subject \<Rightarrow> bool" where
  "assignmentMatches a s =
     (if as_UID a \<noteq> None \<and> as_UID a \<noteq> Some (su_UID s) then False
      else if as_CGroupUnit a \<noteq> '''' \<and> as_CGroupUnit a \<noteq> su_CGroupUnit s then False
      else if as_CGroupClass a \<noteq> '''' \<and> as_CGroupClass a \<noteq> su_CGroupClass s then False
      else if as_Comm a \<noteq> '''' \<and> as_Comm a \<noteq> su_Comm s then False
      else as_UID a \<noteq> None \<or> as_CGroupUnit a \<noteq> '''' \<or> as_CGroupClass a \<noteq> '''' \<or> as_Comm a \<noteq> '''')"

fun lookup_in :: "Label \<Rightarrow> Assignment list \<Rightarrow> Subject \<Rightarrow> Label" where
  "lookup_in d [] s = d"
| "lookup_in d (a # as) s = (if assignmentMatches a s then as_Label a else lookup_in d as s)"

definition Zone_Lookup :: "ZoneManager option \<Rightarrow> Subject \<Rightarrow> Label" where
  "Zone_Lookup mo s =
     (case mo of None \<Rightarrow> LabelTrusted | Some m \<Rightarrow> lookup_in (zm_defaultLbl m) (zm_assignments m) s)"

definition Zone_Default :: "ZoneManager option \<Rightarrow> Label" where
  "Zone_Default mo = (case mo of None \<Rightarrow> LabelTrusted | Some m \<Rightarrow> zm_defaultLbl m)"

definition Zone_All :: "ZoneManager option \<Rightarrow> Assignment list" where
  "Zone_All mo = (case mo of None \<Rightarrow> [] | Some m \<Rightarrow> zm_assignments m)"

subsection \<open>The file\<close>

datatype zone_error =
    NilManager | ZoneFileMissing | ZoneReadFailed | ZoneParseFailed | LabelNeeded | IndexOutOfRange int nat | EmptyLabel
  | ZonePersistFailed

datatype zone_file = ZoneMissing | ZoneUnreadable | ZoneData string

definition zone_config :: "(string \<Rightarrow> ZoneConfig option) \<Rightarrow> string \<Rightarrow> ZoneConfig option" where
  "zone_config parse dat =
     (if dat = '''' then Some \<lparr>zc_DefaultLabel = '''', zc_Assignments = []\<rparr> else parse dat)"

definition Zone_Reload ::
    "(string \<Rightarrow> ZoneConfig option) \<Rightarrow> zone_file \<Rightarrow> ZoneManager option \<Rightarrow> ZoneManager option \<times> int \<times> zone_error option" where
  "Zone_Reload parse fil mo =
     (case mo of
        None \<Rightarrow> (None, 0, Some NilManager)
      | Some m \<Rightarrow>
          case fil of
            ZoneMissing \<Rightarrow> (Some (m\<lparr>zm_assignments := []\<rparr>), 0, Some ZoneFileMissing)
          | ZoneUnreadable \<Rightarrow> (Some m, 0, Some ZoneReadFailed)
          | ZoneData dat \<Rightarrow>
              case zone_config parse dat of
                None \<Rightarrow> (Some m, 0, Some ZoneParseFailed)
              | Some cfg \<Rightarrow>
                  (Some (m\<lparr>zm_defaultLbl := (if zc_DefaultLabel cfg \<noteq> '''' then zc_DefaultLabel cfg else zm_defaultLbl m),
                           zm_assignments := zc_Assignments cfg\<rparr>),
                   int (length (zc_Assignments cfg)), None))"

text \<open>What is written, and the answer of the file system to it (a marshal, mkdir, write or rename error).\<close>

definition persist :: "bool \<Rightarrow> ZoneManager \<Rightarrow> ZoneConfig \<times> zone_error option" where
  "persist ok m =
     (\<lparr>zc_DefaultLabel = zm_defaultLbl m, zc_Assignments = zm_assignments m\<rparr>,
      if ok then None else Some ZonePersistFailed)"

definition Zone_Add :: "bool \<Rightarrow> Assignment \<Rightarrow> ZoneManager option \<Rightarrow> ZoneManager option \<times> zone_error option" where
  "Zone_Add ok a mo =
     (case mo of
        None \<Rightarrow> (None, Some NilManager)
      | Some m \<Rightarrow>
          if as_Label a = '''' then (Some m, Some LabelNeeded)
          else let m1 = m\<lparr>zm_assignments := zm_assignments m @ [a]\<rparr> in (Some m1, snd (persist ok m1)))"

definition Zone_Remove :: "bool \<Rightarrow> int \<Rightarrow> ZoneManager option \<Rightarrow> ZoneManager option \<times> zone_error option" where
  "Zone_Remove ok i mo =
     (case mo of
        None \<Rightarrow> (None, Some NilManager)
      | Some m \<Rightarrow>
          if i < 0 \<or> int (length (zm_assignments m)) \<le> i
          then (Some m, Some (IndexOutOfRange i (length (zm_assignments m))))
          else let m1 = m\<lparr>zm_assignments := take (nat i) (zm_assignments m) @ drop (Suc (nat i)) (zm_assignments m)\<rparr>
               in (Some m1, snd (persist ok m1)))"

definition SetDefault :: "bool \<Rightarrow> Label \<Rightarrow> ZoneManager option \<Rightarrow> ZoneManager option \<times> zone_error option" where
  "SetDefault ok l mo =
     (case mo of
        None \<Rightarrow> (None, Some NilManager)
      | Some m \<Rightarrow>
          if l = '''' then (Some m, Some EmptyLabel)
          else let m1 = m\<lparr>zm_defaultLbl := l\<rparr> in (Some m1, snd (persist ok m1)))"

subsection \<open>The matrix\<close>

datatype ZoneAction = ZoneAllow | ZoneObserve | ZoneVerifyIt | ZoneDeny | ZoneTorRequire

primrec ZoneAction_String :: "ZoneAction \<Rightarrow> string" where
  "ZoneAction_String ZoneAllow = ''allow''"
| "ZoneAction_String ZoneObserve = ''observe''"
| "ZoneAction_String ZoneVerifyIt = ''verify''"
| "ZoneAction_String ZoneDeny = ''deny''"
| "ZoneAction_String ZoneTorRequire = ''tor_require''"

record DecisionInput =
  di_Subject :: Subject
  di_DestIP :: "ip option"
  di_DestPort :: u16
  di_Protocol :: string
  di_SNI :: string
  di_DestClass :: string
  di_Country :: string

definition defaultRestrictedAllow :: "string list" where
  "defaultRestrictedAllow =
     [''cloudflare'', ''google'', ''aws'', ''azure'', ''akamai'', ''fastly'', ''cdn'', ''private'', ''os_update'',
      ''dev_registry'', ''loopback'']"

definition torLocalPorts :: "u16 list" where
  "torLocalPorts = [9050, 9051, 9150, 9151]"

definition isPrivateOrLoopback :: "ip option \<Rightarrow> bool" where
  "isPrivateOrLoopback io =
     (case io of None \<Rightarrow> False | Some i \<Rightarrow> IsLoopback i \<or> IsLinkLocalUnicast i \<or> IsPrivate i)"

definition isTorLocal :: "ip option \<Rightarrow> u16 \<Rightarrow> bool" where
  "isTorLocal io port = (case io of None \<Rightarrow> False | Some i \<Rightarrow> IsLoopback i \<and> port \<in> set torLocalPorts)"

datatype zone_reason =
    ZoneDisabled | TrustedZone | RestrictedClass string | RestrictedPrivate | RestrictedUnknown string
  | UntrustedPrivate | UntrustedPrivateClass | UntrustedExternal | TorLoopback | TorRequired | UnknownLabel string

definition Zone_Decide :: "DecisionInput \<Rightarrow> ZoneManager option \<Rightarrow> ZoneAction \<times> Label \<times> zone_reason" where
  "Zone_Decide inp mo =
     (if mo = None then (ZoneAllow, LabelTrusted, ZoneDisabled)
      else let lbl = Zone_Lookup mo (di_Subject inp) in
        if lbl = LabelTrusted \<or> lbl = '''' then (ZoneAllow, LabelTrusted, TrustedZone)
        else if lbl = LabelRestricted then
          (if di_DestClass inp \<in> set defaultRestrictedAllow then (ZoneAllow, lbl, RestrictedClass (di_DestClass inp))
           else if isPrivateOrLoopback (di_DestIP inp) then (ZoneAllow, lbl, RestrictedPrivate)
           else (ZoneVerifyIt, lbl, RestrictedUnknown (di_DestClass inp)))
        else if lbl = LabelUntrusted then
          (if isPrivateOrLoopback (di_DestIP inp) then (ZoneAllow, lbl, UntrustedPrivate)
           else if di_DestClass inp = ''private'' \<or> di_DestClass inp = ''loopback'' then (ZoneAllow, lbl, UntrustedPrivateClass)
           else (ZoneDeny, lbl, UntrustedExternal))
        else if lbl = LabelTorOnly then
          (if isTorLocal (di_DestIP inp) (di_DestPort inp) then (ZoneAllow, lbl, TorLoopback)
           else (ZoneTorRequire, lbl, TorRequired))
        else (ZoneAllow, lbl, UnknownLabel lbl))"

subsection \<open>Lemmas\<close>

text \<open>An untrusted subject is denied everything but private destinations; the first match decides.\<close>

lemma Zone_Decide_untrusted:
  "Zone_Lookup (Some m) (di_Subject inp) = LabelUntrusted \<Longrightarrow> \<not> isPrivateOrLoopback (di_DestIP inp) \<Longrightarrow>
   di_DestClass inp \<noteq> ''private'' \<Longrightarrow> di_DestClass inp \<noteq> ''loopback'' \<Longrightarrow>
   Zone_Decide inp (Some m) = (ZoneDeny, LabelUntrusted, UntrustedExternal)"
  by (simp add: Zone_Decide_def Let_def)

lemma Zone_Decide_tor:
  "Zone_Lookup (Some m) (di_Subject inp) = LabelTorOnly \<Longrightarrow> \<not> isTorLocal (di_DestIP inp) (di_DestPort inp) \<Longrightarrow>
   Zone_Decide inp (Some m) = (ZoneTorRequire, LabelTorOnly, TorRequired)"
  by (simp add: Zone_Decide_def Let_def)

lemma lookup_in_append:
  "lookup_in d (as @ bs) s = (if list_ex (\<lambda>a. assignmentMatches a s) as then lookup_in d as s else lookup_in d bs s)"
  by (induction as) auto

text \<open>What a change writes is what the next reload reads, for any codec that reads back what it writes.\<close>

lemma persisted_zones_reload:
  assumes "\<And>c. parse (emit c) = Some c" and "\<And>c. emit c \<noteq> ''''" and "zm_defaultLbl m \<noteq> ''''"
  shows "Zone_Reload parse (ZoneData (emit (fst (persist ok m)))) (Some m') =
    (Some (m\<lparr>zm_path := zm_path m'\<rparr>), int (length (zm_assignments m)), None)"
  using assms by (simp add: Zone_Reload_def zone_config_def persist_def)

text \<open>A file that vanishes drops every assignment, while one that cannot be read or parsed drops none.\<close>

lemma missing_file_drops_zones:
  "Zone_Lookup (fst (Zone_Reload parse ZoneMissing (Some m))) s = zm_defaultLbl m"
  "fst (Zone_Reload parse ZoneUnreadable (Some m)) = Some m"
  "zone_config parse dat = None \<Longrightarrow> fst (Zone_Reload parse (ZoneData dat) (Some m)) = Some m"
  by (simp_all add: Zone_Reload_def Zone_Lookup_def)

end
