(* ===== verification/ConnStages.thy ===== *)
theory ConnStages
  imports EgressGuard EgressPolicy TrustZone
begin

text \<open>
  The stages of \<^verbatim>\<open>Pipeline.Handle\<close> that judge an outbound connection, in the order of
  \<^verbatim>\<open>pkg/pipeline/pipeline.go\<close>: the signed per-binary policy, the secret-taint stage, the trust zone and
  the egress guard, which reads what the others stamped on the event.

  Other stages run between the policy stage and the guard. They are left open: the statements hold for
  every event that agrees with the result of the policy stage on the tags the later stages read. The
  \<^verbatim>\<open>trustzone_reason\<close> tag is a text for the operator and is left out.
\<close>

subsection \<open>The policy stage\<close>

text \<open>\<^verbatim>\<open>fmt.Sscanf(s, "%d")\<close> into a 16-bit integer: blanks, then the leading digits.\<close>

definition parseUint16 :: "string \<Rightarrow> u16" where
  "parseUint16 s =
     (let ds = takeWhile is_digit (trim_with (remove1 [CHR 0x0A] go_spaces) (length s) s)
      in if ds = '''' \<or> 2 ^ 16 \<le> dec_val ds then 0 else of_nat (dec_val ds))"

definition parseIPOrNil :: "string \<Rightarrow> ip option" where
  "parseIPOrNil s = (if s = '''' then None else ParseIP s)"

definition policy_request :: "Event \<Rightarrow> PolicyRequest" where
  "policy_request ev =
     \<lparr>pr_Binary = (if ev_Image ev \<noteq> '''' then ev_Image ev else ev_Comm ev), pr_UID = ev_UID ev,
      pr_Cgroup = tag ev ''cgroup_class'', pr_DestIP = parseIPOrNil (tag ev ''dst_ip''),
      pr_DestPort = parseUint16 (tag ev ''dst_port''), pr_Protocol = tag ev ''protocol'', pr_SNI = tag ev ''sni'',
      pr_DNSName = tag ev ''dns_name'', pr_DestClass = tag ev ''dest_class'', pr_Country = tag ev ''dst_country'',
      pr_ASN = tag ev ''dst_asn''\<rparr>"

definition is_connect :: "Event \<Rightarrow> bool" where
  "is_connect ev \<longleftrightarrow> ev_Sensor ev = ''ebpf.net'' \<and> tag ev ''kind'' = ''net_connect''"

definition policy_stage :: "PolicyEngine option \<Rightarrow> Event \<Rightarrow> Event" where
  "policy_stage eo ev =
     (if eo = None \<or> \<not> is_connect ev then ev
      else let d = Policy_Decide (policy_request ev) eo;
               ev1 = set_tag ''egress_policy_mode'' (pd_Mode d)
                       (set_tag ''egress_policy_action'' (PolicyAction_String (pd_Action d)) ev);
               ev2 = (if pd_PolicyID d \<noteq> '''' then set_tag ''egress_policy_id'' (pd_PolicyID d) ev1 else ev1)
           in if pd_MatchedBy d \<noteq> '''' then set_tag ''egress_policy_matched_by'' (pd_MatchedBy d) ev2 else ev2)"

subsection \<open>The trust-zone stage\<close>

definition zone_input :: "Event \<Rightarrow> DecisionInput" where
  "zone_input ev =
     \<lparr>di_Subject = \<lparr>su_UID = ev_UID ev, su_CGroupUnit = tag ev ''cgroup_unit'',
        su_CGroupClass = tag ev ''cgroup_class'', su_Comm = ev_Comm ev\<rparr>,
      di_DestIP = parseIPOrNil (tag ev ''dst_ip''),
      di_DestPort = (if tag ev ''dst_port'' = '''' then 0
        else case ParseUint 16 (tag ev ''dst_port'') of None \<Rightarrow> 0 | Some n \<Rightarrow> of_nat n),
      di_Protocol = tag ev ''protocol'', di_SNI = tag ev ''sni'', di_DestClass = tag ev ''dest_class'',
      di_Country = tag ev ''country''\<rparr>"

definition zone_stage :: "ZoneManager option \<Rightarrow> Event \<Rightarrow> Event" where
  "zone_stage mo ev =
     (if mo = None \<or> \<not> is_connect ev \<or> tag ev ''egress_policy_id'' \<noteq> '''' then ev
      else case Zone_Decide (zone_input ev) mo of (za, lbl, why) \<Rightarrow>
        set_tag ''trustzone_label'' lbl (set_tag ''trustzone_action'' (ZoneAction_String za) ev))"

subsection \<open>From the policy stage to the guard\<close>

record conn_state =
  cs_taint :: memStore
  cs_guard :: "guard \<times> nftstate"

text \<open>The taint stage, the trust zone and the guard, as they follow one another.\<close>

definition late_stages ::
    "host \<Rightarrow> clock \<Rightarrow> ZoneManager option \<Rightarrow> Event \<Rightarrow> conn_state \<Rightarrow> conn_state \<times> Event \<times> string option" where
  "late_stages h ck mo ev st =
     (case taint_stage (cs_taint st, ev) of (ts, ev1) \<Rightarrow>
      case egress_stage h ck (zone_stage mo ev1) (cs_guard st) of (gs, ev2, al) \<Rightarrow>
        (\<lparr>cs_taint = ts, cs_guard = gs\<rparr>, ev2, al))"

subsection \<open>What the stages keep\<close>

lemma taint_stage_tag:
  "k \<noteq> ''secret_class'' \<Longrightarrow> k \<noteq> ''secret_taint'' \<Longrightarrow> tag (snd (taint_stage (s, ev))) k = tag ev k"
  by (simp add: taint_stage_def observe_event_def stamp_taint_def Let_def split: option.split)

lemma taint_stage_frame:
  "ev_Sensor (snd (taint_stage (s, ev))) = ev_Sensor ev" "ev_UID (snd (taint_stage (s, ev))) = ev_UID ev"
  "ev_Comm (snd (taint_stage (s, ev))) = ev_Comm ev" "ev_Image (snd (taint_stage (s, ev))) = ev_Image ev"
  by (simp_all add: taint_stage_def observe_event_def stamp_taint_def Let_def set_tag_def split: option.split)

lemma taint_stage_connect: "is_connect (snd (taint_stage (s, ev))) = is_connect ev"
  by (simp add: is_connect_def taint_stage_frame taint_stage_tag)

lemma taint_stage_zone_input: "zone_input (snd (taint_stage (s, ev))) = zone_input ev"
  by (simp add: zone_input_def taint_stage_frame taint_stage_tag)

lemma zone_stage_tag:
  "k \<noteq> ''trustzone_action'' \<Longrightarrow> k \<noteq> ''trustzone_label'' \<Longrightarrow> tag (zone_stage mo ev) k = tag ev k"
  by (simp add: zone_stage_def case_prod_beta)

lemma zone_stage_connect: "is_connect (zone_stage mo ev) = is_connect ev"
  by (simp add: zone_stage_def is_connect_def case_prod_beta)

lemma policy_stage_connect: "is_connect (policy_stage eo ev) = is_connect ev"
  by (simp add: policy_stage_def is_connect_def Let_def)

text \<open>The verdict of the guard on an event that says nothing of policies and zones.\<close>

definition base_verdict :: "guard \<Rightarrow> Event \<Rightarrow> Decision" where
  "base_verdict g ev =
     fst (Decide ((egress_request ev)\<lparr>rq_PolicyCtx := \<lparr>pc_EgressPolicyAction = '''', pc_TrustZoneAction = '''',
        pc_PolicyID = '''', pc_PolicyMatchedBy = '''', pc_ZoneLabel = ''''\<rparr>\<rparr>) g)"

text \<open>The specification: a signed policy that allows, denies or asks decides; a policy that only observes
  hides the trust zone; without a policy the zone may deny or ask; otherwise the guard decides alone.\<close>

definition zone_verdict :: "ZoneAction \<Rightarrow> Decision \<Rightarrow> Decision" where
  "zone_verdict za base =
     (case za of ZoneDeny \<Rightarrow> EgressDeny | ZoneTorRequire \<Rightarrow> EgressDeny | ZoneVerifyIt \<Rightarrow> EgressVerify | _ \<Rightarrow> base)"

definition conn_verdict :: "PolicyDecision \<Rightarrow> ZoneAction \<Rightarrow> Decision \<Rightarrow> Decision" where
  "conn_verdict d za base =
     (case pd_Action d of
        ActionDeny \<Rightarrow> EgressDeny
      | ActionAllow \<Rightarrow> EgressAllow
      | ActionVerify \<Rightarrow> EgressVerify
      | ActionObserve \<Rightarrow> if pd_PolicyID d = '''' then zone_verdict za base else base)"

text \<open>An event after the policy stage and any stages that leave alone what the later ones read.\<close>

definition kept_tags :: "string list" where
  "kept_tags = [''kind'', ''egress_policy_action'', ''egress_policy_id'', ''egress_policy_matched_by'',
     ''trustzone_action'', ''trustzone_label'']"

definition keeps :: "Event \<Rightarrow> Event \<Rightarrow> bool" where
  "keeps ev ev' \<longleftrightarrow> ev_Sensor ev' = ev_Sensor ev \<and> (\<forall>k\<in>set kept_tags. tag ev' k = tag ev k)"

lemma keeps_tag: "keeps ev ev' \<Longrightarrow> k \<in> set kept_tags \<Longrightarrow> tag ev' k = tag ev k"
  by (simp add: keeps_def)

lemma keeps_connect: "keeps ev ev' \<Longrightarrow> is_connect ev' = is_connect ev"
  by (simp add: is_connect_def keeps_def kept_tags_def)

text \<open>What the policy stage leaves on a connection that had no verdict yet.\<close>

definition unjudged :: "Event \<Rightarrow> bool" where
  "unjudged ev \<longleftrightarrow> is_connect ev \<and> (\<forall>k\<in>set kept_tags - {''kind''}. tag ev k = '''')"

lemma policy_stage_tags:
  assumes "unjudged ev" and "d = Policy_Decide (policy_request ev) (Some e)"
  shows "tag (policy_stage (Some e) ev) ''egress_policy_action'' = PolicyAction_String (pd_Action d)"
    and "tag (policy_stage (Some e) ev) ''egress_policy_id'' = pd_PolicyID d"
    and "tag (policy_stage (Some e) ev) ''trustzone_action'' = ''''"
    and "tag (policy_stage (Some e) ev) ''trustzone_label'' = ''''"
  using assms by (simp_all add: policy_stage_def unjudged_def kept_tags_def Let_def)

lemma Decide_context:
  "fst (Decide r g) = (case policy_verdict (rq_PolicyCtx r) of
     Some v \<Rightarrow> fst v
   | None \<Rightarrow> fst (Decide (r\<lparr>rq_PolicyCtx := \<lparr>pc_EgressPolicyAction = '''', pc_TrustZoneAction = '''',
        pc_PolicyID = '''', pc_PolicyMatchedBy = '''', pc_ZoneLabel = ''''\<rparr>\<rparr>) g))"
  by (simp add: Decide_def policy_verdict_def profile_verdict_def matchesDeclaredPeer_def destKey_def
      Let_def split: option.split)

lemma zone_stage_request:
  "(egress_request (zone_stage mo ev))\<lparr>rq_PolicyCtx := c\<rparr> = (egress_request ev)\<lparr>rq_PolicyCtx := c\<rparr>"
proof -
  have "lineageIDFromEvent (zone_stage mo ev) = lineageIDFromEvent ev"
    by (simp add: zone_stage_def lineageIDFromEvent_def case_prod_beta set_tag_def tag_def go_get_or_def)
  moreover have "ev_PID (zone_stage mo ev) = ev_PID ev" "ev_CGroupID (zone_stage mo ev) = ev_CGroupID ev"
    "ev_Time (zone_stage mo ev) = ev_Time ev"
    by (simp_all add: zone_stage_def case_prod_beta set_tag_def)
  ultimately show ?thesis by (simp add: egress_request_def zone_stage_tag)
qed

lemma base_verdict_zone: "base_verdict g (zone_stage mo ev) = base_verdict g ev"
  by (simp add: base_verdict_def zone_stage_request)

text \<open>The guard's verdict on the event the trust zone hands over.\<close>

lemma guard_verdict:
  assumes "is_connect ev" and "tag ev ''egress_policy_action'' = PolicyAction_String (pd_Action d)"
    and "tag ev ''egress_policy_id'' = pd_PolicyID d" and "tag ev ''trustzone_action'' = ''''"
  shows "fst (Decide (egress_request (zone_stage (Some m) ev)) g) =
    conn_verdict d (fst (Zone_Decide (zone_input ev) (Some m))) (base_verdict g ev)"
proof -
  let ?za = "fst (Zone_Decide (zone_input ev) (Some m))"
  have za: "tag (zone_stage (Some m) ev) ''trustzone_action'' = (if pd_PolicyID d = '''' then ZoneAction_String ?za else '''')"
    using assms by (simp add: zone_stage_def case_prod_beta)
  have pa: "tag (zone_stage (Some m) ev) ''egress_policy_action'' = PolicyAction_String (pd_Action d)"
    using assms by (simp add: zone_stage_tag)
  have "fst (Decide (egress_request (zone_stage (Some m) ev)) g) =
      (case policy_verdict (rq_PolicyCtx (egress_request (zone_stage (Some m) ev))) of
         Some v \<Rightarrow> fst v | None \<Rightarrow> base_verdict g ev)"
    by (simp only: Decide_context [of "egress_request (zone_stage (Some m) ev)"] base_verdict_def zone_stage_request)
  also have "\<dots> = conn_verdict d ?za (base_verdict g ev)"
    by (cases "pd_Action d"; cases ?za)
      (simp_all add: policy_verdict_def egress_request_def za pa conn_verdict_def zone_verdict_def)
  finally show ?thesis .
qed

lemma egress_stage_tag:
  "is_connect ev \<Longrightarrow>
   tag (fst (snd (egress_stage h ck ev st))) ''egress_decision'' = Decision_String (fst (Decide (egress_request ev) (fst st)))"
  by (simp add: egress_stage_def is_connect_def Let_def case_prod_beta)

lemma egress_stage_alert:
  "is_connect ev \<Longrightarrow>
   snd (snd (egress_stage h ck ev st)) = None \<longleftrightarrow> fst (Decide (egress_request ev) (fst st)) \<noteq> EgressDeny"
  by (simp add: egress_stage_def is_connect_def Let_def case_prod_beta)

lemma late_stages_eq:
  "late_stages h ck mo ev st =
     (let ev2 = zone_stage mo (snd (taint_stage (cs_taint st, ev)))
      in (\<lparr>cs_taint = fst (taint_stage (cs_taint st, ev)), cs_guard = fst (egress_stage h ck ev2 (cs_guard st))\<rparr>,
          fst (snd (egress_stage h ck ev2 (cs_guard st))), snd (snd (egress_stage h ck ev2 (cs_guard st)))))"
  by (simp add: late_stages_def case_prod_beta Let_def)

text \<open>The verdict of the stages on a connection that the policy stage has seen.\<close>

lemma stages_verdict:
  assumes "unjudged ev" and "keeps (policy_stage (Some e) ev) ev'" and "ev1 = snd (taint_stage (s, ev'))"
  shows "is_connect (zone_stage (Some m) ev1) \<and> fst (Decide (egress_request (zone_stage (Some m) ev1)) g) =
    conn_verdict (Policy_Decide (policy_request ev) (Some e)) (fst (Zone_Decide (zone_input ev') (Some m))) (base_verdict g ev1)"
proof -
  have c: "is_connect ev1"
    using assms keeps_connect [OF assms(2)] by (simp add: taint_stage_connect policy_stage_connect unjudged_def)
  have t: "tag ev1 k = tag (policy_stage (Some e) ev) k" if "k \<in> set kept_tags" for k
    using that keeps_tag [OF assms(2) that] by (auto simp: assms(3) taint_stage_tag kept_tags_def)
  have k: "''egress_policy_action'' \<in> set kept_tags" "''egress_policy_id'' \<in> set kept_tags" "''trustzone_action'' \<in> set kept_tags"
    by (simp_all add: kept_tags_def)
  from guard_verdict [OF c t [OF k(1), unfolded policy_stage_tags(1) [OF assms(1) refl]]
      t [OF k(2), unfolded policy_stage_tags(2) [OF assms(1) refl]]
      t [OF k(3), unfolded policy_stage_tags(3) [OF assms(1) refl]]]
  show ?thesis using c by (simp add: zone_stage_connect assms(3) taint_stage_zone_input)
qed

subsection \<open>Properties\<close>


text \<open>The commands of a deny that reaches a table set up before.\<close>

lemma ApplyDeny_pushes:
  assumes "gd_mode g = ModeEnforce" and "gd_backend g = NFTBackend ModeEnforce" and "gd_safetynet g = None"
    and "\<not> snd (cache_has (ck_has ck) l key (gd_cache g))" and "ns_ensured n" and "ns_tableErr n = None"
    and "ParseIP (destKeyToIP key) = Some i"
  shows "ns_trace (snd (fst (ApplyDeny h ck l key ttl (g, n)))) = ns_trace n @ [ns_path n # add_element i ttl]"
proof -
  have "destKeyToIP key \<noteq> ''''" using assms(7) by (auto simp: ParseIP_def)
  then show ?thesis
    using assms
    by (simp add: ApplyDeny_def vetoed_def case_prod_beta Let_def nft_Push_def ensureNFTTable_def nftAddDeny_def nft_run_def)
qed

lemma egress_stage_denies:
  assumes "is_connect ev" and "fst (Decide (egress_request ev) g) = EgressDeny"
  shows "fst (egress_stage h ck ev (g, n)) =
    fst (ApplyDeny h ck (rq_LineageID (egress_request ev))
      (host_port (rq_DestIP (egress_request ev)) (rq_DestPort (egress_request ev))) (5 * minute) (g, n))"
  using assms by (simp add: egress_stage_def is_connect_def Let_def case_prod_beta)


text \<open>
  A signed policy that only observes, or does not apply to the subject, still names itself on the event.
  The trust zone is then skipped: what the zone would deny is left to the guard.
\<close>

lemma observing_policy_hides_zone:
  assumes "unjudged ev" and "keeps (policy_stage (Some e) ev) ev'"
    and "pe_store e = Some ps" and "Policy_Get ps (pr_Binary (policy_request ev)) = Some sp"
    and "ep_Binary (sp_Policy sp) \<noteq> ''''"
    and "\<not> subjectInScope (sp_Policy sp) (policy_request ev) \<or> ep_Mode (sp_Policy sp) = PolicyObserve"
  shows "tag (fst (snd (late_stages h ck (Some m) ev' \<lparr>cs_taint = s, cs_guard = (g, n)\<rparr>))) ''egress_decision'' =
    Decision_String (base_verdict g (snd (taint_stage (s, ev'))))"
proof -
  have "pd_Action (Policy_Decide (policy_request ev) (Some e)) = ActionObserve"
    "pd_PolicyID (Policy_Decide (policy_request ev) (Some e)) = ep_Binary (sp_Policy sp)"
    using assms(3,4,6) by (auto simp: Policy_Decide_def decide_policy_def Let_def)
  with stages_verdict [OF assms(1,2) refl, where s = s and m = m and g = g] assms(5)
  have "is_connect (zone_stage (Some m) (snd (taint_stage (s, ev'))))"
    "fst (Decide (egress_request (zone_stage (Some m) (snd (taint_stage (s, ev'))))) g) = base_verdict g (snd (taint_stage (s, ev')))"
    by (simp_all add: conn_verdict_def)
  then show ?thesis by (simp add: late_stages_eq Let_def egress_stage_tag)
qed

text \<open>
  The policy stage runs before the destination class, the cgroup class and the protocol are stamped. A
  rule that names one of them matches no event of the sensor, so a \<open>deny_default\<close> policy whose allow
  rules all do denies every connection.
\<close>

lemma fold_str_Nil [simp]: "fold_str s = [] \<longleftrightarrow> s = []"
  by (cases s) auto

lemma enriched_rules_never_match:
  assumes "tag ev ''dest_class'' = ''''" and "tag ev ''protocol'' = ''''"
    and "er_DestClass r \<noteq> '''' \<or> (er_Protocols r \<noteq> [] \<and> '''' \<notin> set (er_Protocols r))"
  shows "\<not> matchRule r (policy_request ev)"
proof -
  have "equal_fold x '''' \<longleftrightarrow> x = ''''" for x by (simp add: equal_fold_def)
  then show ?thesis
    using assms by (auto simp: matchRule_def policy_request_def containsStringCI_def list_ex_iff)
qed

subsection \<open>Sample inputs\<close>

definition sample_zones :: ZoneManager where
  "sample_zones = (ZoneManager_New ''/etc/xhelix/trustzones.yaml'' '''')\<lparr>zm_assignments :=
     [\<lparr>as_UID = Some 0, as_CGroupUnit = '''', as_CGroupClass = '''', as_Comm = '''', as_Label = LabelUntrusted, as_Comment = ''''\<rparr>]\<rparr>"

definition sample_engine :: PolicyEngine where
  "sample_engine = NewPolicyEngine (Some sample_store) ''''"

definition curl_engine :: PolicyEngine where
  "curl_engine = NewPolicyEngine (Some sample_saved) ''''"

definition sample_guard :: guard where
  "sample_guard = NewGuard (Some (NFTBackend ModeEnforce)) None ModeEnforce"

definition sample_nft :: nftstate where
  "sample_nft = \<lparr>ns_probed = True, ns_path = ''/usr/sbin/nft'', ns_ensured = True, ns_tableErr = None, ns_trace = []\<rparr>"

definition curl_connect :: Event where
  "curl_connect = sample_connect\<lparr>ev_Image := ''/usr/bin/curl''\<rparr>"

lemma keeps_refl [simp]: "keeps ev ev"
  by (simp add: keeps_def)

lemma sample_tag:
  "tag sample_connect k = (if k = ''kind'' then ''net_connect'' else if k = ''dst_ip'' then ''8.8.8.8''
     else if k = ''dst_port'' then ''443'' else '''')"
  "tag curl_connect k = tag sample_connect k"
  by (simp_all add: tag_def sample_connect_def curl_connect_def go_get_or_def)

lemma sample_unjudged: "unjudged sample_connect" "unjudged curl_connect"
  by (simp_all add: unjudged_def is_connect_def sample_tag kept_tags_def sample_connect_def [THEN arg_cong, where f = ev_Sensor]
      curl_connect_def [THEN arg_cong, where f = ev_Sensor])

lemma policy_stage_keeps_tag:
  "k \<notin> {''egress_policy_action'', ''egress_policy_mode'', ''egress_policy_id'', ''egress_policy_matched_by''} \<Longrightarrow>
   tag (policy_stage eo ev) k = tag ev k"
  by (simp add: policy_stage_def Let_def)

lemma policy_stage_frame: "ev_UID (policy_stage eo ev) = ev_UID ev" "ev_Comm (policy_stage eo ev) = ev_Comm ev"
  by (simp_all add: policy_stage_def Let_def set_tag_def)

lemma policy_stage_zone_input: "zone_input (policy_stage eo ev) = zone_input ev"
  by (simp add: zone_input_def policy_stage_keeps_tag policy_stage_frame)

lemma sample_zone_input: "zone_input sample_connect = \<lparr>di_Subject = \<lparr>su_UID = 0, su_CGroupUnit = '''', su_CGroupClass = '''', su_Comm = ''''\<rparr>,
    di_DestIP = ParseIP ''8.8.8.8'', di_DestPort = 443, di_Protocol = '''', di_SNI = '''', di_DestClass = '''', di_Country = ''''\<rparr>"
proof -
  have "ParseUint 16 ''443'' = Some 443" by (simp add: ParseUint_def is_digit_def dec_val_def)
  moreover have "ev_UID sample_connect = 0" "ev_Comm sample_connect = ''''"
    by (simp_all add: sample_connect_def zero_Event_def)
  ultimately show ?thesis by (simp add: zone_input_def sample_tag parseIPOrNil_def)
qed



end
