(* ===== verification/NetBan.thy ===== *)
theory NetBan
  imports SafetyLists
begin

text \<open>
  The network banner, \<^verbatim>\<open>pkg/netban\<close>: bans of single addresses with a time to live (\<^verbatim>\<open>netban.go\<close>), host
  quarantine (\<^verbatim>\<open>quarantine.go\<close>), and the addresses with an open SSH connection that guard it
  (\<^verbatim>\<open>sshpeers.go\<close>).

  What reaches the kernel is the trace \<open>bn_ops\<close>: the calls of the XDP drop set and the \<^verbatim>\<open>nft\<close> commands, in
  order. Their answers, given the trace so far, come from \<open>banhost\<close>. Clock readings and the contents of
  \<^verbatim>\<open>/proc/net/tcp\<close> and \<^verbatim>\<open>tcp6\<close> are arguments. Addresses have their 16-byte form.
\<close>

subsection \<open>The banner\<close>

datatype ban_op = XDPAdd ip | XDPRemove ip | NFT cmd

record banhost =
  bh_host :: host
  bh_xdp :: "ban_op list \<Rightarrow> ban_op \<Rightarrow> string option"

record ban_entry =
  be_ip :: ip
  be_reason :: string
  be_addedAt :: gotime
  be_expires :: gotime

record Banner =
  bn_xdp :: bool
  bn_useNFT :: bool
  bn_entries :: "(string, ban_entry) gomap"
  bn_safetynet :: "SafetyNet option"
  bn_vetoedCount :: u64
  bn_quarantineOn :: bool
  bn_SkipOperatorIPCheck :: bool
  bn_ops :: "ban_op list"

datatype ban_error =
    NftNotInstalled | XDPFailed string | NftAddError string | NftDeleteError string
  | EmptyAllowList | PeerNotAllowed "string list" "string list" | NeedsNFT | InvalidAllowIP string
  | NftBuild cmd | NftAllowV4 | NftAllowV6 | NftDeleteTable string

definition NewBanner :: "bool \<Rightarrow> bool \<Rightarrow> Banner" where
  "NewBanner xdp useNFT =
     \<lparr>bn_xdp = xdp, bn_useNFT = useNFT, bn_entries = [], bn_safetynet = None, bn_vetoedCount = 0,
      bn_quarantineOn = False, bn_SkipOperatorIPCheck = False, bn_ops = []\<rparr>"

definition Banner_SetSafetyNet :: "SafetyNet option \<Rightarrow> Banner \<Rightarrow> Banner" where
  "Banner_SetSafetyNet s b = b\<lparr>bn_safetynet := s\<rparr>"

text \<open>The commands in a trace of operations, and one more command or call.\<close>

definition cmds_of :: "ban_op list \<Rightarrow> cmd list" where
  "cmds_of ops = [c. NFT c \<leftarrow> ops]"

definition ban_run :: "banhost \<Rightarrow> cmd \<Rightarrow> Banner \<Rightarrow> Banner \<times> string \<times> bool" where
  "ban_run h c b = (b\<lparr>bn_ops := bn_ops b @ [NFT c]\<rparr>, ho_run (bh_host h) (cmds_of (bn_ops b)) c)"

definition xdp_call :: "banhost \<Rightarrow> ban_op \<Rightarrow> Banner \<Rightarrow> Banner \<times> ban_error option" where
  "xdp_call h op b =
     (if \<not> bn_xdp b then (b, None)
      else (b\<lparr>bn_ops := bn_ops b @ [op]\<rparr>, map_option XDPFailed (bh_xdp h (bn_ops b) op)))"

definition ensure_cmds :: "cmd list" where
  "ensure_cmds =
     [[''nft'', ''add'', ''table'', ''inet'', ''xhelix''],
      [''nft'', ''add'', ''set'', ''inet'', ''xhelix'', ''bad_ips_v4'', ''{ type ipv4_addr; flags timeout; }''],
      [''nft'', ''add'', ''set'', ''inet'', ''xhelix'', ''bad_ips_v6'', ''{ type ipv6_addr; flags timeout; }''],
      [''nft'', ''add'', ''chain'', ''inet'', ''xhelix'', ''input'', ''{ type filter hook input priority -10; }''],
      [''nft'', ''add'', ''rule'', ''inet'', ''xhelix'', ''input'', ''ip saddr @bad_ips_v4 drop''],
      [''nft'', ''add'', ''rule'', ''inet'', ''xhelix'', ''input'', ''ip6 saddr @bad_ips_v6 drop'']]"

definition EnsureNFT :: "banhost \<Rightarrow> Banner \<Rightarrow> Banner \<times> ban_error option" where
  "EnsureNFT h b =
     (if \<not> bn_useNFT b then (b, None)
      else if ho_LookPath (bh_host h) ''nft'' = None then (b, Some NftNotInstalled)
      else (foldl (\<lambda>b c. fst (ban_run h c b)) b ensure_cmds, None))"

definition ban_set :: "ip \<Rightarrow> string" where
  "ban_set i = (if To4 i = None then ''bad_ips_v6'' else ''bad_ips_v4'')"

definition seconds_str :: "duration \<Rightarrow> string" where
  "seconds_str ttl = (let n = ttl sdiv second in (if n < 0 then ''-'' else '''') @ dec_str (nat \<bar>n\<bar>))"

definition ban_add_cmd :: "ip \<Rightarrow> duration \<Rightarrow> cmd" where
  "ban_add_cmd i ttl = [''nft'', ''add'', ''element'', ''inet'', ''xhelix'', ban_set i,
     ''{ '' @ ip_String i @ '' timeout '' @ seconds_str ttl @ ''s }'']"

definition ban_del_cmd :: "ip \<Rightarrow> cmd" where
  "ban_del_cmd i = [''nft'', ''delete'', ''element'', ''inet'', ''xhelix'', ban_set i, ''{ '' @ ip_String i @ '' }'']"

definition nftAdd :: "banhost \<Rightarrow> ip \<Rightarrow> duration \<Rightarrow> Banner \<Rightarrow> Banner \<times> ban_error option" where
  "nftAdd h i ttl b =
     (if \<not> bn_useNFT b then (b, None)
      else case ban_run h (ban_add_cmd i ttl) b of (b1, out, ok) \<Rightarrow> (b1, if ok then None else Some (NftAddError out)))"

definition nftDel :: "banhost \<Rightarrow> ip \<Rightarrow> Banner \<Rightarrow> Banner \<times> ban_error option" where
  "nftDel h i b =
     (if \<not> bn_useNFT b then (b, None)
      else case ban_run h (ban_del_cmd i) b of
             (b1, out, ok) \<Rightarrow> (b1, if \<not> ok \<and> out \<noteq> '''' then Some (NftDeleteError out) else None))"

text \<open>The first of two errors.\<close>

definition first_err :: "'e option \<Rightarrow> 'e option \<Rightarrow> 'e option" where
  "first_err a b = (case a of Some e \<Rightarrow> Some e | None \<Rightarrow> b)"

definition ban_veto :: "ip \<Rightarrow> Banner \<Rightarrow> Banner \<times> bool" where
  "ban_veto i b =
     (case bn_safetynet b of
        None \<Rightarrow> (b, False)
      | Some s \<Rightarrow> case AllowAlways i (Some s) of (so, yes) \<Rightarrow> (b\<lparr>bn_safetynet := so\<rparr>, yes))"

definition Ban :: "banhost \<Rightarrow> gotime \<times> gotime \<Rightarrow> ip \<Rightarrow> string \<Rightarrow> duration \<Rightarrow> Banner \<Rightarrow> Banner \<times> ban_error option" where
  "Ban h now i why ttl0 b =
     (let ttl = (if ttl0 \<le> 0 then hour else ttl0) in
      case ban_veto i b of (b1, veto) \<Rightarrow>
        if veto then (b1\<lparr>bn_vetoedCount := bn_vetoedCount b1 + 1\<rparr>, None)
        else
          let b2 = b1\<lparr>bn_entries := go_set (ip_String i)
                 \<lparr>be_ip = i, be_reason = why, be_addedAt = fst now, be_expires = snd now + ttl\<rparr> (bn_entries b1)\<rparr>
          in case xdp_call h (XDPAdd i) b2 of (b3, e1) \<Rightarrow>
             case nftAdd h i ttl b3 of (b4, e2) \<Rightarrow> (b4, first_err e1 e2))"

text \<open>Taking an address out of both drop sets.\<close>

definition lift_ban :: "banhost \<Rightarrow> ip \<Rightarrow> Banner \<Rightarrow> Banner \<times> ban_error option" where
  "lift_ban h i b =
     (case xdp_call h (XDPRemove i) b of (b1, e1) \<Rightarrow>
      case nftDel h i b1 of (b2, e2) \<Rightarrow> (b2, first_err e1 e2))"

definition Unban :: "banhost \<Rightarrow> ip \<Rightarrow> Banner \<Rightarrow> Banner \<times> ban_error option" where
  "Unban h i b = lift_ban h i (b\<lparr>bn_entries := go_del (ip_String i) (bn_entries b)\<rparr>)"

definition Banner_List :: "Banner \<Rightarrow> string list" where
  "Banner_List b = map fst (bn_entries b)"

definition Banner_Sweep :: "banhost \<Rightarrow> gotime \<Rightarrow> Banner \<Rightarrow> Banner" where
  "Banner_Sweep h now b =
     (let expired = filter (\<lambda>e. be_expires (snd e) < now) (bn_entries b)
      in foldl (\<lambda>b i. fst (lift_ban h i b))
           (b\<lparr>bn_entries := filter (\<lambda>e. \<not> be_expires (snd e) < now) (bn_entries b)\<rparr>)
           (map (\<lambda>e. be_ip (snd e)) expired))"

definition Banner_Stats :: "Banner \<Rightarrow> u64 \<times> u64" where
  "Banner_Stats b = (of_nat (length (bn_entries b)), bn_vetoedCount b)"

subsection \<open>SSH peers\<close>

text \<open>\<^verbatim>\<open>bufio.Scanner\<close> on a file: its lines without their ends, or an error for a line of 64 KiB or more.\<close>

definition strip_cr :: "string \<Rightarrow> string" where
  "strip_cr l = (if l \<noteq> [] \<and> last l = CHR 0x0D then butlast l else l)"

definition scan_lines :: "string \<Rightarrow> string list \<times> bool" where
  "scan_lines s =
     (let ls = str_split CHR 0x0A s; ls1 = (if last ls = '''' then butlast ls else ls);
          good = takeWhile (\<lambda>l. length l < 65536) ls1
      in (map strip_cr good, length good = length ls1))"

text \<open>\<^verbatim>\<open>hex.DecodeString\<close>.\<close>

fun hex_bytes :: "string \<Rightarrow> u8 list option" where
  "hex_bytes [] = Some []"
| "hex_bytes [c] = None"
| "hex_bytes (a # b # s) =
     (case (hex_val a, hex_val b, hex_bytes s) of
        (Some x, Some y, Some bs) \<Rightarrow> Some (of_nat (16 * x + y) # bs)
      | _ \<Rightarrow> None)"

text \<open>The bytes reversed within each complete group of four.\<close>

fun swap_groups :: "u8 list \<Rightarrow> u8 list" where
  "swap_groups (a # b # c # d # bs) = d # c # b # a # swap_groups bs"
| "swap_groups bs = bs"

text \<open>\<^verbatim>\<open>fmt.Sscanf(s, "%X")\<close> into a 16-bit integer: blanks, then the leading hexadecimal digits.\<close>

definition scan_hex16 :: "string \<Rightarrow> u16 option" where
  "scan_hex16 s =
     (let ds = takeWhile is_hex (trim_with (remove1 [CHR 0x0A] go_spaces) (length s) s)
      in if ds = '''' \<or> 2 ^ 16 \<le> hex_acc ds then None else Some (of_nat (hex_acc ds)))"

definition splitProcAddr :: "string \<Rightarrow> ip option \<times> u16" where
  "splitProcAddr s =
     (case index_byte CHR '':'' s of
        None \<Rightarrow> (None, 0)
      | Some colon \<Rightarrow>
          case hex_bytes (take colon s) of
            None \<Rightarrow> (None, 0)
          | Some raw0 \<Rightarrow>
              let raw = swap_groups raw0 in
              if length raw \<noteq> 4 \<and> length raw \<noteq> 16 then (None, 0)
              else case scan_hex16 (drop (Suc colon) s) of
                     None \<Rightarrow> (None, 0)
                   | Some port \<Rightarrow> (Some (if length raw = 4 then map4 raw else raw), port))"

definition proc_line :: "u16 \<Rightarrow> string \<Rightarrow> string list" where
  "proc_line localPort l =
     (let f = str_fields l in
      if length f < 4 then []
      else if f ! 3 \<noteq> ''01'' then []
      else if snd (splitProcAddr (f ! 1)) \<noteq> localPort then []
      else case fst (splitProcAddr (f ! 2)) of None \<Rightarrow> [] | Some raddr \<Rightarrow> [ip_String raddr])"

text \<open>The peers in a file, and whether it could be read to its end; \<open>None\<close> for a file that does not open.\<close>

definition scanProcNetTCP :: "string option \<Rightarrow> u16 \<Rightarrow> string list \<times> bool" where
  "scanProcNetTCP content localPort =
     (case content of
        None \<Rightarrow> ([], False)
      | Some s \<Rightarrow> case scan_lines s of (ls, ok) \<Rightarrow> (concat (map (proc_line localPort) (drop 1 ls)), ok))"

definition activeSSHPeers :: "string option \<times> string option \<Rightarrow> string list" where
  "activeSSHPeers files =
     (let peers = (\<lambda>c. case scanProcNetTCP c 22 of (ips, ok) \<Rightarrow> if ok then ips else [])
      in remdups (peers (fst files) @ peers (snd files)))"

subsection \<open>Host quarantine\<close>

definition nft_cmd :: "string list \<Rightarrow> cmd" where
  "nft_cmd args = ''nft'' # args"

definition flush_cmd :: cmd where
  "flush_cmd = nft_cmd [''delete'', ''table'', ''inet'', ''xhelix_quarantine'']"

definition nftFlushQuarantine :: "banhost \<Rightarrow> Banner \<Rightarrow> Banner \<times> ban_error option" where
  "nftFlushQuarantine h b =
     (case ban_run h flush_cmd b of (b1, out, ok) \<Rightarrow>
        (b1, if ok \<or> str_contains out ''No such file'' then None else Some (NftDeleteTable out)))"

definition build_cmds :: "cmd list" where
  "build_cmds = map nft_cmd
     [[''add'', ''table'', ''inet'', ''xhelix_quarantine''],
      [''add'', ''chain'', ''inet'', ''xhelix_quarantine'', ''input'', ''{ type filter hook input priority -200; policy drop; }''],
      [''add'', ''chain'', ''inet'', ''xhelix_quarantine'', ''output'', ''{ type filter hook output priority -200; policy drop; }''],
      [''add'', ''rule'', ''inet'', ''xhelix_quarantine'', ''input'', ''iif'', ''lo'', ''accept''],
      [''add'', ''rule'', ''inet'', ''xhelix_quarantine'', ''output'', ''oif'', ''lo'', ''accept''],
      [''add'', ''rule'', ''inet'', ''xhelix_quarantine'', ''input'', ''ct'', ''state'', ''established,related'', ''accept''],
      [''add'', ''rule'', ''inet'', ''xhelix_quarantine'', ''output'', ''ct'', ''state'', ''established,related'', ''accept'']]"

definition allow_cmds :: "string \<Rightarrow> string list \<Rightarrow> cmd list" where
  "allow_cmds fam ips =
     (let st = ''{ '' @ str_join '', '' ips @ '' }''
      in map nft_cmd [[''add'', ''rule'', ''inet'', ''xhelix_quarantine'', ''input'', fam, ''saddr'', st, ''accept''],
                      [''add'', ''rule'', ''inet'', ''xhelix_quarantine'', ''output'', fam, ''daddr'', st, ''accept'']])"

text \<open>Commands in order, up to the first that fails, with the error it gives.\<close>

fun run_until :: "banhost \<Rightarrow> (cmd \<Rightarrow> ban_error) \<Rightarrow> cmd list \<Rightarrow> Banner \<Rightarrow> Banner \<times> ban_error option" where
  "run_until h err [] b = (b, None)"
| "run_until h err (c # cs) b =
     (case ban_run h c b of (b1, out, ok) \<Rightarrow> if ok then run_until h err cs b1 else (b1, Some (err c)))"

fun parse_allowIPs :: "string list \<Rightarrow> ban_error + ip list" where
  "parse_allowIPs [] = Inr []"
| "parse_allowIPs (s # ss) =
     (case ParseIP (trim_space s) of
        None \<Rightarrow> Inl (InvalidAllowIP s)
      | Some i \<Rightarrow> (case parse_allowIPs ss of Inl e \<Rightarrow> Inl e | Inr as \<Rightarrow> Inr (i # as)))"

definition operator_locked_out :: "string list \<Rightarrow> string list \<Rightarrow> bool" where
  "operator_locked_out peers allowIPs \<longleftrightarrow> peers \<noteq> [] \<and>
     \<not> list_ex (\<lambda>p. list_ex (\<lambda>a. trim_space a = p) allowIPs) peers"

definition build_table :: "banhost \<Rightarrow> ip list \<Rightarrow> Banner \<Rightarrow> Banner \<times> ban_error option" where
  "build_table h parsed b =
     (let v4 = map ip_String (filter (\<lambda>i. To4 i \<noteq> None) parsed);
          v6 = map ip_String (filter (\<lambda>i. To4 i = None) parsed)
      in case run_until h NftBuild build_cmds b of
           (b1, Some e) \<Rightarrow> (b1, Some e)
         | (b1, None) \<Rightarrow>
             case (if v4 = [] then (b1, None) else run_until h (\<lambda>_. NftAllowV4) (allow_cmds ''ip'' v4) b1) of
               (b2, Some e) \<Rightarrow> (b2, Some e)
             | (b2, None) \<Rightarrow> if v6 = [] then (b2, None) else run_until h (\<lambda>_. NftAllowV6) (allow_cmds ''ip6'' v6) b2)"

definition EngageQuarantine ::
    "banhost \<Rightarrow> string option \<times> string option \<Rightarrow> string list \<Rightarrow> Banner \<Rightarrow> Banner \<times> ban_error option" where
  "EngageQuarantine h files allowIPs b =
     (if allowIPs = [] then (b, Some EmptyAllowList)
      else if \<not> bn_SkipOperatorIPCheck b \<and> operator_locked_out (activeSSHPeers files) allowIPs
      then (b, Some (PeerNotAllowed (activeSSHPeers files) allowIPs))
      else if \<not> bn_useNFT b then (b, Some NeedsNFT)
      else if ho_LookPath (bh_host h) ''nft'' = None then (b, Some NftNotInstalled)
      else case parse_allowIPs allowIPs of
             Inl e \<Rightarrow> (b, Some e)
           | Inr parsed \<Rightarrow>
               case build_table h parsed (fst (nftFlushQuarantine h b)) of
                 (b1, Some e) \<Rightarrow> (b1, Some e)
               | (b1, None) \<Rightarrow> (b1\<lparr>bn_quarantineOn := True\<rparr>, None))"

definition DisengageQuarantine :: "banhost \<Rightarrow> Banner \<Rightarrow> Banner \<times> ban_error option" where
  "DisengageQuarantine h b =
     (case nftFlushQuarantine h b of
        (b1, Some e) \<Rightarrow> (b1, Some e)
      | (b1, None) \<Rightarrow> (b1\<lparr>bn_quarantineOn := False\<rparr>, None))"

subsection \<open>Steps of the banner\<close>

datatype bcall =
    BBan gotime gotime ip string duration
  | BUnban ip
  | BSweep gotime
  | BEnsure
  | BEngage "string option \<times> string option" "string list"
  | BDisengage

primrec bstep :: "banhost \<Rightarrow> Banner \<Rightarrow> bcall \<Rightarrow> Banner" where
  "bstep h b (BBan t1 t2 i why ttl) = fst (Ban h (t1, t2) i why ttl b)"
| "bstep h b (BUnban i) = fst (Unban h i b)"
| "bstep h b (BSweep now) = Banner_Sweep h now b"
| "bstep h b BEnsure = fst (EnsureNFT h b)"
| "bstep h b (BEngage files allow) = fst (EngageQuarantine h files allow b)"
| "bstep h b BDisengage = fst (DisengageQuarantine h b)"

text \<open>
  \<open>acts P b b'\<close>: the step only adds operations that satisfy \<open>P\<close>, and leaves the configuration and the
  allow list as they are.
\<close>

definition acts :: "(ban_op \<Rightarrow> bool) \<Rightarrow> Banner \<Rightarrow> Banner \<Rightarrow> bool" where
  "acts P b b' \<longleftrightarrow> bn_xdp b' = bn_xdp b \<and> bn_useNFT b' = bn_useNFT b \<and>
     map_option sn_allow (bn_safetynet b') = map_option sn_allow (bn_safetynet b) \<and>
     (\<exists>tr. bn_ops b' = bn_ops b @ tr \<and> list_all P tr)"

lemma acts_refl [simp]: "acts P b b"
  by (simp add: acts_def)

lemma acts_trans: "acts P b b1 \<Longrightarrow> acts P b1 b2 \<Longrightarrow> acts P b b2"
  unfolding acts_def by fastforce

lemma acts_mono: "acts P b b' \<Longrightarrow> (\<And>op. P op \<Longrightarrow> Q op) \<Longrightarrow> acts Q b b'"
  by (auto simp: acts_def list_all_iff)

lemma acts_update [simp]:
  "acts P b (b'\<lparr>bn_entries := es\<rparr>) = acts P b b'" "acts P b (b'\<lparr>bn_quarantineOn := q\<rparr>) = acts P b b'"
  "acts P b (b'\<lparr>bn_vetoedCount := v\<rparr>) = acts P b b'"
  "acts P (b\<lparr>bn_entries := es\<rparr>) b' = acts P b b'"
  by (simp_all add: acts_def)

lemma ban_run_acts: "P (NFT c) \<Longrightarrow> acts P b (fst (ban_run h c b))"
  by (simp add: ban_run_def acts_def)

lemma xdp_call_acts: "P op \<Longrightarrow> acts P b (fst (xdp_call h op b))"
  by (simp add: xdp_call_def acts_def)

lemma entries_keep [simp]:
  "bn_entries (fst (ban_run h c b)) = bn_entries b" "bn_entries (fst (xdp_call h op b)) = bn_entries b"
  "bn_entries (fst (nftAdd h i ttl b)) = bn_entries b" "bn_entries (fst (nftDel h i b)) = bn_entries b"
  "bn_entries (fst (lift_ban h i b)) = bn_entries b"
  by (simp_all add: ban_run_def xdp_call_def nftAdd_def nftDel_def lift_ban_def case_prod_beta)

lemma nftAdd_acts: "P (NFT (ban_add_cmd i ttl)) \<Longrightarrow> acts P b (fst (nftAdd h i ttl b))"
  by (simp add: nftAdd_def case_prod_beta ban_run_acts)

lemma nftDel_acts: "P (NFT (ban_del_cmd i)) \<Longrightarrow> acts P b (fst (nftDel h i b))"
  by (simp add: nftDel_def case_prod_beta ban_run_acts)

lemma lift_ban_acts: "P (XDPRemove i) \<Longrightarrow> P (NFT (ban_del_cmd i)) \<Longrightarrow> acts P b (fst (lift_ban h i b))"
  by (auto simp: lift_ban_def case_prod_beta intro: acts_trans xdp_call_acts nftDel_acts)

lemma lift_all_acts:
  "(\<And>i. P (XDPRemove i)) \<Longrightarrow> (\<And>i. P (NFT (ban_del_cmd i))) \<Longrightarrow> acts P b (foldl (\<lambda>b i. fst (lift_ban h i b)) b addrs)"
proof (induction addrs arbitrary: b)
  case (Cons i addrs)
  then have "acts P b (fst (lift_ban h i b))" by (intro lift_ban_acts)
  from acts_trans [OF this Cons.IH [OF Cons.prems]] show ?case by simp
qed simp

lemma lift_all_entries [simp]: "bn_entries (foldl (\<lambda>b i. fst (lift_ban h i b)) b addrs) = bn_entries b"
  by (induction addrs arbitrary: b) auto

lemma Sweep_acts:
  "(\<And>i. P (XDPRemove i)) \<Longrightarrow> (\<And>i. P (NFT (ban_del_cmd i))) \<Longrightarrow> acts P b (Banner_Sweep h now b)"
  using lift_all_acts [of P "b\<lparr>bn_entries := es\<rparr>" for es] by (simp add: Banner_Sweep_def Let_def)

lemma Sweep_entries: "bn_entries (Banner_Sweep h now b) = filter (\<lambda>e. \<not> be_expires (snd e) < now) (bn_entries b)"
  by (simp add: Banner_Sweep_def Let_def)

lemma run_until_acts: "list_all (\<lambda>c. P (NFT c)) cs \<Longrightarrow> acts P b (fst (run_until h err cs b))"
proof (induction cs arbitrary: b)
  case (Cons c cs)
  then have "acts P b (fst (ban_run h c b))" by (intro ban_run_acts) simp
  then show ?case using Cons by (auto simp: case_prod_beta intro: acts_trans)
qed simp

lemma run_until_entries [simp]: "bn_entries (fst (run_until h err cs b)) = bn_entries b"
proof (induction cs arbitrary: b)
  case (Cons c cs)
  then show ?case by (simp add: case_prod_beta)
qed simp

text \<open>The commands of a quarantine.\<close>

definition quarantine_cmd :: "cmd \<Rightarrow> bool" where
  "quarantine_cmd c \<longleftrightarrow> c = flush_cmd \<or> c \<in> set build_cmds \<or> (\<exists>fam ips. c \<in> set (allow_cmds fam ips))"

lemma run_quarantine_acts:
  "(\<And>c. quarantine_cmd c \<Longrightarrow> P (NFT c)) \<Longrightarrow> acts P b (fst (run_until h err build_cmds b))"
  "(\<And>c. quarantine_cmd c \<Longrightarrow> P (NFT c)) \<Longrightarrow> acts P b (fst (run_until h err (allow_cmds fam ips) b))"
  by (rule run_until_acts; auto simp: list_all_iff quarantine_cmd_def)+

lemma flush_acts: "(\<And>c. quarantine_cmd c \<Longrightarrow> P (NFT c)) \<Longrightarrow> acts P b (fst (nftFlushQuarantine h b))"
  by (simp add: nftFlushQuarantine_def case_prod_beta ban_run_acts quarantine_cmd_def)

lemma flush_entries [simp]: "bn_entries (fst (nftFlushQuarantine h b)) = bn_entries b"
  by (simp add: nftFlushQuarantine_def case_prod_beta)

lemma build_table_acts:
  assumes "\<And>c. quarantine_cmd c \<Longrightarrow> P (NFT c)"
  shows "acts P b (fst (build_table h addrs b))"
proof -
  note r = run_quarantine_acts [where P = P, OF assms]
  show ?thesis
    unfolding build_table_def Let_def case_prod_beta
    by (auto split: option.split intro: r acts_trans [OF r(1) r(2)] acts_trans [OF acts_trans [OF r(1) r(2)] r(2)])
qed

lemma build_table_entries [simp]: "bn_entries (fst (build_table h addrs b)) = bn_entries b"
  by (simp add: build_table_def Let_def case_prod_beta split: option.split)

lemma Engage_acts:
  assumes "\<And>c. quarantine_cmd c \<Longrightarrow> P (NFT c)"
  shows "acts P b (fst (EngageQuarantine h files allow b))" "acts P b (fst (DisengageQuarantine h b))"
proof -
  note f = flush_acts [where P = P, OF assms] and t = build_table_acts [where P = P, OF assms]
  show "acts P b (fst (DisengageQuarantine h b))"
    using f [of b h] by (simp add: DisengageQuarantine_def case_prod_beta split: option.split)
  show "acts P b (fst (EngageQuarantine h files allow b))"
    using acts_trans [OF f [of b h] t] by (simp add: EngageQuarantine_def case_prod_beta split: sum.split option.split)
qed

lemma Engage_entries [simp]:
  "bn_entries (fst (EngageQuarantine h files allow b)) = bn_entries b"
  "bn_entries (fst (DisengageQuarantine h b)) = bn_entries b"
  by (simp_all add: EngageQuarantine_def DisengageQuarantine_def case_prod_beta split: sum.split option.split)

lemma run_all_acts:
  "list_all (\<lambda>c. P (NFT c)) cs \<Longrightarrow> acts P b (foldl (\<lambda>b c. fst (ban_run h c b)) b cs)"
proof (induction cs arbitrary: b)
  case (Cons c cs)
  then have "acts P b (fst (ban_run h c b))" by (intro ban_run_acts) simp
  with Cons show ?case by (auto intro: acts_trans)
qed simp

lemma run_all_entries [simp]: "bn_entries (foldl (\<lambda>b c. fst (ban_run h c b)) b cs) = bn_entries b"
  by (induction cs arbitrary: b) simp_all

lemma EnsureNFT_acts: "(\<And>c. c \<in> set ensure_cmds \<Longrightarrow> P (NFT c)) \<Longrightarrow> acts P b (fst (EnsureNFT h b))"
  by (simp add: EnsureNFT_def run_all_acts list_all_iff)

lemma EnsureNFT_entries [simp]: "bn_entries (fst (EnsureNFT h b)) = bn_entries b"
  by (simp add: EnsureNFT_def)

lemma Unban_acts: "P (XDPRemove i) \<Longrightarrow> P (NFT (ban_del_cmd i)) \<Longrightarrow> acts P b (fst (Unban h i b))"
  using lift_ban_acts [of P i "b\<lparr>bn_entries := es\<rparr>" for es] by (simp add: Unban_def)

lemma Unban_entries [simp]: "bn_entries (fst (Unban h i b)) = go_del (ip_String i) (bn_entries b)"
  by (simp add: Unban_def)

text \<open>The allow list of the safety net, if there is one, and whether it protects an address.\<close>

definition protects :: "Prefix list option \<Rightarrow> ip \<Rightarrow> bool" where
  "protects al i = (case al of None \<Rightarrow> False | Some ps \<Rightarrow> covered ps (ipToAddr i))"

abbreviation allow_list :: "Banner \<Rightarrow> Prefix list option" where
  "allow_list b \<equiv> map_option sn_allow (bn_safetynet b)"

lemma ban_veto_eq:
  "snd (ban_veto i b) = protects (allow_list b) i" "bn_entries (fst (ban_veto i b)) = bn_entries b"
  "acts P b (fst (ban_veto i b))"
  by (auto simp: ban_veto_def AllowAlways_def protects_def acts_def Let_def split: option.split)

lemma Ban_vetoed:
  "protects (allow_list b) i \<Longrightarrow>
   snd (Ban h now i why ttl b) = None \<and> bn_entries (fst (Ban h now i why ttl b)) = bn_entries b \<and>
   acts (\<lambda>_. False) b (fst (Ban h now i why ttl b))"
  using ban_veto_eq [where i = i and b = b] by (simp add: Ban_def Let_def case_prod_beta)

lemma Ban_placed:
  assumes "\<not> protects (allow_list b) i"
  shows "bn_entries (fst (Ban h now i why ttl b)) =
      go_set (ip_String i) \<lparr>be_ip = i, be_reason = why, be_addedAt = fst now,
        be_expires = snd now + (if ttl \<le> 0 then hour else ttl)\<rparr> (bn_entries b)"
    and "P (XDPAdd i) \<Longrightarrow> (\<And>t. P (NFT (ban_add_cmd i t))) \<Longrightarrow> acts P b (fst (Ban h now i why ttl b))"
proof -
  show "bn_entries (fst (Ban h now i why ttl b)) =
      go_set (ip_String i) \<lparr>be_ip = i, be_reason = why, be_addedAt = fst now,
        be_expires = snd now + (if ttl \<le> 0 then hour else ttl)\<rparr> (bn_entries b)"
    using assms ban_veto_eq [where i = i and b = b] by (simp add: Ban_def Let_def case_prod_beta)
  assume "P (XDPAdd i)" and "\<And>t. P (NFT (ban_add_cmd i t))"
  then show "acts P b (fst (Ban h now i why ttl b))"
    using assms ban_veto_eq [where i = i and b = b]
    by (auto simp: Ban_def Let_def case_prod_beta intro!: acts_trans [OF _ nftAdd_acts] acts_trans [OF _ xdp_call_acts])
qed

text \<open>What may reach the kernel while an allow list is in force.\<close>

definition harmless :: "Prefix list option \<Rightarrow> ban_op \<Rightarrow> bool" where
  "harmless al op = (case op of
      XDPAdd i \<Rightarrow> \<not> protects al i
    | XDPRemove i \<Rightarrow> True
    | NFT c \<Rightarrow> c \<in> set ensure_cmds \<or> quarantine_cmd c \<or> (\<exists>i. c = ban_del_cmd i) \<or>
        (\<exists>i ttl. c = ban_add_cmd i ttl \<and> \<not> protects al i))"

lemma harmless_add:
  assumes "\<not> protects al i"
  shows "harmless al (XDPAdd i)" "harmless al (NFT (ban_add_cmd i t))"
  using assms by (simp add: harmless_def, simp only: harmless_def ban_op.case) blast

lemma bstep_acts: "acts (harmless (allow_list b)) b (bstep h b c)"
proof (cases c)
  case (BBan t1 t2 i why ttl)
  show ?thesis
  proof (cases "protects (allow_list b) i")
    case True
    from Ban_vetoed [OF this, of h "(t1, t2)" why ttl] have "acts (\<lambda>_. False) b (bstep h b c)" by (simp add: BBan)
    then show ?thesis by (rule acts_mono) simp
  next
    case False
    from Ban_placed(2) [where P = "harmless (allow_list b)", OF this harmless_add(1) [OF this] harmless_add(2) [OF this]]
    show ?thesis by (simp add: BBan)
  qed
qed (auto simp: harmless_def intro!: Unban_acts Sweep_acts EnsureNFT_acts Engage_acts)

definition entry_fine :: "Prefix list option \<Rightarrow> string \<times> ban_entry \<Rightarrow> bool" where
  "entry_fine al e \<longleftrightarrow> fst e = ip_String (be_ip (snd e)) \<and> \<not> protects al (be_ip (snd e))"

definition binv :: "Prefix list option \<Rightarrow> Banner \<Rightarrow> bool" where
  "binv al b \<longleftrightarrow> allow_list b = al \<and> list_all (harmless al) (bn_ops b) \<and>
     go_wf (bn_entries b) \<and> list_all (entry_fine al) (bn_entries b)"

lemma list_all_go_set: "list_all P m \<Longrightarrow> P (k, v) \<Longrightarrow> list_all P (go_set k v m)"
  by (induction m) auto

lemma list_all_go_del: "list_all P m \<Longrightarrow> list_all P (go_del k m)"
  using set_go_del [of k m] by (auto simp: list_all_iff)

lemma list_all_filter: "list_all P m \<Longrightarrow> list_all P (filter Q m)"
  by (auto simp: list_all_iff)

lemma bstep_entries:
  assumes w: "go_wf (bn_entries b)" and f: "list_all (entry_fine (allow_list b)) (bn_entries b)"
  shows "go_wf (bn_entries (bstep h b c)) \<and> list_all (entry_fine (allow_list b)) (bn_entries (bstep h b c))"
proof (cases c)
  case (BBan t1 t2 i why ttl)
  show ?thesis
  proof (cases "protects (allow_list b) i")
    case True
    from Ban_vetoed [OF True] have "bn_entries (bstep h b c) = bn_entries b" by (simp add: BBan)
    with w f show ?thesis by (simp only: simp_thms)
  next
    case False
    let ?v = "\<lparr>be_ip = i, be_reason = why, be_addedAt = t1, be_expires = t2 + (if ttl \<le> 0 then hour else ttl)\<rparr>"
    have e: "bn_entries (bstep h b c) = go_set (ip_String i) ?v (bn_entries b)"
      by (simp only: BBan bstep.simps Ban_placed(1) [OF False] fst_conv snd_conv)
    have "entry_fine (allow_list b) (ip_String i, ?v)" using False by (simp add: entry_fine_def)
    with go_wf_set [OF w] list_all_go_set [OF f] show ?thesis unfolding e by blast
  qed
next
  case (BUnban i)
  then show ?thesis using go_wf_del [OF w] list_all_go_del [OF f] by simp
next
  case (BSweep now)
  then show ?thesis using go_wf_filter [OF w] list_all_filter [OF f] by (simp add: Sweep_entries)
qed (use w f in simp_all)

lemma binv_step: "binv al b \<Longrightarrow> binv al (bstep h b c)"
  using bstep_acts [of b h c] bstep_entries [of b h c] by (auto simp: binv_def acts_def)

interpretation bans: machine "Banner_SetSafetyNet so (NewBanner xdp nft)" "bstep h" "binv (map_option sn_allow so)"
  for so xdp nft h
  by unfold_locales (simp add: binv_def Banner_SetSafetyNet_def NewBanner_def, rule binv_step)

subsection \<open>Properties\<close>


text \<open>Runs without end: the state after the first calls of a schedule.\<close>

definition brun :: "banhost \<Rightarrow> Banner \<Rightarrow> (nat \<Rightarrow> bcall) \<Rightarrow> nat \<Rightarrow> Banner" where
  "brun h b sched k = foldl (bstep h) b (map sched [0..<k])"

lemma brun_0 [simp]: "brun h b sched 0 = b"
  by (simp add: brun_def)

lemma brun_Suc [simp]: "brun h b sched (Suc k) = bstep h (brun h b sched k) (sched k)"
  by (simp add: brun_def)

text \<open>An address is out of the table and out of the drop sets the banner feeds.\<close>

definition lifted :: "string \<Rightarrow> Banner \<Rightarrow> bool" where
  "lifted key b \<longleftrightarrow> go_get (bn_entries b) key = None \<and>
     (\<exists>i. ip_String i = key \<and> (bn_xdp b \<longrightarrow> XDPRemove i \<in> set (bn_ops b)) \<and>
          (bn_useNFT b \<longrightarrow> NFT (ban_del_cmd i) \<in> set (bn_ops b)))"

definition rebans :: "string \<Rightarrow> bcall \<Rightarrow> bool" where
  "rebans key c \<longleftrightarrow> (\<exists>t1 t2 i why ttl. c = BBan t1 t2 i why ttl \<and> ip_String i = key)"

lemma acts_ops: "acts P b b' \<Longrightarrow> op \<in> set (bn_ops b) \<Longrightarrow> op \<in> set (bn_ops b')"
  by (auto simp: acts_def)

lemma bstep_frame:
  "bn_xdp (bstep h b c) = bn_xdp b" "bn_useNFT (bstep h b c) = bn_useNFT b"
  "op \<in> set (bn_ops b) \<Longrightarrow> op \<in> set (bn_ops (bstep h b c))"
  using bstep_acts [of b h c] by (auto simp: acts_def)

lemma Ban_other: "ip_String i \<noteq> key \<Longrightarrow> go_get (bn_entries (fst (Ban h now i why ttl b))) key = go_get (bn_entries b) key"
  by (cases "protects (allow_list b) i") (simp_all add: Ban_vetoed Ban_placed(1))

lemma lift_ban_ops:
  "bn_xdp b \<Longrightarrow> XDPRemove i \<in> set (bn_ops (fst (lift_ban h i b)))"
  "bn_useNFT b \<Longrightarrow> NFT (ban_del_cmd i) \<in> set (bn_ops (fst (lift_ban h i b)))"
  by (simp_all add: lift_ban_def xdp_call_def nftDel_def ban_run_def case_prod_beta)

lemma lift_all_ops:
  assumes "i \<in> set addrs"
  shows "bn_xdp b \<Longrightarrow> XDPRemove i \<in> set (bn_ops (foldl (\<lambda>b i. fst (lift_ban h i b)) b addrs))"
    and "bn_useNFT b \<Longrightarrow> NFT (ban_del_cmd i) \<in> set (bn_ops (foldl (\<lambda>b i. fst (lift_ban h i b)) b addrs))"
proof -
  from split_list [OF assms] obtain xs ys where s: "addrs = xs @ i # ys" by blast
  let ?b = "foldl (\<lambda>b i. fst (lift_ban h i b)) b xs"
  have a: "acts (\<lambda>_. True) b ?b" "acts (\<lambda>_. True) (fst (lift_ban h i ?b)) (foldl (\<lambda>b i. fst (lift_ban h i b)) b addrs)"
    by (simp_all add: s lift_all_acts)
  have f: "bn_xdp ?b = bn_xdp b" "bn_useNFT ?b = bn_useNFT b" using a(1) by (simp_all add: acts_def)
  show "bn_xdp b \<Longrightarrow> XDPRemove i \<in> set (bn_ops (foldl (\<lambda>b i. fst (lift_ban h i b)) b addrs))"
    using acts_ops [OF a(2) lift_ban_ops(1)] f by simp
  show "bn_useNFT b \<Longrightarrow> NFT (ban_del_cmd i) \<in> set (bn_ops (foldl (\<lambda>b i. fst (lift_ban h i b)) b addrs))"
    using acts_ops [OF a(2) lift_ban_ops(2)] f by simp
qed

lemma absent_step:
  assumes "go_get (bn_entries b) key = None" and "\<not> rebans key c"
  shows "go_get (bn_entries (bstep h b c)) key = None"
proof (cases c)
  case (BBan t1 t2 i why ttl)
  then show ?thesis using assms by (auto simp: rebans_def Ban_other)
next
  case (BSweep now)
  have "key \<notin> fst ` set (filter P (bn_entries b))" for P using assms(1) by (auto simp: map_of_eq_None_iff)
  then show ?thesis by (simp add: BSweep Sweep_entries map_of_eq_None_iff)
qed (use assms(1) in simp_all)

lemma lifted_step: "lifted key b \<Longrightarrow> \<not> rebans key c \<Longrightarrow> lifted key (bstep h b c)"
  using absent_step bstep_frame unfolding lifted_def by metis

lemma sweep_lifts:
  assumes "go_wf (bn_entries b)" and "go_get (bn_entries b) key = Some e" and "ip_String (be_ip e) = key"
    and "be_expires e < now"
  shows "lifted key (Banner_Sweep h now b)"
proof -
  let ?addrs = "map (\<lambda>e. be_ip (snd e)) (filter (\<lambda>e. be_expires (snd e) < now) (bn_entries b))"
  let ?b = "b\<lparr>bn_entries := filter (\<lambda>e. \<not> be_expires (snd e) < now) (bn_entries b)\<rparr>"
  have s: "Banner_Sweep h now b = foldl (\<lambda>b i. fst (lift_ban h i b)) ?b ?addrs" by (simp add: Banner_Sweep_def Let_def)
  have "(key, e) \<in> set (bn_entries b)" using map_of_SomeD [OF assms(2)] .
  then have m: "be_ip e \<in> set ?addrs" using assms(4) by force
  have "acts (\<lambda>_. True) b (Banner_Sweep h now b)" by (rule Sweep_acts) simp_all
  then have f: "bn_xdp (Banner_Sweep h now b) = bn_xdp b" "bn_useNFT (Banner_Sweep h now b) = bn_useNFT b"
    by (simp_all add: acts_def)
  have "go_get (bn_entries (Banner_Sweep h now b)) key = None"
    unfolding Sweep_entries go_get_filter [OF assms(1)] using assms(2,4) by simp
  with lift_all_ops [OF m, of ?b h] assms(3) f show ?thesis unfolding lifted_def s [symmetric] by auto
qed

lemma banned_step:
  assumes "go_wf (bn_entries b)" and "go_get (bn_entries b) key = Some e" and "ip_String (be_ip e) = key"
    and "\<not> rebans key c"
  shows "go_get (bn_entries (bstep h b c)) key = Some e \<or> lifted key (bstep h b c)"
proof (cases c)
  case (BBan t1 t2 i why ttl)
  then show ?thesis using assms by (auto simp: rebans_def Ban_other)
next
  case (BUnban i)
  show ?thesis
  proof (cases "ip_String i = key")
    case True
    have "acts (\<lambda>_. True) b (fst (Unban h i b))" by (rule Unban_acts) simp_all
    then have "bn_xdp (fst (Unban h i b)) = bn_xdp b" "bn_useNFT (fst (Unban h i b)) = bn_useNFT b"
      by (simp_all add: acts_def)
    then have "lifted key (fst (Unban h i b))"
      using True lift_ban_ops [of "b\<lparr>bn_entries := go_del (ip_String i) (bn_entries b)\<rparr>" i h]
      by (auto simp: lifted_def Unban_def)
    then show ?thesis by (simp add: BUnban)
  qed (use assms BUnban in simp)
next
  case (BSweep now)
  show ?thesis
  proof (cases "be_expires e < now")
    case True
    then show ?thesis using sweep_lifts [OF assms(1-3) True] by (simp add: BSweep)
  next
    case False
    then have "go_get (bn_entries (bstep h b c)) key = Some e"
      unfolding BSweep bstep.simps Sweep_entries go_get_filter [OF assms(1)] using assms(2) by simp
    then show ?thesis ..
  qed
qed (use assms(2) in simp_all)


definition banned_banner :: Banner where
  "banned_banner = foldl (bstep \<lparr>bh_host = \<lparr>ho_LookPath = (\<lambda>_. None), ho_run = (\<lambda>_ _. ('''', True))\<rparr>, bh_xdp = (\<lambda>_ _. None)\<rparr>)
     (Banner_SetSafetyNet None (NewBanner True True)) [BBan 1 1 (map4 [10, 0, 0, 9]) ''scan'' 0]"


text \<open>What a quarantine that engages has run, and the operator's way in.\<close>

lemma run_until_ok:
  "snd (run_until h err cs b) = None \<Longrightarrow> bn_ops (fst (run_until h err cs b)) = bn_ops b @ map NFT cs"
  by (induction cs arbitrary: b) (auto simp: ban_run_def split: prod.splits if_splits)

lemma run_until_mark: "bn_quarantineOn (fst (run_until h err cs b)) = bn_quarantineOn b"
proof (induction cs arbitrary: b)
  case (Cons c cs)
  then show ?case by (simp add: case_prod_beta) (simp add: ban_run_def)
qed simp

lemma parse_allowIPs_ok:
  "parse_allowIPs ss = Inr addrs \<Longrightarrow> map (\<lambda>s. ParseIP (trim_space s)) ss = map Some addrs"
  by (induction ss arbitrary: addrs) (auto split: option.splits sum.splits)

text \<open>The accept rules for the allowed addresses of one family.\<close>

definition family_rules :: "bool \<Rightarrow> ip list \<Rightarrow> cmd list" where
  "family_rules four addrs =
     (let ips = map ip_String (filter (\<lambda>i. (To4 i \<noteq> None) = four) addrs)
      in if ips = [] then [] else allow_cmds (if four then ''ip'' else ''ip6'') ips)"

lemma build_table_eq:
  "build_table h addrs b =
     (case run_until h NftBuild build_cmds b of
        (b1, Some e) \<Rightarrow> (b1, Some e)
      | (b1, None) \<Rightarrow>
          case run_until h (\<lambda>_. NftAllowV4) (family_rules True addrs) b1 of
            (b2, Some e) \<Rightarrow> (b2, Some e)
          | (b2, None) \<Rightarrow> run_until h (\<lambda>_. NftAllowV6) (family_rules False addrs) b2)"
  by (simp add: build_table_def family_rules_def Let_def split: prod.split option.split)

lemma build_table_ok:
  assumes "snd (build_table h addrs b) = None"
  shows "bn_ops (fst (build_table h addrs b)) =
    bn_ops b @ map NFT (build_cmds @ family_rules True addrs @ family_rules False addrs)"
  using assms by (simp add: build_table_eq case_prod_beta run_until_ok split: option.splits)


text \<open>A quarantine of a host with one allowed operator address and no open SSH connection.\<close>

definition ban_test_host :: "(cmd \<Rightarrow> bool) \<Rightarrow> banhost" where
  "ban_test_host ok = \<lparr>bh_host = \<lparr>ho_LookPath = (\<lambda>_. Some ''/usr/sbin/nft''), ho_run = (\<lambda>_ c. ('''', ok c))\<rparr>,
     bh_xdp = (\<lambda>_ _. None)\<rparr>"


text \<open>
  A quarantine that fails while its accept rules are added returns an error and leaves the table as it
  is: the chains that drop everything are in place, nothing deletes them afterwards, and the banner's
  mark says that the host is not quarantined.
\<close>

lemma failed_engage_leaves_drop:
  "(case EngageQuarantine (ban_test_host (\<lambda>c. ''saddr'' \<notin> set c)) (None, None) [''10.0.0.9''] (NewBanner False True) of
      (b, err) \<Rightarrow> err = Some NftAllowV4 \<and> \<not> bn_quarantineOn b \<and>
        bn_ops b = map NFT (flush_cmd # build_cmds @ take 1 (allow_cmds ''ip'' [''10.0.0.9''])))"
  by code_simp

subsection \<open>The kernel's connection table\<close>

text \<open>An address and port as the kernel prints them: bytes swapped within each group of four.\<close>

definition HEX :: "nat \<Rightarrow> char" where
  "HEX n = ''0123456789ABCDEF'' ! n"

definition kernel_byte :: "u8 \<Rightarrow> string" where
  "kernel_byte b = [HEX (unat b div 16), HEX (unat b mod 16)]"

definition kernel_port :: "u16 \<Rightarrow> string" where
  "kernel_port p = map HEX [unat p div 4096, unat p div 256 mod 16, unat p div 16 mod 16, unat p mod 16]"

definition kernel_addr :: "u8 list \<Rightarrow> u16 \<Rightarrow> string" where
  "kernel_addr bs p = concat (map kernel_byte (swap_groups bs)) @ CHR '':'' # kernel_port p"

lemma HEX_table:
  "list_all (\<lambda>n. hex_val (HEX n) = Some n \<and> HEX n \<noteq> CHR '':'' \<and> list_all (\<lambda>p. p \<noteq> [] \<and> hd p \<noteq> HEX n) go_spaces) [0..<16]"
  by code_simp

lemma HEX_val [simp]: "n < 16 \<Longrightarrow> hex_val (HEX n) = Some n"
  using HEX_table by (simp add: list_all_iff)

lemma HEX_colon [simp]: "n < 16 \<Longrightarrow> HEX n \<noteq> CHR '':''"
  using HEX_table by (simp add: list_all_iff)

lemma HEX_no_space: "n < 16 \<Longrightarrow> set ps \<subseteq> set go_spaces \<Longrightarrow> trim_with ps k (HEX n # s) = HEX n # s"
proof (cases k)
  case (Suc m)
  assume "n < 16" and ps: "set ps \<subseteq> set go_spaces"
  then have "\<forall>p\<in>set go_spaces. p \<noteq> [] \<and> hd p \<noteq> HEX n" using HEX_table by (simp add: list_all_iff)
  then have "\<not> has_prefix (HEX n # s) p" if "p \<in> set ps" for p
    using ps that by (cases p) (fastforce simp: has_prefix_def)+
  then have "find (has_prefix (HEX n # s)) ps = None" by (simp add: find_None_iff)
  then show ?thesis by (simp add: Suc)
qed simp

lemma swap_groups_twice [simp]: "swap_groups (swap_groups bs) = bs"
  by (induction bs rule: swap_groups.induct) simp_all

lemma swap_groups_length [simp]: "length (swap_groups bs) = length bs"
  by (induction bs rule: swap_groups.induct) simp_all

lemma byte_nibbles: "unat b div 16 < 16" "unat b mod 16 < 16" "of_nat (16 * (unat b div 16) + unat b mod 16) = b"
  for b :: u8
proof -
  have "unat b < 256" using unsigned_less [of b] by simp
  then show "unat b div 16 < 16" by linarith
  show "of_nat (16 * (unat b div 16) + unat b mod 16) = b" by simp
qed simp

lemma byte_digits:
  "hex_val (HEX (unat b div 16)) = Some (unat b div 16)" "hex_val (HEX (unat b mod 16)) = Some (unat b mod 16)"
  "HEX (unat b div 16) \<noteq> CHR '':''" "HEX (unat b mod 16) \<noteq> CHR '':''"
  for b :: u8
  by (intro HEX_val HEX_colon byte_nibbles)+

lemma hex_bytes_kernel: "hex_bytes (concat (map kernel_byte bs)) = Some bs"
proof (induction bs)
  case (Cons b bs)
  have "hex_bytes (HEX (unat b div 16) # HEX (unat b mod 16) # concat (map kernel_byte bs)) = Some (b # bs)"
    by (simp only: hex_bytes.simps byte_digits Cons option.case prod.case byte_nibbles)
  then show ?case by (simp only: kernel_byte_def [of b] list.map concat.simps append.simps)
qed simp

lemma colon_kernel: "CHR '':'' \<notin> set (concat (map kernel_byte bs))"
proof -
  have "CHR '':'' \<notin> set (kernel_byte b)" for b
    using byte_digits(3,4) [of b] unfolding kernel_byte_def by (simp only: list.set insert_iff empty_iff eq_commute [of "CHR '':''"] simp_thms not_False_eq_True)
  then show ?thesis by simp
qed

lemma index_byte_append: "c \<notin> set xs \<Longrightarrow> index_byte c (xs @ c # ys) = Some (length xs)"
  by (induction xs) (auto simp: index_byte_def)

lemma scan_hex16_digits:
  assumes "list_all (\<lambda>n. n < 16) (n # ns)" and "foldl (\<lambda>v n. v * 16 + n) 0 (n # ns) = m" and "m < 2 ^ 16"
  shows "scan_hex16 (map HEX (n # ns)) = Some (of_nat m)"
proof -
  have "trim_with (remove1 [CHR 0x0A] go_spaces) k (map HEX (n # ns)) = map HEX (n # ns)" for k
    using assms(1) HEX_no_space [OF _ set_remove1_subset] by simp
  moreover have "takeWhile is_hex (map HEX ks) = map HEX ks" if "list_all (\<lambda>n. n < 16) ks" for ks
    using that by (induction ks) (simp_all add: is_hex_def)
  moreover have "foldl (\<lambda>v c. v * 16 + the (hex_val c)) a (map HEX ks) = foldl (\<lambda>v n. v * 16 + n) a ks"
    if "list_all (\<lambda>n. n < 16) ks" for a ks
    using that by (induction ks arbitrary: a) simp_all
  ultimately show ?thesis
    using assms unfolding scan_hex16_def hex_acc_def by (simp only: Let_def) (simp del: power_numeral foldl_Cons list.map)
qed

lemma port_digits: "((a div 4096 * 16 + a div 256 mod 16) * 16 + a div 16 mod 16) * 16 + a mod 16 = (a::nat)"
proof -
  have "a div 4096 = a div 256 div 16" "a div 256 = a div 16 div 16" by (simp_all add: div_mult2_eq [symmetric])
  then show ?thesis by (simp only: div_mult_mod_eq)
qed

lemma scan_kernel_port: "scan_hex16 (kernel_port p) = Some p"
proof -
  have p: "unat p < 2 ^ 16" using unsigned_less [of p] by simp
  then have "unat p div 4096 < 16" by simp
  then have "list_all (\<lambda>n. n < 16) [unat p div 4096, unat p div 256 mod 16, unat p div 16 mod 16, unat p mod 16]" by simp
  from scan_hex16_digits [OF this _ p] port_digits [of "unat p"] show ?thesis by (simp add: kernel_port_def)
qed

text \<open>
  The banner reads what the kernel writes. An IPv4 or IPv6 address and a port, printed as in
  \<^verbatim>\<open>/proc/net/tcp\<close> and \<^verbatim>\<open>tcp6\<close>, are parsed back to that address and port.
\<close>

theorem kernel_address_roundtrip:
  assumes "length bs = 4 \<or> length bs = 16"
  shows "splitProcAddr (kernel_addr bs p) = (Some (if length bs = 4 then map4 bs else bs), p)"
proof -
  let ?h = "concat (map kernel_byte (swap_groups bs))"
  have "index_byte CHR '':'' (?h @ CHR '':'' # kernel_port p) = Some (length ?h)"
    by (rule index_byte_append [OF colon_kernel])
  then show ?thesis
    using assms by (auto simp: splitProcAddr_def kernel_addr_def hex_bytes_kernel scan_kernel_port)
qed

theorem kernel_address_roundtrip_witness: "splitProcAddr ''0100007F:0016'' = (Some (map4 [127, 0, 0, 1]), 22)"
proof -
  have "kernel_addr [127, 0, 0, 1] 22 = ''0100007F:0016''" by code_simp
  with kernel_address_roundtrip [of "[127, 0, 0, 1]" 22] show ?thesis by simp
qed

end
