(* ===== verification/PopCount.thy ===== *)
theory PopCount
  imports XPrelude
begin

text \<open>
  The arithmetic behind the bit-parallel population count: on a number below \<open>4 ^ 32\<close>, three masked
  additions turn pairs, nibbles and bytes of bits into their counts, and one multiplication adds up
  the bytes.
\<close>

unbundle bit_operations_syntax

text \<open>The number of ones among the lowest bits.\<close>

fun pop :: "nat \<Rightarrow> nat \<Rightarrow> nat" where
  "pop 0 x = 0"
| "pop (Suc n) x = x mod 2 + pop n (x div 2)"

lemma pop_card: "pop n x = card {i. i < n \<and> bit x i}"
proof (induction n arbitrary: x)
  case (Suc n)
  have "{i. i < Suc n \<and> bit x i} = (if odd x then {0} else {}) \<union> Suc ` {i. i < n \<and> bit (x div 2) i}"
    by (auto simp: image_iff bit_Suc bit_0 less_Suc_eq_0_disj)
  moreover have "card (Suc ` {i. i < n \<and> bit (x div 2) i}) = pop n (x div 2)"
    by (simp add: Suc card_image)
  ultimately show ?case by (auto simp: card_insert_if odd_iff_mod_2_eq_one)
qed simp

lemma pop_le: "pop n x \<le> n"
  by (induction n arbitrary: x) (auto intro: add_mono [where b = 1 and c = "pop _ _", simplified])

lemma pop_add: "pop (m + n) x = pop m x + pop n (x div 2 ^ m)"
  by (induction m arbitrary: x) (simp_all add: div_mult2_eq)

lemma pop_mod: "pop n (x mod 2 ^ n) = pop n x"
proof (induction n arbitrary: x)
  case (Suc n)
  have "x mod 2 ^ Suc n div 2 = x div 2 mod 2 ^ n" "x mod 2 ^ Suc n mod 2 = x mod 2"
    by (simp_all add: mod_mult2_eq mod_mod_cancel)
  with Suc show ?case by simp
qed simp

lemma and_base:
  fixes a c d m :: nat
  assumes "c < 2 ^ k" "d < 2 ^ k"
  shows "(2 ^ k * a + c) AND (2 ^ k * m + d) = 2 ^ k * (a AND m) + (c AND d)"
  using assms
proof (induction k arbitrary: c d)
  case (Suc k)
  have div: "(2 ^ Suc k * z + y) div 2 = 2 ^ k * z + y div 2" "odd (2 ^ Suc k * z + y) = odd y" for y z :: nat
    by (simp_all add: mult.assoc div_mult_self1)
  have "c div 2 < 2 ^ k" "d div 2 < 2 ^ k" using Suc.prems by auto
  from Suc.IH [OF this] show ?case
    by (subst and_nat_rec, subst (3) and_nat_rec) (simp only: div, simp)
qed simp

text \<open>Masks that repeat a digit, and numbers as lists of digits, least digit first.\<close>

fun digits :: "nat \<Rightarrow> nat list \<Rightarrow> nat" where
  "digits B [] = 0"
| "digits B (d # ds) = d + B * digits B ds"

abbreviation below :: "nat \<Rightarrow> nat list \<Rightarrow> bool" where
  "below b ds \<equiv> list_all (\<lambda>d. d < b) ds"

lemma digits_less: "below B ds \<Longrightarrow> digits B ds < B ^ length ds"
proof (induction ds)
  case (Cons d ds)
  then have "d + B * digits B ds < B + B * digits B ds" "Suc (digits B ds) \<le> B ^ length ds" by auto
  moreover from this(2) have "B * Suc (digits B ds) \<le> B * B ^ length ds" by (rule mult_le_mono2)
  ultimately show ?case by simp
qed simp

lemma digits_and:
  "below (2 ^ k) ds \<Longrightarrow> m < 2 ^ k \<Longrightarrow>
    digits (2 ^ k) ds AND digits (2 ^ k) (replicate (length ds) m) = digits (2 ^ k) (map (\<lambda>d. d AND m) ds)"
proof (induction ds)
  case (Cons d ds)
  then show ?case
    using and_base [of d k m "digits (2 ^ k) ds" "digits (2 ^ k) (replicate (length ds) m)"]
    by (simp add: add.commute)
qed simp

lemma digits_add: "length ds = length es \<Longrightarrow> digits B (map2 (+) ds es) = digits B ds + digits B es"
  by (induction ds es rule: list_induct2) (simp_all add: algebra_simps)

lemma digits_map_diff:
  "list_all (\<lambda>d. f d \<le> d) ds \<Longrightarrow> digits B ds - digits B (map f ds) = digits B (map (\<lambda>d. d - f d) ds)"
proof -
  assume "list_all (\<lambda>d. f d \<le> d) ds"
  then have "digits B (map f ds) + digits B (map (\<lambda>d. d - f d) ds) = digits B ds"
    by (induction ds) (simp_all add: algebra_simps flip: distrib_left)
  then show ?thesis by simp
qed

text \<open>A shift by less than a digit moves the low bits of the next digit in from the left.\<close>

fun shr :: "nat \<Rightarrow> nat \<Rightarrow> nat list \<Rightarrow> nat list" where
  "shr j k [] = []"
| "shr j k (d # ds) = (d div 2 ^ j + 2 ^ (k - j) * (case ds of [] \<Rightarrow> 0 | e # _ \<Rightarrow> e mod 2 ^ j)) # shr j k ds"

lemma length_shr [simp]: "length (shr j k ds) = length ds"
  by (induction ds) simp_all

lemma digits_shr: "j \<le> k \<Longrightarrow> digits (2 ^ k) ds div 2 ^ j = digits (2 ^ k) (shr j k ds)"
proof (induction ds)
  case (Cons d ds)
  let ?t = "digits (2 ^ k) ds"
  have k: "(2::nat) ^ k = 2 ^ j * 2 ^ (k - j)" using Cons.prems by (simp flip: power_add)
  have low: "(case ds of [] \<Rightarrow> 0 | e # _ \<Rightarrow> e mod 2 ^ j) = ?t mod 2 ^ j"
    by (cases ds) (simp_all add: k mult.assoc mod_mult_self2)
  have "(d + 2 ^ k * ?t) div 2 ^ j = d div 2 ^ j + 2 ^ (k - j) * ?t"
    by (simp add: k mult.assoc)
  also have "2 ^ (k - j) * ?t = 2 ^ (k - j) * (2 ^ j * (?t div 2 ^ j) + ?t mod 2 ^ j)" by simp
  also have "\<dots> = 2 ^ (k - j) * (?t mod 2 ^ j) + 2 ^ k * (?t div 2 ^ j)"
    by (simp only: k distrib_left ac_simps)
  finally show ?case using Cons by (simp add: low)
qed simp

lemma shr_below: "j \<le> k \<Longrightarrow> below (2 ^ k) ds \<Longrightarrow> below (2 ^ k) (shr j k ds)"
proof (induction ds)
  case (Cons d ds)
  let ?e = "case ds of [] \<Rightarrow> 0 | e # _ \<Rightarrow> e mod 2 ^ j"
  have k: "(2::nat) ^ k = 2 ^ (k - j) * 2 ^ j" using Cons.prems by (simp flip: power_add)
  have "d div 2 ^ j < 2 ^ (k - j)" using Cons.prems by (simp add: k less_mult_imp_div_less)
  moreover have "?e < 2 ^ j" by (cases ds) simp_all
  then have "2 ^ (k - j) * Suc ?e \<le> 2 ^ (k - j) * 2 ^ j" by (intro mult_le_mono2) simp
  ultimately have "d div 2 ^ j + 2 ^ (k - j) * ?e < 2 ^ k" by (simp add: k)
  with Cons show ?case by simp
qed simp

lemma and_low:
  fixes a b m :: nat
  assumes "m < 2 ^ j"
  shows "(a + 2 ^ j * b) AND m = a AND m"
proof -
  have "(2 ^ j * c + a mod 2 ^ j) AND m = a mod 2 ^ j AND m" for c
    using and_base [of "a mod 2 ^ j" j m c 0] assms by simp
  moreover have "a + 2 ^ j * b = 2 ^ j * (a div 2 ^ j + b) + a mod 2 ^ j"
    by (simp only: distrib_left) simp
  moreover have "a = 2 ^ j * (a div 2 ^ j) + a mod 2 ^ j" by simp
  ultimately show ?thesis by metis
qed

lemma shr_and:
  assumes "j \<le> k" "below (2 ^ k) ds" "m < 2 ^ (k - j)"
  shows "digits (2 ^ k) ds div 2 ^ j AND digits (2 ^ k) (replicate (length ds) m) =
    digits (2 ^ k) (map (\<lambda>d. d div 2 ^ j AND m) ds)"
proof -
  have "m < 2 ^ k" using assms(3) less_le_trans [OF _ power_increasing [of "k - j" k "2::nat"]] by simp
  then have "digits (2 ^ k) ds div 2 ^ j AND digits (2 ^ k) (replicate (length ds) m) =
      digits (2 ^ k) (map (\<lambda>d. d AND m) (shr j k ds))"
    using digits_and [OF shr_below [OF assms(1,2)]] by (simp add: digits_shr [OF assms(1)])
  also have "map (\<lambda>d. d AND m) (shr j k ds) = map (\<lambda>d. d div 2 ^ j AND m) ds"
    using assms(3) by (induction ds) (simp_all add: and_low)
  finally show ?thesis .
qed

text \<open>Two digits as one of the squared base.\<close>

fun join :: "nat \<Rightarrow> nat list \<Rightarrow> nat list" where
  "join B (a # b # ds) = (a + B * b) # join B ds"
| "join B ds = ds"

lemma digits_join: "even (length ds) \<Longrightarrow> digits (B * B) (join B ds) = digits B ds"
  by (induction B ds rule: join.induct) (simp_all add: algebra_simps)

lemma length_join: "even (length ds) \<Longrightarrow> length (join B ds) = length ds div 2"
  by (induction B ds rule: join.induct) simp_all

lemma join_all:
  "even (length ds) \<Longrightarrow> list_all P ds \<Longrightarrow> (\<And>a b. P a \<Longrightarrow> P b \<Longrightarrow> Q (a + B * b)) \<Longrightarrow> list_all Q (join B ds)"
  by (induction B ds rule: join.induct) simp_all

lemma sum_join:
  "even (length ds) \<Longrightarrow> below B ds \<Longrightarrow> sum_list (map (\<lambda>d. d mod B + d div B) (join B ds)) = sum_list ds"
  by (induction B ds rule: join.induct) simp_all

lemma digits_replicate: "(B - 1) * digits B (replicate n m) = m * (B ^ n - 1)" if "0 < B" for B m :: nat
proof (induction n)
  case (Suc n)
  have "(B - 1) * digits B (replicate (Suc n) m) = (B - 1) * m + B * (m * (B ^ n - 1))"
    by (simp only: replicate_Suc digits.simps distrib_left mult.left_commute [of "B - 1" B] Suc)
  also have "\<dots> = m * ((B - 1) + (B * B ^ n - B))" by (simp add: algebra_simps)
  also have "(B - 1) + (B * B ^ n - B) = B ^ Suc n - 1" using that by simp
  finally show ?case .
qed simp

lemma masks:
  "digits (2 ^ 2) (replicate 32 1) = 0x5555555555555555" "digits (2 ^ 4) (replicate 16 3) = 0x3333333333333333"
  "digits (2 ^ 8) (replicate 8 15) = 0x0f0f0f0f0f0f0f0f"
  using digits_replicate [of "2 ^ 2" 32 1] digits_replicate [of "2 ^ 4" 16 3] digits_replicate [of "2 ^ 8" 8 15]
  by simp_all

text \<open>The digits of a number.\<close>

fun to_digits :: "nat \<Rightarrow> nat \<Rightarrow> nat \<Rightarrow> nat list" where
  "to_digits k 0 x = []"
| "to_digits k (Suc n) x = x mod 2 ^ k # to_digits k n (x div 2 ^ k)"

lemma length_to_digits [simp]: "length (to_digits k n x) = n"
  by (induction n arbitrary: x) simp_all

lemma to_digits_below: "below (2 ^ k) (to_digits k n x)"
  by (induction n arbitrary: x) simp_all

lemma digits_to_digits: "x < 2 ^ (k * n) \<Longrightarrow> digits (2 ^ k) (to_digits k n x) = x"
proof (induction n arbitrary: x)
  case (Suc n)
  then have "x div 2 ^ k < 2 ^ (k * n)" by (simp add: power_add less_mult_imp_div_less mult.commute)
  with Suc.IH show ?case by simp
qed simp

lemma pop_to_digits: "sum_list (map (pop k) (to_digits k n x)) = pop (k * n) x"
  by (induction n arbitrary: x) (simp_all add: pop_add pop_mod)

text \<open>The last step: a multiplication adds the bytes up in the highest one.\<close>

lemma middle_digit:
  fixes low high m :: nat
  assumes "p = (low + m * d) + m * B * high" "low < m" "d < B"
  shows "p mod (m * B) div m = d"
proof -
  have "low + m * d < m * Suc d" using assms(2) by simp
  also have "m * Suc d \<le> m * B" using assms(3) by (intro mult_le_mono2) simp
  finally have "p mod (m * B) = low + m * d" by (simp add: assms(1))
  then show ?thesis using assms(2) by simp
qed

lemma top_byte:
  assumes "length rs = 8" and "list_all (\<lambda>r. r \<le> 8) rs"
  shows "digits 256 rs * 0x0101010101010101 mod 2 ^ 64 div 2 ^ 56 = sum_list rs"
proof -
  obtain a b c d e f g h where rs: "rs = [a, b, c, d, e, f, g, h]"
    using assms(1) by (auto simp: numeral_eq_Suc length_Suc_conv)
  let ?low = "digits 256 [a, a + b, a + b + c, a + b + c + d, a + b + c + d + e, a + b + c + d + e + f, a + b + c + d + e + f + g]"
  let ?high = "digits 256 [b + c + d + e + f + g + h, c + d + e + f + g + h, d + e + f + g + h, e + f + g + h, f + g + h, g + h, h]"
  have small: "a \<le> 8" "b \<le> 8" "c \<le> 8" "d \<le> 8" "e \<le> 8" "f \<le> 8" "g \<le> 8" "h \<le> 8"
    using assms(2) by (simp_all add: rs)
  then have low: "?low < 2 ^ 56" using digits_less [of 256 "[a, a + b, a + b + c, a + b + c + d,
      a + b + c + d + e, a + b + c + d + e + f, a + b + c + d + e + f + g]"] by simp
  have s: "sum_list rs < 256" using small by (simp add: rs)
  have "digits 256 rs * 0x0101010101010101 = (?low + 2 ^ 56 * sum_list rs) + 2 ^ 56 * 256 * ?high" by (simp add: rs)
  from middle_digit [OF this low s] show ?thesis by simp
qed

subsection \<open>The three masked additions\<close>

lemma pair_count: "d < 4 \<Longrightarrow> d div 2 AND 1 \<le> d \<and> d - (d div 2 AND 1) = pop 2 d \<and> pop 2 d \<le> 2" for d :: nat
proof -
  assume "d < 4"
  then have "d \<in> {0, 1, 2, 3}" by auto
  moreover have "pop 2 d = d mod 2 + d div 2 mod 2" by (simp add: numeral_2_eq_2)
  ultimately show ?thesis by auto
qed

lemma and_mod: "d AND 3 = d mod 4" "d AND 15 = d mod 16" for d :: nat
  using take_bit_eq_mask [of 2 d] take_bit_eq_mask [of 4 d] by (simp_all add: take_bit_eq_mod mask_eq_exp_minus_1)

lemma pair_stage:
  fixes x :: nat
  assumes "x < 2 ^ 64"
  shows "x div 2 AND 0x5555555555555555 \<le> x"
    and "x - (x div 2 AND 0x5555555555555555) = digits 4 (map (pop 2) (to_digits 2 32 x))"
proof -
  let ?ds = "to_digits 2 32 x" and ?f = "\<lambda>d. d div 2 AND (1::nat)"
  have x: "digits 4 ?ds = x" using digits_to_digits [of x 2 32] assms by simp
  have "below 4 ?ds" using to_digits_below [of 2 32 x] by simp
  then have f: "list_all (\<lambda>d. ?f d \<le> d) ?ds" "map (\<lambda>d. d - ?f d) ?ds = map (pop 2) ?ds"
    using pair_count by (auto simp: list_all_iff)
  have m: "x div 2 AND 0x5555555555555555 = digits 4 (map ?f ?ds)"
    using shr_and [of 1 2 ?ds 1] to_digits_below [of 2 32 x] masks(1) by (simp add: x)
  have "digits 4 (map ?f ds) \<le> digits 4 ds" if "list_all (\<lambda>d. ?f d \<le> d) ds" for ds
    using that by (induction ds) (simp_all add: add_mono)
  from this [OF f(1)] show "x div 2 AND 0x5555555555555555 \<le> x" by (simp only: m x)
  show "x - (x div 2 AND 0x5555555555555555) = digits 4 (map (pop 2) ?ds)"
    using digits_map_diff [OF f(1), of 4] by (simp only: m x f(2))
qed

lemma nibble_stage:
  assumes "length es = 32" and "list_all (\<lambda>e. e \<le> 2) es" and "y = digits 4 es"
  shows "(y AND 0x3333333333333333) + (y div 4 AND 0x3333333333333333) = digits 16 (map (\<lambda>q. q mod 4 + q div 4) (join 4 es))"
proof -
  let ?qs = "join 4 es"
  have y: "digits 16 ?qs = y" using digits_join [of es 4] assms by simp
  have qs: "length ?qs = 16" using assms by (simp add: length_join)
  have b: "below 16 ?qs" using join_all [OF _ assms(2), where B = 4 and Q = "\<lambda>q. q < 16"] assms(1) by simp
  have "y AND 0x3333333333333333 = digits 16 (map (\<lambda>q. q mod 4) ?qs)" (is "_ = digits 16 ?as")
    using digits_and [of 4 ?qs 3] b qs masks(2) by (simp add: y and_mod)
  moreover have "y div 4 AND 0x3333333333333333 = digits 16 (map (\<lambda>q. q div 4 AND 3) ?qs)"
    using shr_and [of 2 4 ?qs 3] b qs masks(2) by (simp add: y)
  moreover have "map (\<lambda>q. q div 4 AND 3) ?qs = map (\<lambda>q. q div 4) ?qs"
    using b by (auto simp: list_all_iff and_mod)
  ultimately have "(y AND 0x3333333333333333) + (y div 4 AND 0x3333333333333333) =
      digits 16 (map2 (+) ?as (map (\<lambda>q. q div 4) ?qs))"
    by (simp only: digits_add length_map)
  also have "map2 (+) ?as (map (\<lambda>q. q div 4) ?qs) = map (\<lambda>q. q mod 4 + q div 4) ?qs"
    by (simp add: map2_map_map)
  finally show ?thesis .
qed

lemma byte_stage:
  assumes "length fs = 16" and "list_all (\<lambda>f. f \<le> 4) fs" and "z = digits 16 fs"
  shows "(z + z div 16) AND 0x0f0f0f0f0f0f0f0f = digits 256 (map (\<lambda>r. r mod 16 + r div 16) (join 16 fs))"
    and "z + z div 16 < 2 ^ 64"
proof -
  let ?rs = "join 16 fs" and ?P = "\<lambda>r. r < 128 \<and> r mod 16 \<le> 4 \<and> r div 16 \<le> (4::nat)"
  let ?ss = "map2 (+) ?rs (shr 4 8 ?rs)"
  have z: "digits 256 ?rs = z" using digits_join [of fs 16] assms by simp
  have rs: "length ?rs = 8" using assms by (simp add: length_join)
  have P: "list_all ?P ?rs" using join_all [OF _ assms(2), where B = 16 and Q = ?P] assms(1) by simp
  have "z + z div 16 = digits 256 ?ss"
    using digits_add [of ?rs "shr 4 8 ?rs" 256] digits_shr [of 4 8 ?rs] by (simp add: z)
  moreover have s: "below 256 (map2 (+) rs (shr 4 8 rs)) \<and>
      map (\<lambda>s. s mod 16) (map2 (+) rs (shr 4 8 rs)) = map (\<lambda>r. r mod 16 + r div 16) rs" if "list_all ?P rs" for rs
    using that
  proof (induction rs)
    case (Cons r rs)
    let ?e = "case rs of [] \<Rightarrow> 0 | e # _ \<Rightarrow> e mod 2 ^ 4"
    have e: "?e \<le> 4" using Cons.prems by (cases rs) simp_all
    have "(r + (r div 16 + 16 * ?e)) mod 16 = (r mod 16 + r div 16) mod 16"
      by (simp add: add.assoc [symmetric] mod_add_left_eq)
    also have "\<dots> = r mod 16 + r div 16" using Cons.prems by simp
    finally show ?case using Cons e by simp
  qed simp
  ultimately show "(z + z div 16) AND 0x0f0f0f0f0f0f0f0f = digits 256 (map (\<lambda>r. r mod 16 + r div 16) ?rs)"
    "z + z div 16 < 2 ^ 64"
    using digits_and [of 8 ?ss 15] digits_less [of 256 ?ss] s [OF P] rs masks(3) by (simp_all add: and_mod)
qed

text \<open>All steps together, on numbers.\<close>

lemma swar:
  fixes x :: nat
  assumes "x < 2 ^ 64" and y: "y = x - (x div 2 AND 0x5555555555555555)"
    and z: "z = (y AND 0x3333333333333333) + (y div 4 AND 0x3333333333333333)"
  shows "((z + z div 16) AND 0x0f0f0f0f0f0f0f0f) * 0x0101010101010101 mod 2 ^ 64 div 2 ^ 56 = pop 64 x"
    and "z + z div 16 < 2 ^ 64"
proof -
  let ?es = "map (pop 2) (to_digits 2 32 x)"
  let ?fs = "map (\<lambda>q. q mod 4 + q div 4) (join 4 ?es)"
  let ?rs = "map (\<lambda>r. r mod 16 + r div 16) (join 16 ?fs)"
  have e: "length ?es = 32" "list_all (\<lambda>e. e \<le> 2) ?es" "y = digits 4 ?es"
    using pair_stage [OF assms(1)] pop_le [of 2] y by (simp_all add: list_all_iff)
  have f: "length ?fs = 16" "list_all (\<lambda>f. f \<le> 4) ?fs" "z = digits 16 ?fs"
    using nibble_stage [OF e] z e(1) join_all [OF _ e(2), where B = 4 and Q = "\<lambda>q. q mod 4 + q div 4 \<le> 4"]
    by (simp_all add: length_join list_all_iff)
  have r: "length ?rs = 8" "list_all (\<lambda>r. r \<le> 8) ?rs" "(z + z div 16) AND 0x0f0f0f0f0f0f0f0f = digits 256 ?rs"
    using byte_stage(1) [OF f] f(1) join_all [OF _ f(2), where B = 16 and Q = "\<lambda>r. r mod 16 + r div 16 \<le> 8"]
    by (simp_all add: length_join list_all_iff)
  have "below 4 ?es" "below 16 ?fs" using e(2) f(2) by (auto simp: list_all_iff)
  then have "sum_list ?rs = sum_list ?es" using sum_join [of ?fs 16] sum_join [of ?es 4] e(1) f(1) by simp
  also have "\<dots> = pop 64 x" using pop_to_digits [of 2 32 x] by simp
  finally show "((z + z div 16) AND 0x0f0f0f0f0f0f0f0f) * 0x0101010101010101 mod 2 ^ 64 div 2 ^ 56 = pop 64 x"
    using top_byte [OF r(1,2)] by (simp only: r(3))
  show "z + z div 16 < 2 ^ 64" by (rule byte_stage(2) [OF f])
qed

end
