(* ===== verification/Lineage.thy ===== *)
theory Lineage
  imports PopCount
begin

text \<open>
  Lineages, \<^verbatim>\<open>pkg/lineage\<close>: the causal chain every event carries with its byte encoding, the minter of
  identifiers and the store of origins and taints (\<^verbatim>\<open>lineage.go\<close>); taint as a 64-bit set of data classes,
  with the registry that gives every class name its bit (\<^verbatim>\<open>taint.go\<close>).

  The lemmas show that the bit-parallel population count is the number of bits, that the registry is
  one-to-one and turns names into a set and back, that chains survive their encoding, that minted
  identifiers do not repeat, and that taint grows until its lineage is swept.
\<close>

unbundle bit_operations_syntax

subsection \<open>Roots and chains\<close>

type_synonym LineageID = u64

datatype RootType =
  RootUnknown | RootSSH | RootPAM | RootCron | RootSystemd | RootContainer | RootSudo | RootWeb | RootLocal | RootKernel

primrec RootType_String :: "RootType \<Rightarrow> string" where
  "RootType_String RootUnknown = ''unknown''"
| "RootType_String RootSSH = ''ssh''"
| "RootType_String RootPAM = ''pam''"
| "RootType_String RootCron = ''cron''"
| "RootType_String RootSystemd = ''systemd''"
| "RootType_String RootContainer = ''container''"
| "RootType_String RootSudo = ''sudo''"
| "RootType_String RootWeb = ''web''"
| "RootType_String RootLocal = ''local''"
| "RootType_String RootKernel = ''kernel''"

type_synonym LineageChain = "LineageID list"

definition Chain_Extend :: "LineageID \<Rightarrow> LineageChain \<Rightarrow> LineageChain" where
  "Chain_Extend newID c = c @ [newID]"

definition Chain_Innermost :: "LineageChain \<Rightarrow> LineageID" where
  "Chain_Innermost c = (if c = [] then 0 else c ! (length c - 1))"

definition Chain_Outermost :: "LineageChain \<Rightarrow> LineageID" where
  "Chain_Outermost c = (if c = [] then 0 else c ! 0)"

fun Chain_Contains :: "LineageID \<Rightarrow> LineageChain \<Rightarrow> bool" where
  "Chain_Contains i [] = False"
| "Chain_Contains i (x # c) = (x = i \<or> Chain_Contains i c)"

definition Chain_String :: "LineageChain \<Rightarrow> string" where
  "Chain_String c = (if c = [] then ''(none)'' else str_join ''>'' (map (\<lambda>i. dec_str (unat i)) c))"

text \<open>\<^verbatim>\<open>binary.LittleEndian\<close> on 64-bit integers.\<close>

definition put_u64 :: "u64 \<Rightarrow> u8 list" where
  "put_u64 w = map (\<lambda>i. ucast (drop_bit (8 * i) w)) [0..<8]"

definition get_u64 :: "u8 list \<Rightarrow> u64" where
  "get_u64 bs = foldr (\<lambda>b w. push_bit 8 w OR ucast b) (take 8 bs) 0"

definition Chain_Marshal :: "LineageChain \<Rightarrow> u8 list" where
  "Chain_Marshal c = concat (map put_u64 c)"

datatype chain_error = NotMultipleOf8 nat

definition UnmarshalChain :: "u8 list \<Rightarrow> chain_error + LineageChain" where
  "UnmarshalChain b =
     (if b = [] then Inr []
      else if length b mod 8 \<noteq> 0 then Inl (NotMultipleOf8 (length b))
      else Inr (map (\<lambda>i. get_u64 (drop (i * 8) b)) [0..<length b div 8]))"

subsection \<open>Minter\<close>

text \<open>The counter starts at the clock's nanoseconds since 1970 and wraps around.\<close>

definition NewMinter :: "int \<Rightarrow> u64" where
  "NewMinter unixNano = of_int unixNano"

definition Minter_New :: "u64 \<Rightarrow> u64 \<times> LineageID" where
  "Minter_New c = (c + 1, c + 1)"

subsection \<open>Taint sets\<close>

type_synonym TaintSet = u64
type_synonym TaintBit = u8

abbreviation MaxTaintBits :: nat where "MaxTaintBits \<equiv> 64"

definition Taint_Has :: "TaintSet \<Rightarrow> TaintBit \<Rightarrow> bool" where
  "Taint_Has t b \<longleftrightarrow> t AND push_bit (unat b) 1 \<noteq> 0"

definition Taint_With :: "TaintBit \<Rightarrow> TaintSet \<Rightarrow> TaintSet" where
  "Taint_With b t = t OR push_bit (unat b) 1"

definition Taint_Union :: "TaintSet \<Rightarrow> TaintSet \<Rightarrow> TaintSet" where
  "Taint_Union t u = t OR u"

definition Taint_Intersects :: "TaintSet \<Rightarrow> TaintSet \<Rightarrow> bool" where
  "Taint_Intersects t u \<longleftrightarrow> t AND u \<noteq> 0"

definition Taint_IsEmpty :: "TaintSet \<Rightarrow> bool" where
  "Taint_IsEmpty t \<longleftrightarrow> t = 0"

definition Taint_Count :: "TaintSet \<Rightarrow> int" where
  "Taint_Count t =
     (let x = t - (drop_bit 1 t AND 0x5555555555555555);
          x = (x AND 0x3333333333333333) + (drop_bit 2 x AND 0x3333333333333333);
          x = (x + drop_bit 4 x) AND 0x0f0f0f0f0f0f0f0f
      in uint (drop_bit 56 (x * 0x0101010101010101)))"

definition Taint_Bits :: "TaintSet \<Rightarrow> TaintBit list" where
  "Taint_Bits t = filter (Taint_Has t) (map of_nat [0..<MaxTaintBits])"

subsection \<open>Store\<close>

record Origin =
  or_ID :: LineageID
  or_Type :: RootType
  or_CreatedAt :: gotime
  or_UserName :: string
  or_UID :: u32
  or_LoginUID :: u32
  or_SourceIP :: string
  or_SourcePort :: u16
  or_SSHKeyHash :: string
  or_PAMSessionID :: u32
  or_CronEntry :: string
  or_SystemdUnit :: string
  or_ContainerID :: string
  or_PodID :: string
  or_HTTPRequestID :: string
  or_Method :: string
  or_Path :: string
  or_EscalatedFromUID :: u32
  or_EscalatedFromName :: string

record LineageStore =
  ls_origins :: "(LineageID, Origin) gomap"
  ls_taints :: "(LineageID, TaintSet) gomap"

definition NewLineageStore :: LineageStore where
  "NewLineageStore = \<lparr>ls_origins = [], ls_taints = []\<rparr>"

definition Origin_Put :: "gotime \<Rightarrow> Origin \<Rightarrow> LineageStore \<Rightarrow> LineageStore" where
  "Origin_Put now o0 s =
     (if or_ID o0 = 0 then s
      else let og = (if or_CreatedAt o0 = 0 then o0\<lparr>or_CreatedAt := now\<rparr> else o0)
           in s\<lparr>ls_origins := go_set (or_ID og) og (ls_origins s)\<rparr>)"

definition Origin_Get :: "LineageID \<Rightarrow> LineageStore \<Rightarrow> Origin option" where
  "Origin_Get i s = go_get (ls_origins s) i"

definition Resolve :: "LineageChain \<Rightarrow> LineageStore \<Rightarrow> Origin list" where
  "Resolve c s = List.map_filter (\<lambda>i. go_get (ls_origins s) i) c"

definition SweepOlderThan :: "gotime \<Rightarrow> LineageStore \<Rightarrow> LineageStore \<times> nat" where
  "SweepOlderThan cutoff s =
     (let old = map fst (filter (\<lambda>(i, og). or_CreatedAt og < cutoff) (ls_origins s))
      in (\<lparr>ls_origins = fold go_del old (ls_origins s), ls_taints = fold go_del old (ls_taints s)\<rparr>, length old))"

definition LineageStore_Size :: "LineageStore \<Rightarrow> nat" where
  "LineageStore_Size s = length (ls_origins s)"

definition AddTaint :: "LineageID \<Rightarrow> TaintSet \<Rightarrow> LineageStore \<Rightarrow> LineageStore \<times> TaintSet" where
  "AddTaint i m s =
     (if i = 0 \<or> Taint_IsEmpty m then (s, go_get_or 0 (ls_taints s) i)
      else let merged = go_get_or 0 (ls_taints s) i OR m
           in (s\<lparr>ls_taints := go_set i merged (ls_taints s)\<rparr>, merged))"

definition Taint_of :: "LineageID \<Rightarrow> LineageStore \<Rightarrow> TaintSet" where
  "Taint_of i s = go_get_or 0 (ls_taints s) i"

definition TaintOfChain :: "LineageChain \<Rightarrow> LineageStore \<Rightarrow> TaintSet" where
  "TaintOfChain c s = foldl (\<lambda>out i. out OR go_get_or 0 (ls_taints s) i) 0 c"

definition TaintedCount :: "LineageStore \<Rightarrow> nat" where
  "TaintedCount s = length (filter (\<lambda>e. \<not> Taint_IsEmpty (snd e)) (ls_taints s))"

type_synonym TaintEntry = "LineageID \<times> TaintSet"

text \<open>
  The insertion sort: an element sinks from the right end of the sorted part, here kept reversed, past
  the entries with a larger identifier.
\<close>

fun sink :: "TaintEntry \<Rightarrow> TaintEntry list \<Rightarrow> TaintEntry list" where
  "sink x [] = [x]"
| "sink x (y # ys) = (if fst y > fst x then y # sink x ys else x # y # ys)"

definition sortTaintEntries :: "TaintEntry list \<Rightarrow> TaintEntry list" where
  "sortTaintEntries s = rev (foldl (\<lambda>p x. sink x p) [] s)"

definition TaintsSnapshot :: "LineageStore \<Rightarrow> TaintEntry list" where
  "TaintsSnapshot s = sortTaintEntries (filter (\<lambda>e. \<not> Taint_IsEmpty (snd e)) (ls_taints s))"

subsection \<open>Class registry\<close>

record ClassRegistry =
  cr_byName :: "(string, TaintBit) gomap"
  cr_byBit :: "string list"
  cr_next :: TaintBit

definition NewClassRegistry :: ClassRegistry where
  "NewClassRegistry = \<lparr>cr_byName = [], cr_byBit = replicate MaxTaintBits '''', cr_next = 0\<rparr>"

datatype registry_error = ErrClassRegistryFull

definition Registry_Bit :: "string \<Rightarrow> ClassRegistry \<Rightarrow> ClassRegistry \<times> (registry_error + TaintBit)" where
  "Registry_Bit name r =
     (case go_get (cr_byName r) name of
        Some b \<Rightarrow> (r, Inr b)
      | None \<Rightarrow>
          if MaxTaintBits \<le> unat (cr_next r) then (r, Inl ErrClassRegistryFull)
          else let b = cr_next r
               in (r\<lparr>cr_byName := go_set name b (cr_byName r), cr_byBit := (cr_byBit r)[unat b := name],
                     cr_next := b + 1\<rparr>, Inr b))"

definition Registry_Name :: "TaintBit \<Rightarrow> ClassRegistry \<Rightarrow> string" where
  "Registry_Name b r = (if MaxTaintBits \<le> unat b then '''' else cr_byBit r ! unat b)"

definition SetFromNames_step ::
    "ClassRegistry \<times> TaintSet \<times> registry_error option \<Rightarrow> string \<Rightarrow> ClassRegistry \<times> TaintSet \<times> registry_error option" where
  "SetFromNames_step acc n =
     (case acc of (r, ts, firstErr) \<Rightarrow>
        case Registry_Bit n r of
          (r1, Inl e) \<Rightarrow> (r1, ts, if firstErr = None then Some e else firstErr)
        | (r1, Inr b) \<Rightarrow> (r1, Taint_With b ts, firstErr))"

definition SetFromNames :: "string list \<Rightarrow> ClassRegistry \<Rightarrow> ClassRegistry \<times> TaintSet \<times> registry_error option" where
  "SetFromNames names r = foldl SetFromNames_step (r, 0, None) names"

definition Registry_Names :: "ClassRegistry \<Rightarrow> string list" where
  "Registry_Names r = map (\<lambda>i. cr_byBit r ! i) [0..<unat (cr_next r)]"

definition NamesOf :: "TaintSet \<Rightarrow> ClassRegistry \<Rightarrow> string list" where
  "NamesOf t r = filter (\<lambda>name. name \<noteq> '''') (map (\<lambda>b. cr_byBit r ! unat b) (Taint_Bits t))"

definition Registry_Size :: "ClassRegistry \<Rightarrow> nat" where
  "Registry_Size r = unat (cr_next r)"

subsection \<open>Taint sets\<close>

lemma Taint_Has_bit: "Taint_Has t b \<longleftrightarrow> unat b < 64 \<and> bit t (unat b)"
  using bit_imp_le_length [of t "unat b"] unfolding Taint_Has_def bit_iff_and_push_bit_not_eq_0 [symmetric] by auto

lemma Taint_Has_With: "unat b < 64 \<Longrightarrow> Taint_Has (Taint_With b t) c \<longleftrightarrow> c = b \<or> Taint_Has t c"
  by (auto simp: Taint_Has_bit Taint_With_def bit_simps word_unat_eq_iff)

lemma Taint_Has_Or [simp]: "Taint_Has (t OR u) b \<longleftrightarrow> Taint_Has t b \<or> Taint_Has u b"
  by (auto simp: Taint_Has_bit bit_simps)

lemma Taint_Has_0 [simp]: "\<not> Taint_Has 0 b"
  by (simp add: Taint_Has_bit)

lemma Taint_empty_iff: "Taint_IsEmpty t \<longleftrightarrow> (\<forall>b. \<not> Taint_Has t b)"
proof -
  have "bit t n \<Longrightarrow> Taint_Has t (of_nat n)" for n
    using bit_imp_le_length [of t n] by (simp add: Taint_Has_bit unsigned_of_nat take_bit_nat_eq_self)
  then show ?thesis by (auto simp: Taint_IsEmpty_def bit_eq_iff Taint_Has_bit dest: bit_imp_le_length)
qed

lemma small_bytes: "n < 64 \<Longrightarrow> unat (of_nat n :: u8) = n"
  by (simp add: unsigned_of_nat take_bit_nat_eq_self)

lemma Taint_Bits_set: "set (Taint_Bits t) = {b. Taint_Has t b}"
proof -
  have "b \<in> of_nat ` {0..<64}" if "unat b < 64" for b :: u8
    using that by (intro image_eqI [where x = "unat b"]) simp_all
  then show ?thesis by (auto simp: Taint_Bits_def Taint_Has_bit)
qed

lemma Taint_Bits_length: "length (Taint_Bits t) = card {i. i < 64 \<and> bit t i}"
proof -
  have "length (Taint_Bits t) = length (filter (\<lambda>n. Taint_Has t (of_nat n)) [0..<64])"
    by (simp add: Taint_Bits_def filter_map comp_def)
  also have "\<dots> = card {n. n < 64 \<and> Taint_Has t (of_nat n)}"
    by (simp add: distinct_length_filter Int_def conj_commute)
  also have "{n. n < 64 \<and> Taint_Has t (of_nat n)} = {i. i < 64 \<and> bit t i}"
    by (auto simp: Taint_Has_bit small_bytes)
  finally show ?thesis .
qed

text \<open>
  C22: the bit-parallel count of a taint set, with its wrap-around subtraction, masks and multiplication
  on 64-bit words, is the number of classes in the set: the number of set bits, and the length of the
  list of bits.
\<close>

theorem taint_count_correct:
  "Taint_Count t = int (card {i. i < 64 \<and> bit t i}) \<and> Taint_Count t = int (length (Taint_Bits t))"
proof -
  let ?m1 = "0x5555555555555555 :: u64" and ?m2 = "0x3333333333333333 :: u64"
  define y where "y = t - (drop_bit 1 t AND ?m1)"
  define z where "z = (y AND ?m2) + (drop_bit 2 y AND ?m2)"
  define w where "w = (z + drop_bit 4 z) AND 0x0f0f0f0f0f0f0f0f"
  have t: "unat t < 2 ^ 64" using unsigned_less [of t] by simp
  have d: "unat (drop_bit n x) = unat x div 2 ^ n" for n and x :: u64
    unfolding unat_drop_bit_eq by (rule drop_bit_eq_div)
  have "unat (drop_bit 1 t AND ?m1) = unat t div 2 AND 0x5555555555555555"
    by (simp only: unsigned_and_eq d) simp
  then have y: "unat y = unat t - (unat t div 2 AND 0x5555555555555555)"
    using pair_stage(1) [OF t] by (simp add: y_def unat_sub_if')
  note s = swar [OF t y refl]
  have "unat ((y AND ?m2) + (drop_bit 2 y AND ?m2)) =
      (unat y AND 0x3333333333333333) + (unat y div 4 AND 0x3333333333333333)"
    using s(2) by (simp only: unat_word_ariths unsigned_and_eq d) simp
  then have z: "unat z = (unat y AND 0x3333333333333333) + (unat y div 4 AND 0x3333333333333333)"
    by (simp only: z_def)
  have w: "unat w = (unat z + unat z div 16) AND 0x0f0f0f0f0f0f0f0f"
    using s(2) by (simp only: w_def unat_word_ariths unsigned_and_eq d z [symmetric]) simp
  have "unat (drop_bit 56 (w * 0x0101010101010101)) = pop 64 (unat t)"
    using s(1) by (simp only: unat_word_ariths d w z [symmetric]) simp
  moreover have "Taint_Count t = int (unat (drop_bit 56 (w * 0x0101010101010101)))"
    unfolding Taint_Count_def Let_def y_def z_def w_def by (simp only: uint_nat)
  ultimately have "Taint_Count t = int (pop 64 (unat t))" by simp
  then show ?thesis by (simp add: pop_card bit_unsigned_iff Taint_Bits_length)
qed

subsection \<open>The class registry\<close>

text \<open>
  The invariant of the registry: bits are handed out in order, and the two tables are inverse to each
  other below the next free bit.
\<close>

definition registry_ok :: "ClassRegistry \<Rightarrow> bool" where
  "registry_ok r \<longleftrightarrow> unat (cr_next r) \<le> 64 \<and> length (cr_byBit r) = 64 \<and>
     (\<forall>n b. go_get (cr_byName r) n = Some b \<longleftrightarrow> unat b < unat (cr_next r) \<and> cr_byBit r ! unat b = n)"

lemma registry_get:
  "registry_ok r \<Longrightarrow> go_get (cr_byName r) n = Some b \<longleftrightarrow> unat b < unat (cr_next r) \<and> cr_byBit r ! unat b = n"
  by (simp add: registry_ok_def)

lemma registry_new: "registry_ok NewClassRegistry"
  by (simp add: registry_ok_def NewClassRegistry_def)

lemma unat_byte_Suc: "unat b < 64 \<Longrightarrow> unat (b + 1) = Suc (unat b)" for b :: u8
  by (simp add: unat_word_ariths)

lemma registry_bit_fresh:
  assumes "registry_ok r" "go_get (cr_byName r) n = None" "unat (cr_next r) < 64"
  shows "registry_ok (r\<lparr>cr_byName := go_set n (cr_next r) (cr_byName r), cr_byBit := (cr_byBit r)[unat (cr_next r) := n],
    cr_next := cr_next r + 1\<rparr>)"
proof -
  have none: "cr_byBit r ! unat b \<noteq> n" if "unat b < unat (cr_next r)" for b :: u8
    using registry_get [OF assms(1), of n b] assms(2) that by simp
  have "unat b = unat (cr_next r) \<longleftrightarrow> b = cr_next r" for b :: u8 by (simp add: word_unat_eq_iff)
  then show ?thesis
    using assms none registry_get [OF assms(1)]
    by (auto simp: registry_ok_def unat_byte_Suc less_Suc_eq nth_list_update)
qed

lemma Registry_Bit_ok: "registry_ok r \<Longrightarrow> registry_ok (fst (Registry_Bit n r))"
  by (auto simp: Registry_Bit_def Let_def registry_bit_fresh split: option.split)

interpretation classes: machine NewClassRegistry "\<lambda>r n. fst (Registry_Bit n r)" registry_ok
  by unfold_locales (simp_all add: registry_new Registry_Bit_ok)

text \<open>What a name that got a bit keeps, whatever is registered later.\<close>

lemma Registry_Bit_keeps:
  assumes "registry_ok r" "go_get (cr_byName r) n = Some b"
  shows "go_get (cr_byName (fst (Registry_Bit m r))) n = Some b"
  using assms by (auto simp: Registry_Bit_def Let_def split: option.split)

lemma Registry_Bit_result:
  assumes "registry_ok r"
  shows "(case snd (Registry_Bit n r) of
      Inr b \<Rightarrow> go_get (cr_byName (fst (Registry_Bit n r))) n = Some b \<and> unat b < 64
    | Inl e \<Rightarrow> fst (Registry_Bit n r) = r \<and> unat (cr_next r) = 64 \<and> go_get (cr_byName r) n = None)"
proof (cases "go_get (cr_byName r) n")
  case None
  then show ?thesis using assms by (auto simp: Registry_Bit_def Let_def registry_ok_def)
next
  case (Some b)
  then have "unat b < 64" using assms registry_get [OF assms, of n b] by (simp add: registry_ok_def)
  with Some show ?thesis by (simp add: Registry_Bit_def)
qed

definition registered :: "ClassRegistry \<Rightarrow> string \<Rightarrow> bool" where
  "registered r n \<longleftrightarrow> go_get (cr_byName r) n \<noteq> None"

lemma SetFromNames_inv:
  assumes "registry_ok r" "SetFromNames names r = (r', ts, err)"
  shows "registry_ok r' \<and> (\<forall>b. Taint_Has ts b \<longleftrightarrow> (\<exists>n\<in>set names. go_get (cr_byName r') n = Some b)) \<and>
    (err = None \<longleftrightarrow> (\<forall>n\<in>set names. registered r' n)) \<and> (err \<noteq> None \<longrightarrow> unat (cr_next r') = 64)"
  using assms(2)
proof (induction names arbitrary: r' ts err rule: rev_induct)
  case Nil
  then show ?case using assms(1) by (auto simp: SetFromNames_def)
next
  case (snoc n names)
  obtain r1 ts1 err1 where p: "SetFromNames names r = (r1, ts1, err1)" by (metis prod_cases3)
  have step: "(r', ts, err) = SetFromNames_step (r1, ts1, err1) n"
    using snoc.prems p by (simp add: SetFromNames_def)
  note inv = snoc.IH [OF p]
  have ok: "registry_ok r1" using inv by simp
  show ?case
  proof (cases "snd (Registry_Bit n r1)")
    case (Inl e)
    then have "r' = r1" "ts = ts1" "err \<noteq> None" "unat (cr_next r1) = 64" "\<not> registered r1 n"
      using step Registry_Bit_result [OF ok, of n]
      by (auto simp: SetFromNames_step_def registered_def split: prod.splits if_splits)
    with inv show ?thesis by (auto simp: registered_def)
  next
    case (Inr b)
    have r': "r' = fst (Registry_Bit n r1)" "ts = Taint_With b ts1" "err = err1"
      using step Inr by (auto simp: SetFromNames_step_def split: prod.splits)
    have b: "go_get (cr_byName r') n = Some b" "unat b < 64" using Registry_Bit_result [OF ok, of n] Inr r'(1) by simp_all
    have ok': "registry_ok r'" using ok r'(1) by (simp add: Registry_Bit_ok)
    have get: "go_get (cr_byName r') m = go_get (cr_byName r1) m" if "m \<noteq> n" for m
      using that r'(1) by (auto simp: Registry_Bit_def Let_def split: option.split)
    have full: "r' = r1" if "unat (cr_next r1) = 64"
      using that r'(1) Inr by (auto simp: Registry_Bit_def Let_def split: option.splits if_splits)
    have kept: "go_get (cr_byName r') m = Some c" if "go_get (cr_byName r1) m = Some c" for m c
      using Registry_Bit_keeps [OF ok that] r'(1) by simp
    have "Taint_Has ts c \<longleftrightarrow> (\<exists>m\<in>set (names @ [n]). go_get (cr_byName r') m = Some c)" for c
      using inv get kept b by (auto simp: r'(2) Taint_Has_With [OF b(2)]) (metis option.inject)+
    moreover have "err = None \<longleftrightarrow> (\<forall>m\<in>set (names @ [n]). registered r' m)"
    proof (cases "err1 = None")
      case True
      then show ?thesis using inv kept b(1) r'(3) by (auto simp: registered_def)
    next
      case False
      then show ?thesis using inv full r'(3) by auto
    qed
    ultimately show ?thesis using inv full ok' r'(3) by blast
  qed
qed

text \<open>
  C23: class names survive their encoding as bits. After any registrations, turning names into a set and
  reading the set back gives the non-empty ones that have a bit; all of them have one unless an error is
  returned, and the registry stays one-to-one.
\<close>

theorem names_roundtrip:
  assumes "r = foldl (\<lambda>r n. fst (Registry_Bit n r)) NewClassRegistry ns"
    and "SetFromNames names r = (r', ts, err)"
  shows "set (NamesOf ts r') = {n \<in> set names. n \<noteq> '''' \<and> registered r' n} \<and>
    (err = None \<longleftrightarrow> (\<forall>n\<in>set names. registered r' n)) \<and> registry_ok r'"
proof -
  have "registry_ok r" unfolding assms(1) by (rule classes.run_inv)
  note inv = SetFromNames_inv [OF this assms(2)]
  have ok: "registry_ok r'" using inv by simp
  have "set (NamesOf ts r') = {cr_byBit r' ! unat b |b. Taint_Has ts b \<and> cr_byBit r' ! unat b \<noteq> ''''}"
    by (auto simp: NamesOf_def Taint_Bits_set)
  also have "\<dots> = {n \<in> set names. n \<noteq> '''' \<and> registered r' n}"
    using inv registry_get [OF ok] by (auto simp: registered_def)
  finally show ?thesis using inv by simp
qed

theorem names_roundtrip_witness:
  "set (NamesOf (fst (snd (SetFromNames [''pii'', ''keys''] NewClassRegistry)))
     (fst (SetFromNames [''pii'', ''keys''] NewClassRegistry))) = {''pii'', ''keys''}"
proof -
  let ?p = "SetFromNames [''pii'', ''keys''] NewClassRegistry"
  have r: "NewClassRegistry = foldl (\<lambda>r n. fst (Registry_Bit n r)) NewClassRegistry []" by simp
  have p: "?p = (fst ?p, fst (snd ?p), snd (snd ?p))" by simp
  have "registered (fst ?p) ''pii''" "registered (fst ?p) ''keys''" by code_simp+
  with names_roundtrip [OF r p] show ?thesis by auto
qed

subsection \<open>Chains and the minter\<close>

lemma Chain_Contains_iff: "Chain_Contains i c \<longleftrightarrow> i \<in> set c"
  by (induction c) auto

lemma Chain_Extend_ends:
  "Chain_Innermost (Chain_Extend i c) = i"
  "c \<noteq> [] \<Longrightarrow> Chain_Outermost (Chain_Extend i c) = Chain_Outermost c"
  by (simp_all add: Chain_Innermost_def Chain_Outermost_def Chain_Extend_def nth_append)

lemma byte_step: "push_bit 8 (drop_bit 8 x) OR ucast (ucast x :: u8) = x" for x :: "'a::len word"
  by (rule bit_word_eqI) (auto simp: bit_simps)

lemma put_le_rev: "k \<le> m \<Longrightarrow> LENGTH('a) \<le> 8 * m \<Longrightarrow>
    foldr (\<lambda>b w. push_bit 8 w OR ucast b) (map (\<lambda>i. ucast (drop_bit (8 * i) w) :: u8) [k..<m]) 0 = drop_bit (8 * k) w"
  for w :: "'a::len word"
proof (induction "m - k" arbitrary: k)
  case 0
  then have "k = m" by simp
  then show ?case using 0 by (intro bit_word_eqI) (auto simp: bit_simps dest: bit_imp_le_length)
next
  case (Suc n)
  then have k: "k < m" "[k..<m] = k # [Suc k..<m]" by (simp_all add: upt_conv_Cons)
  have "push_bit 8 (drop_bit (8 + 8 * k) w) OR ucast (ucast (drop_bit (8 * k) w) :: u8) = drop_bit (8 * k) w"
    using byte_step [of "drop_bit (8 * k) w"] by (simp only: drop_bit_drop_bit)
  then show ?case using Suc.hyps(1) [of "Suc k"] Suc.hyps(2) k(1) Suc.prems(2) by (simp only: k(2)) simp
qed

lemma length_put_u64 [simp]: "length (put_u64 w) = 8"
  by (simp add: put_u64_def)

lemma get_put_u64 [simp]: "get_u64 (put_u64 w @ bs) = w"
  using put_le_rev [of 0 8 w] by (simp add: get_u64_def put_u64_def)

lemma length_Marshal: "length (Chain_Marshal c) = 8 * length c"
  by (induction c) (simp_all add: Chain_Marshal_def)

lemma drop_Marshal: "i < length c \<Longrightarrow> drop (i * 8) (Chain_Marshal c) = Chain_Marshal (drop i c)"
proof (induction c arbitrary: i)
  case (Cons x c)
  then show ?case by (cases i) (simp_all add: Chain_Marshal_def)
qed simp

text \<open>A chain survives its encoding, and bytes that are no encoding are refused.\<close>

lemma marshal_roundtrip: "UnmarshalChain (Chain_Marshal c) = Inr c"
proof (cases "c = []")
  case False
  have "get_u64 (drop (i * 8) (Chain_Marshal c)) = c ! i" if "i < length c" for i
    using that Cons_nth_drop_Suc [OF that, symmetric] by (simp add: drop_Marshal) (simp add: Chain_Marshal_def)
  then have "map (\<lambda>i. get_u64 (drop (i * 8) (Chain_Marshal c))) [0..<length c] = c"
    by (intro nth_equalityI) simp_all
  moreover have "Chain_Marshal c \<noteq> []" using False length_Marshal [of c] by auto
  ultimately show ?thesis by (simp add: UnmarshalChain_def length_Marshal)
qed (simp add: UnmarshalChain_def Chain_Marshal_def)

text \<open>Identifiers do not repeat before the counter has gone around.\<close>

lemma minted: "snd (Minter_New (((\<lambda>c. fst (Minter_New c)) ^^ k) c)) = c + 1 + of_nat k"
  by (induction k arbitrary: c) (simp_all add: Minter_New_def funpow_swap1)

lemma minted_distinct:
  assumes "i < 2 ^ 64" "j < 2 ^ 64" "i \<noteq> j"
  shows "snd (Minter_New (((\<lambda>c. fst (Minter_New c)) ^^ i) c)) \<noteq> snd (Minter_New (((\<lambda>c. fst (Minter_New c)) ^^ j) c))"
  using assms by (simp add: minted word_of_nat_eq_iff take_bit_nat_eq_self)

subsection \<open>The store\<close>

lemma TaintOfChain_Has: "Taint_Has (TaintOfChain c s) b \<longleftrightarrow> (\<exists>i\<in>set c. Taint_Has (Taint_of i s) b)"
proof -
  have "Taint_Has (foldl (\<lambda>out i. out OR go_get_or 0 (ls_taints s) i) t c) b \<longleftrightarrow>
      Taint_Has t b \<or> (\<exists>i\<in>set c. Taint_Has (Taint_of i s) b)" for t
    by (induction c arbitrary: t) (auto simp: Taint_of_def)
  then show ?thesis by (simp add: TaintOfChain_def)
qed

lemma AddTaint_result:
  assumes "i \<noteq> 0"
  shows "Taint_Has (Taint_of j (fst (AddTaint i m s))) b \<longleftrightarrow> Taint_Has (Taint_of j s) b \<or> j = i \<and> Taint_Has m b"
    and "snd (AddTaint i m s) = Taint_of i (fst (AddTaint i m s))"
  using assms by (auto simp: AddTaint_def Taint_of_def Let_def Taint_IsEmpty_def)

lemma fold_go_del: "go_get (fold go_del ks m) k = (if k \<in> set ks then None else go_get m k)"
  by (induction ks arbitrary: m) auto

text \<open>
  A sweep takes the taint of exactly the lineages whose origin is too old. Taint of a lineage that no
  origin was recorded for is never swept.
\<close>

lemma Sweep_Taint:
  assumes "go_wf (ls_origins s)"
  shows "Taint_of i (fst (SweepOlderThan cutoff s)) =
    (case Origin_Get i s of Some og \<Rightarrow> if or_CreatedAt og < cutoff then 0 else Taint_of i s | None \<Rightarrow> Taint_of i s)"
proof -
  have "i \<in> set (map fst (filter (\<lambda>(i, og). or_CreatedAt og < cutoff) (ls_origins s))) \<longleftrightarrow>
      (\<exists>og. Origin_Get i s = Some og \<and> or_CreatedAt og < cutoff)"
    using assms by (force simp: Origin_Get_def image_iff)
  then show ?thesis by (simp add: SweepOlderThan_def Let_def Taint_of_def go_get_or_def fold_go_del split: option.split)
qed

lemma orphan_taint_stays: "go_wf (ls_origins s) \<Longrightarrow> Origin_Get i s = None \<Longrightarrow> Taint_of i (fst (SweepOlderThan c s)) = Taint_of i s"
  by (simp add: Sweep_Taint)

text \<open>The snapshot lists the tainted lineages once each in ascending order, whatever the order of the map.\<close>

lemma set_sink [simp]: "set (sink x ys) = insert x (set ys)"
  by (induction ys) auto

lemma sorted_sink: "sorted_wrt (\<lambda>a b. fst b \<le> fst a) ys \<Longrightarrow> sorted_wrt (\<lambda>a b. fst b \<le> fst a) (sink x ys)"
  by (induction ys) auto

lemma mset_sink [simp]: "mset (sink x ys) = add_mset x (mset ys)"
  by (induction ys) auto

lemma sortTaintEntries_correct: "sorted (map fst (sortTaintEntries es)) \<and> mset (sortTaintEntries es) = mset es"
proof -
  have "sorted_wrt (\<lambda>a b. fst b \<le> fst a) (foldl (\<lambda>p x. sink x p) ys es) \<and>
      mset (foldl (\<lambda>p x. sink x p) ys es) = mset ys + mset es"
    if "sorted_wrt (\<lambda>a b. fst b \<le> fst a) ys" for ys
    using that by (induction es arbitrary: ys) (simp_all add: sorted_sink)
  from this [of "[]"] show ?thesis by (simp add: sortTaintEntries_def sorted_wrt_map sorted_wrt_rev)
qed

lemma TaintsSnapshot_order_free:
  assumes "go_wf (ls_taints s)" "mset (ls_taints s') = mset (ls_taints s)"
  shows "TaintsSnapshot s' = TaintsSnapshot s"
proof -
  let ?f = "\<lambda>s. filter (\<lambda>e. \<not> Taint_IsEmpty (snd e)) (ls_taints s)"
  have m: "mset (TaintsSnapshot s') = mset (TaintsSnapshot s)" "mset (TaintsSnapshot s) = mset (?f s)"
    using sortTaintEntries_correct [of "?f s'"] sortTaintEntries_correct [of "?f s"] assms(2)
    by (simp_all add: TaintsSnapshot_def)
  have f: "distinct (map fst (?f s))" by (rule go_wf_filter [OF assms(1)])
  have d: "distinct (map fst (TaintsSnapshot t))" if "mset (TaintsSnapshot t) = mset (?f s)" for t
  proof -
    have "mset (map fst (TaintsSnapshot t)) = mset (map fst (?f s))" by (simp only: mset_map that)
    with f show ?thesis using mset_eq_imp_distinct_iff by blast
  qed
  have sets: "set (TaintsSnapshot s') = set (TaintsSnapshot s)" using m(1) by (rule mset_eq_setD)
  have i: "inj_on fst (set (TaintsSnapshot s') \<union> set (TaintsSnapshot s))"
    using d [OF m(2)] by (simp add: sets distinct_map)
  have sorted: "sorted (map fst (TaintsSnapshot t))" for t
    using sortTaintEntries_correct by (simp add: TaintsSnapshot_def)
  show ?thesis
    by (rule map_sorted_distinct_set_unique [OF i sorted _ sorted _ sets]) (simp_all only: d m)
qed

end
