(* ===== verification/Provenance.thy ===== *)
theory Provenance
  imports Lineage EventModel GoNet
begin

text \<open>
  Source attribution, \<^verbatim>\<open>pkg/source\<close>: the bounded set of anchors that contributed to a process
  (\<^verbatim>\<open>causalset.go\<close>), the provenance of written files (\<^verbatim>\<open>filetaint.go\<close>), and the anchors minted from identity
  events (\<^verbatim>\<open>anchor.go\<close>, \<^verbatim>\<open>mint.go\<close>). The SQL store behind the minter is a parameter: what the lookup of a
  recent parent answers, and whether an anchor could be written.
\<close>

subsection \<open>Causal sets\<close>

text \<open>The identifiers in the order of their insertion.\<close>

type_synonym CausalSet = "LineageID list"

abbreviation CausalSetCap :: nat where "CausalSetCap \<equiv> 16"

definition CausalSet_Contains :: "LineageID \<Rightarrow> CausalSet \<Rightarrow> bool" where
  "CausalSet_Contains i c \<longleftrightarrow> list_ex (\<lambda>e. e = i) c"

definition CausalSet_Add :: "LineageID \<Rightarrow> CausalSet \<Rightarrow> CausalSet \<times> bool" where
  "CausalSet_Add i c =
     (if i = 0 then (c, False)
      else if CausalSet_Contains i c then (c, False)
      else ((if CausalSetCap \<le> length c then drop 1 c else c) @ [i], True))"

fun CausalSet_Merge :: "CausalSet \<Rightarrow> CausalSet \<Rightarrow> CausalSet \<times> bool" where
  "CausalSet_Merge [] c = (c, False)"
| "CausalSet_Merge (i # other) c =
     (case CausalSet_Add i c of (c1, added) \<Rightarrow>
      case CausalSet_Merge other c1 of (c2, changed) \<Rightarrow> (c2, added \<or> changed))"

definition NewCausalSet :: "LineageID list \<Rightarrow> CausalSet" where
  "NewCausalSet ids = foldl (\<lambda>c i. fst (CausalSet_Add i c)) [] ids"

definition SortedSlice :: "CausalSet \<Rightarrow> LineageID list" where
  "SortedSlice c = sort c"

text \<open>\<^verbatim>\<open>hash/fnv\<close>, the 64-bit FNV-1a hash.\<close>

definition fnv64a :: "u8 list \<Rightarrow> u64" where
  "fnv64a bs = foldl (\<lambda>h b. (h XOR ucast b) * 1099511628211) 14695981039346656037 bs"

definition CausalSet_Hash :: "CausalSet \<Rightarrow> u64" where
  "CausalSet_Hash c = (if c = [] then 0 else fnv64a (concat (map put_u64 (SortedSlice c))))"

definition CausalSet_Equal :: "CausalSet \<Rightarrow> CausalSet \<Rightarrow> bool" where
  "CausalSet_Equal c other \<longleftrightarrow> length c = length other \<and> list_all2 (=) (SortedSlice c) (SortedSlice other)"

definition Ambiguous :: "CausalSet \<Rightarrow> bool" where
  "Ambiguous c \<longleftrightarrow> 2 \<le> length c"

subsection \<open>Provenance of files\<close>

record FileProvenance =
  fp_LastWriterPrimary :: LineageID
  fp_Set :: CausalSet
  fp_SetHash :: u64
  fp_RecordedAt :: gotime

record FileTaint =
  ft_paths :: "(string, FileProvenance) gomap"
  ft_order :: "string list"
  ft_cap :: nat
  ft_ttl :: duration

definition NewFileTaint :: "int \<Rightarrow> duration \<Rightarrow> FileTaint" where
  "NewFileTaint cap ttl =
     \<lparr>ft_paths = [], ft_order = [], ft_cap = (if cap \<le> 0 then 4096 else nat cap),
      ft_ttl = (if ttl \<le> 0 then 24 * hour else ttl)\<rparr>"

fun evict_head :: "nat \<Rightarrow> string list \<Rightarrow> (string, FileProvenance) gomap \<Rightarrow> string list \<times> (string, FileProvenance) gomap" where
  "evict_head cap [] paths = ([], paths)"
| "evict_head cap (h # order) paths =
     (if cap \<le> length paths then evict_head cap order (go_del h paths) else (h # order, paths))"

definition RecordWrite :: "gotime \<Rightarrow> string \<Rightarrow> LineageID \<Rightarrow> CausalSet \<Rightarrow> gotime \<Rightarrow> FileTaint \<Rightarrow> FileTaint" where
  "RecordWrite now path primary cset t0 f =
     (if path = '''' then f
      else if primary = 0 \<and> cset = [] then f
      else
        let t = (if t0 = 0 then now else t0);
            r = \<lparr>fp_LastWriterPrimary = primary, fp_Set = NewCausalSet cset, fp_SetHash = CausalSet_Hash cset,
                 fp_RecordedAt = t\<rparr>
        in if go_get (ft_paths f) path \<noteq> None then f\<lparr>ft_paths := go_set path r (ft_paths f)\<rparr>
           else case evict_head (ft_cap f) (ft_order f) (ft_paths f) of (order, paths) \<Rightarrow>
                  f\<lparr>ft_paths := go_set path r paths, ft_order := order @ [path]\<rparr>)"

definition File_Lookup :: "gotime \<Rightarrow> string \<Rightarrow> FileTaint \<Rightarrow> FileProvenance option" where
  "File_Lookup now path f =
     (if path = '''' then None
      else case go_get (ft_paths f) path of
             None \<Rightarrow> None
           | Some r \<Rightarrow> if ft_ttl f < time_sub now (fp_RecordedAt r) then None else Some r)"

definition FileTaint_Size :: "FileTaint \<Rightarrow> nat" where
  "FileTaint_Size f = length (ft_paths f)"

fun sweep_paths ::
    "gotime \<Rightarrow> string list \<Rightarrow> (string, FileProvenance) gomap \<Rightarrow> string list \<times> (string, FileProvenance) gomap \<times> nat" where
  "sweep_paths cutoff [] paths = ([], paths, 0)"
| "sweep_paths cutoff (p # order) paths =
     (case go_get paths p of
        None \<Rightarrow> sweep_paths cutoff order paths
      | Some r \<Rightarrow>
          if fp_RecordedAt r < cutoff
          then (case sweep_paths cutoff order (go_del p paths) of (kept, ps, n) \<Rightarrow> (kept, ps, Suc n))
          else (case sweep_paths cutoff order paths of (kept, ps, n) \<Rightarrow> (p # kept, ps, n)))"

definition File_Sweep :: "gotime \<Rightarrow> FileTaint \<Rightarrow> FileTaint \<times> nat" where
  "File_Sweep cutoff f =
     (case sweep_paths cutoff (ft_order f) (ft_paths f) of (kept, paths, removed) \<Rightarrow>
        (f\<lparr>ft_paths := paths, ft_order := kept\<rparr>, removed))"

subsection \<open>Anchors\<close>

datatype AnchorKind = KindUnknown | KindSSH | KindPAM | KindSudo | KindCron | KindSystemd

primrec AnchorKind_String :: "AnchorKind \<Rightarrow> string" where
  "AnchorKind_String KindUnknown = ''unknown''"
| "AnchorKind_String KindSSH = ''ssh''"
| "AnchorKind_String KindPAM = ''pam''"
| "AnchorKind_String KindSudo = ''sudo''"
| "AnchorKind_String KindCron = ''cron''"
| "AnchorKind_String KindSystemd = ''systemd''"

definition KindFromRootType :: "RootType \<Rightarrow> AnchorKind" where
  "KindFromRootType r =
     (case r of RootSSH \<Rightarrow> KindSSH | RootPAM \<Rightarrow> KindPAM | RootSudo \<Rightarrow> KindSudo | RootCron \<Rightarrow> KindCron
      | RootSystemd \<Rightarrow> KindSystemd | _ \<Rightarrow> KindUnknown)"

definition rootTypeForKind :: "AnchorKind \<Rightarrow> RootType" where
  "rootTypeForKind k =
     (case k of KindSSH \<Rightarrow> RootSSH | KindPAM \<Rightarrow> RootPAM | KindSudo \<Rightarrow> RootSudo | KindCron \<Rightarrow> RootCron
      | KindSystemd \<Rightarrow> RootSystemd | KindUnknown \<Rightarrow> RootUnknown)"

record Anchor =
  an_ID :: LineageID
  an_Kind :: AnchorKind
  an_ParentAnchorID :: LineageID
  an_CreatedAt :: gotime
  an_Host :: string
  an_Actor :: string
  an_UID :: u32
  an_LoginUID :: u32
  an_SourceIP :: string
  an_SourcePort :: u16
  an_SSHKeyHash :: string
  an_Unit :: string
  an_Detail :: string

definition FromOrigin :: "gotime \<Rightarrow> Origin \<Rightarrow> LineageID \<Rightarrow> Anchor" where
  "FromOrigin now og parent =
     (let k = KindFromRootType (or_Type og) in
      \<lparr>an_ID = or_ID og, an_Kind = k, an_ParentAnchorID = parent,
       an_CreatedAt = (if or_CreatedAt og = 0 then now else or_CreatedAt og), an_Host = '''', an_Actor = or_UserName og,
       an_UID = or_UID og, an_LoginUID = or_LoginUID og, an_SourceIP = or_SourceIP og,
       an_SourcePort = or_SourcePort og, an_SSHKeyHash = or_SSHKeyHash og,
       an_Unit = (if k = KindCron \<and> or_CronEntry og \<noteq> '''' then or_CronEntry og else or_SystemdUnit og),
       an_Detail = ''''\<rparr>)"

definition kindFromEventTags :: "(string, string) gomap \<Rightarrow> AnchorKind option" where
  "kindFromEventTags tags =
     (let t = go_get_or '''' tags; service = t ''service'' in
      if tags = [] then None
      else if service = ''sshd'' then (if t ''outcome'' = ''success'' then Some KindSSH else None)
      else if service = ''pam'' then (if t ''pam_type'' = ''session_open'' then Some KindPAM else None)
      else if service = ''sudo'' \<or> service = ''su'' then (if t ''target_user'' \<noteq> '''' then Some KindSudo else None)
      else if service = ''cron'' then Some KindCron
      else if service = ''systemd'' then (if t ''unit_action'' = ''start'' then Some KindSystemd else None)
      else None)"

text \<open>The minter's collaborators: the counter, the origins, and the anchors written if there is a store.\<close>

record AnchorMinter =
  am_store :: "Anchor list option"
  am_ids :: u64
  am_origins :: LineageStore
  am_host :: string

definition mint_origin :: "AnchorKind \<Rightarrow> LineageID \<Rightarrow> string \<Rightarrow> Event \<Rightarrow> Origin" where
  "mint_origin kind i actor ev =
     \<lparr>or_ID = i, or_Type = rootTypeForKind kind, or_CreatedAt = ev_Time ev, or_UserName = actor,
      or_UID = ev_UID ev, or_LoginUID = ev_UID ev, or_SourceIP = tag ev ''src_ip'',
      or_SourcePort = (if tag ev ''src_port'' = '''' then 0
        else case ParseUint 16 (tag ev ''src_port'') of None \<Rightarrow> 0 | Some n \<Rightarrow> of_nat n),
      or_SSHKeyHash = tag ev ''key_fp'', or_PAMSessionID = 0, or_CronEntry = tag ev ''cron_entry'',
      or_SystemdUnit = tag ev ''unit'', or_ContainerID = '''', or_PodID = '''', or_HTTPRequestID = '''',
      or_Method = '''', or_Path = '''', or_EscalatedFromUID = 0,
      or_EscalatedFromName = (if kind = KindSudo then tag ev ''user'' else '''')\<rparr>"

text \<open>
  \<open>recent\<close> is the answer of the query for the most recent anchor of a user that is no escalation, 0 for
  none or an error; \<open>written\<close> says whether an insert succeeded.
\<close>

definition findRecentParent :: "(string \<Rightarrow> LineageID) \<Rightarrow> string \<Rightarrow> AnchorMinter \<Rightarrow> LineageID" where
  "findRecentParent recent actor m = (if am_store m = None \<or> actor = '''' then 0 else recent actor)"

definition mint_parent :: "(string \<Rightarrow> LineageID) \<Rightarrow> AnchorKind \<Rightarrow> Event \<Rightarrow> AnchorMinter \<Rightarrow> LineageID \<times> string" where
  "mint_parent recent kind ev m =
     (let actor = tag ev ''user'' in
      if kind = KindSudo
      then (findRecentParent recent (if actor = '''' then tag ev ''from_user'' else actor) m,
            if tag ev ''target_user'' \<noteq> '''' then tag ev ''target_user'' else actor)
      else (0, actor))"

datatype mint_error = AnchorIDZero | PersistFailed

definition Anchor_Put :: "(Anchor \<Rightarrow> bool) \<Rightarrow> gotime \<Rightarrow> Anchor \<Rightarrow> Anchor list \<Rightarrow> Anchor list \<times> mint_error option" where
  "Anchor_Put written now a0 as =
     (if an_ID a0 = 0 then (as, Some AnchorIDZero)
      else let a = (if an_CreatedAt a0 = 0 then a0\<lparr>an_CreatedAt := now\<rparr> else a0)
           in if written a then (filter (\<lambda>b. an_ID b \<noteq> an_ID a) as @ [a], None) else (as, Some PersistFailed))"

definition MintFromEvent ::
    "(string \<Rightarrow> LineageID) \<Rightarrow> (Anchor \<Rightarrow> bool) \<Rightarrow> gotime \<Rightarrow> Event \<Rightarrow> AnchorMinter \<Rightarrow>
     AnchorMinter \<times> LineageID \<times> mint_error option" where
  "MintFromEvent recent written now ev m =
     (case kindFromEventTags (ev_Tags ev) of
        None \<Rightarrow> (m, 0, None)
      | Some kind \<Rightarrow>
          case mint_parent recent kind ev m of (parent, actor) \<Rightarrow>
          case Minter_New (am_ids m) of (ids, i) \<Rightarrow>
          let og = mint_origin kind i actor ev;
              m1 = m\<lparr>am_ids := ids, am_origins := Origin_Put now og (am_origins m)\<rparr>
          in case am_store m of
               None \<Rightarrow> (m1, i, None)
             | Some as \<Rightarrow>
                 case Anchor_Put written now ((FromOrigin now og parent)\<lparr>an_Host := am_host m\<rparr>) as of
                   (as1, e) \<Rightarrow> (m1\<lparr>am_store := Some as1\<rparr>, i, e))"

subsection \<open>Causal sets: bounded, without duplicates, newest last\<close>

definition cs_ok :: "CausalSet \<Rightarrow> bool" where
  "cs_ok c \<longleftrightarrow> distinct c \<and> 0 \<notin> set c \<and> length c \<le> CausalSetCap"

lemma CausalSet_Contains_iff [simp]: "CausalSet_Contains i c \<longleftrightarrow> i \<in> set c"
  by (auto simp: CausalSet_Contains_def list_ex_iff)

lemma cs_ok_Nil [simp]: "cs_ok []"
  by (simp add: cs_ok_def)

lemma CausalSet_Add_ok: "cs_ok c \<Longrightarrow> cs_ok (fst (CausalSet_Add i c))"
  by (auto simp: cs_ok_def CausalSet_Add_def dest: in_set_dropD)

lemma CausalSet_Add_in: "i \<noteq> 0 \<Longrightarrow> i \<in> set (fst (CausalSet_Add i c))"
  by (simp add: CausalSet_Add_def)

lemma CausalSet_Add_subset: "set (fst (CausalSet_Add i c)) \<subseteq> insert i (set c)"
  by (auto simp: CausalSet_Add_def dest: in_set_dropD)

lemma CausalSet_Merge_fold: "fst (CausalSet_Merge other c) = foldl (\<lambda>c i. fst (CausalSet_Add i c)) c other"
  by (induction other arbitrary: c) (simp_all add: case_prod_beta)

lemma CausalSet_Merge_ok: "cs_ok c \<Longrightarrow> cs_ok (fst (CausalSet_Merge other c))"
  unfolding CausalSet_Merge_fold by (induction other arbitrary: c) (simp_all add: CausalSet_Add_ok)

lemma CausalSet_Merge_changed: "snd (CausalSet_Merge other c) \<Longrightarrow> \<exists>i\<in>set other. i \<noteq> 0"
  by (induction other arbitrary: c) (auto simp: case_prod_beta CausalSet_Add_def split: if_splits)

text \<open>Fresh identifiers push out the oldest ones, and nothing else.\<close>

lemma add_fresh:
  "i \<noteq> 0 \<Longrightarrow> i \<notin> set c \<Longrightarrow> length c \<le> CausalSetCap \<Longrightarrow>
    fst (CausalSet_Add i c) = drop (length c + 1 - CausalSetCap) (c @ [i])"
  by (auto simp: CausalSet_Add_def)

lemma merge_fresh:
  assumes "cs_ok c" "distinct ids" "0 \<notin> set ids" "set ids \<inter> set c = {}"
  shows "fst (CausalSet_Merge ids c) = drop (length c + length ids - CausalSetCap) (c @ ids)"
  using assms
proof (induction ids arbitrary: c)
  case (Cons i ids)
  let ?c = "fst (CausalSet_Add i c)"
  have c: "?c = drop (length c + 1 - CausalSetCap) (c @ [i])"
    using Cons.prems by (intro add_fresh) (auto simp: cs_ok_def)
  have "set ids \<inter> set ?c = {}" using Cons.prems CausalSet_Add_subset [of i c] by auto
  then have "fst (CausalSet_Merge ids ?c) = drop (length ?c + length ids - CausalSetCap) (?c @ ids)"
    using Cons CausalSet_Add_ok by auto
  moreover have "length c \<le> CausalSetCap" using Cons.prems by (simp add: cs_ok_def)
  ultimately show ?case by (cases "length c = CausalSetCap") (auto simp: case_prod_beta c)
qed (simp add: cs_ok_def)

lemma NewCausalSet_Merge: "NewCausalSet ids = fst (CausalSet_Merge ids [])"
  by (simp add: NewCausalSet_def CausalSet_Merge_fold)

lemma NewCausalSet_ok: "cs_ok (NewCausalSet ids)"
  by (simp add: NewCausalSet_Merge CausalSet_Merge_ok)

lemma NewCausalSet_copy: "cs_ok c \<Longrightarrow> NewCausalSet c = c"
  using merge_fresh [of "[]" c] by (simp add: NewCausalSet_Merge cs_ok_def)

text \<open>The sets compare and hash by their members.\<close>

lemma sort_members: "cs_ok a \<Longrightarrow> cs_ok b \<Longrightarrow> sort a = sort b \<longleftrightarrow> set a = set b"
  unfolding cs_ok_def by (metis distinct_sort set_sort sorted_distinct_set_unique sorted_sort)

lemma CausalSet_Equal_iff: "cs_ok a \<Longrightarrow> cs_ok b \<Longrightarrow> CausalSet_Equal a b \<longleftrightarrow> set a = set b"
  by (simp add: CausalSet_Equal_def SortedSlice_def list.rel_eq sort_members)
    (metis cs_ok_def distinct_card)

lemma CausalSet_Hash_members:
  assumes "cs_ok a" "cs_ok b" "set a = set b"
  shows "CausalSet_Hash a = CausalSet_Hash b"
proof -
  have "sort a = sort b" "a = [] \<longleftrightarrow> b = []" using assms by (auto simp: sort_members)
  then show ?thesis by (simp add: CausalSet_Hash_def SortedSlice_def)
qed

subsection \<open>The provenance of files\<close>

definition ft_ok :: "FileTaint \<Rightarrow> bool" where
  "ft_ok f \<longleftrightarrow> 0 < ft_cap f \<and> go_wf (ft_paths f) \<and> distinct (ft_order f) \<and>
     set (ft_order f) = fst ` set (ft_paths f) \<and> length (ft_paths f) \<le> ft_cap f"

lemma length_keys: "go_wf m \<Longrightarrow> length m = card (fst ` set m)"
  using distinct_card [of "map fst m"] by simp

lemma evict_head_ok:
  assumes "go_wf paths" "distinct order" "set order = fst ` set paths" "length paths \<le> cap" "0 < cap"
    "evict_head cap order paths = (order', paths')"
  shows "go_wf paths' \<and> distinct order' \<and> set order' = fst ` set paths' \<and> length paths' < cap \<and>
    (\<forall>p. go_get paths' p = (if p \<in> set order' then go_get paths p else None)) \<and>
    order' = (if length paths < cap then order else tl order)"
proof -
  have len: "length paths = length order" using assms(1-3) by (metis length_keys distinct_card)
  show ?thesis
  proof (cases "length paths < cap")
    case True
    then have "order' = order \<and> paths' = paths" using assms(6) by (cases order) auto
    then show ?thesis using assms True by (auto simp: map_of_eq_None_iff)
  next
    case False
    then obtain h t where o: "order = h # t" using assms(4,5) len by (cases order) auto
    have wf: "go_wf (go_del h paths)" using assms(1) by (rule go_wf_del)
    have keys: "set t = fst ` set (go_del h paths)" using assms(2,3) o by auto
    then have l: "length (go_del h paths) < cap"
      using length_keys [OF wf] assms(2) o len assms(4) distinct_card [of t] by auto
    then have "order' = t \<and> paths' = go_del h paths" using assms(6) False o by (cases t) auto
    then show ?thesis using o assms(2) wf keys l False by (auto simp: map_of_eq_None_iff)
  qed
qed

datatype fcall = FWrite gotime string LineageID CausalSet gotime | FSweep gotime

primrec fstep :: "FileTaint \<Rightarrow> fcall \<Rightarrow> FileTaint" where
  "fstep f (FWrite now p primary cset t) = RecordWrite now p primary cset t f"
| "fstep f (FSweep cutoff) = fst (File_Sweep cutoff f)"

text \<open>
  One write: it does nothing, replaces the record of a known path, or adds the path, pushing out the one
  recorded first when the tracker is full.
\<close>

definition useful :: "string \<Rightarrow> LineageID \<Rightarrow> CausalSet \<Rightarrow> bool" where
  "useful p primary cset \<longleftrightarrow> p \<noteq> '''' \<and> (primary \<noteq> 0 \<or> cset \<noteq> [])"

definition write_record :: "gotime \<Rightarrow> LineageID \<Rightarrow> CausalSet \<Rightarrow> gotime \<Rightarrow> FileProvenance" where
  "write_record now primary cset t =
     \<lparr>fp_LastWriterPrimary = primary, fp_Set = NewCausalSet cset, fp_SetHash = CausalSet_Hash cset,
      fp_RecordedAt = (if t = 0 then now else t)\<rparr>"

lemma RecordWrite_eq:
  "RecordWrite now p primary cset t f =
     (let r = write_record now primary cset t in
      if \<not> useful p primary cset then f
      else if p \<in> fst ` set (ft_paths f) then f\<lparr>ft_paths := go_set p r (ft_paths f)\<rparr>
      else case evict_head (ft_cap f) (ft_order f) (ft_paths f) of (order, paths) \<Rightarrow>
             f\<lparr>ft_paths := go_set p r paths, ft_order := order @ [p]\<rparr>)"
  by (auto simp: RecordWrite_def write_record_def useful_def Let_def map_of_eq_None_iff)

lemma RecordWrite_spec:
  assumes "ft_ok f"
  shows "ft_ok (RecordWrite now p primary cset t f) \<and>
    (\<forall>q. go_get (ft_paths (RecordWrite now p primary cset t f)) q =
      (if useful p primary cset \<and> q = p then Some (write_record now primary cset t)
       else if useful p primary cset \<and> p \<notin> set (ft_order f) \<and> length (ft_order f) = ft_cap f \<and> q = hd (ft_order f)
       then None else go_get (ft_paths f) q))"
proof (cases "useful p primary cset \<and> p \<notin> fst ` set (ft_paths f)")
  case True
  note f = assms [unfolded ft_ok_def]
  obtain order paths where e: "evict_head (ft_cap f) (ft_order f) (ft_paths f) = (order, paths)" by fastforce
  have ev: "go_wf paths \<and> distinct order \<and> set order = fst ` set paths \<and> length paths < ft_cap f \<and>
      (\<forall>q. go_get paths q = (if q \<in> set order then go_get (ft_paths f) q else None)) \<and>
      order = (if length (ft_paths f) < ft_cap f then ft_order f else tl (ft_order f))"
    using f by (intro evict_head_ok [OF _ _ _ _ _ e]) simp_all
  have len: "length (ft_paths f) = length (ft_order f)" using f by (metis length_keys distinct_card)
  have new: "p \<notin> set (ft_order f)" using True f by simp
  have "order = ft_order f \<or> order = tl (ft_order f)" using ev by (metis (full_types))
  then have "set order \<subseteq> set (ft_order f)" by (cases "ft_order f") auto
  with new have "p \<notin> set order" by blast
  have ok: "ft_ok (RecordWrite now p primary cset t f)"
  proof -
    have "go_wf paths" "distinct order" "set order = fst ` set paths" "length paths < ft_cap f" using ev by blast+
    with \<open>p \<notin> set order\<close> show ?thesis
      using True e f by (simp add: RecordWrite_eq Let_def ft_ok_def length_go_set)
  qed
  moreover have "go_get paths q = (if length (ft_order f) = ft_cap f \<and> q = hd (ft_order f) then None else go_get (ft_paths f) q)" for q
  proof -
    have none: "q \<notin> set (ft_order f) \<Longrightarrow> go_get (ft_paths f) q = None" using f by (simp only: map_of_eq_None_iff not_False_eq_True)
    have get: "go_get paths q = (if q \<in> set order then go_get (ft_paths f) q else None)" using ev by blast
    show ?thesis
    proof (cases "length (ft_order f) = ft_cap f")
      case full: True
      then obtain h rest where o: "ft_order f = h # rest" using f by (cases "ft_order f") auto
      then have "h \<notin> set rest" "order = rest" using f ev full len by auto
      then show ?thesis using get none o full by (cases "q = h") simp_all
    next
      case False
      then have "order = ft_order f" using ev f len by auto
      then show ?thesis using get none False by simp
    qed
  qed
  ultimately show ?thesis using True e new by (simp add: RecordWrite_eq Let_def)
next
  case False
  then show ?thesis
    using assms by (auto simp: RecordWrite_eq Let_def ft_ok_def length_go_set)
qed

lemma sweep_paths_spec:
  assumes "go_wf paths" "distinct order" "set order \<subseteq> fst ` set paths"
    and "sweep_paths cutoff order paths = (kept, paths', n)"
  shows "go_wf paths' \<and> distinct kept \<and> set kept = {p \<in> set order. \<exists>r. go_get paths p = Some r \<and> cutoff \<le> fp_RecordedAt r} \<and>
    (\<forall>p. go_get paths' p = (if p \<in> set order - set kept then None else go_get paths p)) \<and> length paths' \<le> length paths"
  using assms
proof (induction order arbitrary: paths kept paths' n)
  case (Cons p order)
  obtain r where r: "go_get paths p = Some r" using Cons.prems(3) by (auto simp: map_of_eq_None_iff dest: weak_map_of_SomeI)
  show ?case
  proof (cases "fp_RecordedAt r < cutoff")
    case True
    obtain k n' where s: "sweep_paths cutoff order (go_del p paths) = (k, paths', n')" "kept = k"
      using Cons.prems(4) r True by (auto split: prod.splits)
    have d: "go_wf (go_del p paths)" "distinct order" "set order \<subseteq> fst ` set (go_del p paths)" "p \<notin> set order"
      using Cons.prems(1-3) by auto
    have "length (go_del p paths) \<le> length paths" by (simp add: AList.delete_eq)
    then show ?thesis using Cons.IH [OF d(1-3) s(1)] s(2) r True d(4) by auto
  next
    case False
    obtain k n' where s: "sweep_paths cutoff order paths = (k, paths', n')" "kept = p # k"
      using Cons.prems(4) r False by (auto split: prod.splits)
    have d: "distinct order" "set order \<subseteq> fst ` set paths" "p \<notin> set order" using Cons.prems(2,3) by auto
    then show ?thesis using Cons.IH [OF Cons.prems(1) d(1,2) s(1)] s(2) r False by auto
  qed
qed simp

lemma File_Sweep_spec:
  assumes "ft_ok f"
  shows "ft_ok (fst (File_Sweep cutoff f)) \<and>
    (\<forall>p. go_get (ft_paths (fst (File_Sweep cutoff f))) p =
      (case go_get (ft_paths f) p of None \<Rightarrow> None | Some r \<Rightarrow> if fp_RecordedAt r < cutoff then None else Some r))"
proof -
  note f = assms [unfolded ft_ok_def]
  obtain kept paths n where s: "sweep_paths cutoff (ft_order f) (ft_paths f) = (kept, paths, n)" by (metis prod_cases3)
  have sp: "go_wf paths \<and> distinct kept \<and>
      set kept = {p \<in> set (ft_order f). \<exists>r. go_get (ft_paths f) p = Some r \<and> cutoff \<le> fp_RecordedAt r} \<and>
      (\<forall>p. go_get paths p = (if p \<in> set (ft_order f) - set kept then None else go_get (ft_paths f) p)) \<and>
      length paths \<le> length (ft_paths f)"
    using f by (intro sweep_paths_spec [OF _ _ _ s]) simp_all
  have order: "p \<in> set (ft_order f) \<longleftrightarrow> go_get (ft_paths f) p \<noteq> None" for p
    using f by (simp only: map_of_eq_None_iff simp_thms)
  have kept: "p \<in> set kept \<longleftrightarrow> (\<exists>r. go_get (ft_paths f) p = Some r \<and> cutoff \<le> fp_RecordedAt r)" for p
    using sp order [of p] by auto
  have paths: "go_get paths p = (if p \<in> set (ft_order f) - set kept then None else go_get (ft_paths f) p)" for p
    using sp by blast
  have get: "go_get paths p = (case go_get (ft_paths f) p of None \<Rightarrow> None
      | Some r \<Rightarrow> if fp_RecordedAt r < cutoff then None else Some r)" for p
    by (cases "go_get (ft_paths f) p") (simp_all add: paths kept order)
  have "set kept = fst ` set paths"
  proof (intro set_eqI)
    fix p
    have "p \<in> fst ` set paths \<longleftrightarrow> go_get paths p \<noteq> None" by (simp only: map_of_eq_None_iff simp_thms)
    then show "p \<in> set kept \<longleftrightarrow> p \<in> fst ` set paths"
      by (cases "go_get (ft_paths f) p") (simp_all only: get kept option.case split: if_splits, auto)
  qed
  moreover have "go_wf paths" "distinct kept" "length paths \<le> ft_cap f" "0 < ft_cap f" using sp f by auto
  ultimately show ?thesis using s get by (simp add: File_Sweep_def ft_ok_def)
qed

lemma fstep_ok: "ft_ok f \<Longrightarrow> ft_ok (fstep f c)"
  by (cases c) (simp_all add: RecordWrite_spec File_Sweep_spec)

lemma NewFileTaint_ok: "ft_ok (NewFileTaint cap ttl)"
  by (simp add: NewFileTaint_def ft_ok_def)

interpretation files: machine "NewFileTaint cap ttl" fstep ft_ok for cap ttl
  by unfold_locales (simp_all add: NewFileTaint_ok fstep_ok)

text \<open>The record a history of calls leaves for a path: the one of the last useful write.\<close>

primrec last_write :: "string \<Rightarrow> FileProvenance option \<Rightarrow> fcall \<Rightarrow> FileProvenance option" where
  "last_write p acc (FWrite now q primary cset t) =
     (if useful q primary cset \<and> q = p then Some (write_record now primary cset t) else acc)"
| "last_write p acc (FSweep cutoff) = acc"

lemma fstep_cap: "ft_cap (fstep f c) = ft_cap f \<and> ft_ttl (fstep f c) = ft_ttl f"
  by (cases c) (simp_all add: RecordWrite_eq File_Sweep_def Let_def case_prod_beta)

lemma run_cap: "ft_cap (foldl fstep f cs) = ft_cap f \<and> ft_ttl (foldl fstep f cs) = ft_ttl f"
  by (induction cs arbitrary: f) (simp_all add: fstep_cap)

lemma tracked_is_last_write:
  assumes "go_get (ft_paths (foldl fstep (NewFileTaint cap ttl) cs)) p = Some r"
  shows "foldl (last_write p) None cs = Some r"
  using assms
proof (induction cs arbitrary: r rule: rev_induct)
  case Nil
  then show ?case by (simp add: NewFileTaint_def)
next
  case (snoc c cs)
  let ?f = "foldl fstep (NewFileTaint cap ttl) cs"
  have ok: "ft_ok ?f" by (rule files.run_inv)
  show ?case
  proof (cases c)
    case (FWrite now q primary cset t)
    then show ?thesis
      using snoc RecordWrite_spec [OF ok, of now q primary cset t] by (auto split: if_splits)
  next
    case (FSweep cutoff)
    then show ?thesis
      using snoc File_Sweep_spec [OF ok, of cutoff] by (auto split: option.splits if_splits)
  qed
qed

text \<open>
  C20: a file's reader is attributed to its last writer or to nobody. Whatever writes and sweeps came
  before, the provenance found for a path is the record of the last write to it that carried any, not
  older than the configured lifetime, with a causal set without duplicates and within its bound; and the
  tracker never holds more paths than its capacity.
\<close>

theorem reader_sees_last_writer:
  assumes "f = foldl fstep (NewFileTaint cap ttl) cs" and "File_Lookup now p f = Some r"
  shows "foldl (last_write p) None cs = Some r \<and> time_sub now (fp_RecordedAt r) \<le> (if ttl \<le> 0 then 24 * hour else ttl) \<and>
    cs_ok (fp_Set r) \<and> FileTaint_Size f \<le> (if cap \<le> 0 then 4096 else nat cap)"
proof -
  have get: "go_get (ft_paths f) p = Some r" "time_sub now (fp_RecordedAt r) \<le> ft_ttl f"
    using assms(2) by (auto simp: File_Lookup_def split: if_splits option.splits)
  then have last: "foldl (last_write p) None cs = Some r" using tracked_is_last_write assms(1) by blast
  have "pred_option (\<lambda>r. cs_ok (fp_Set r)) (foldl (last_write p) acc cs)" if "pred_option (\<lambda>r. cs_ok (fp_Set r)) acc" for acc
    using that
  proof (induction cs arbitrary: acc)
    case (Cons c cs)
    have "pred_option (\<lambda>r. cs_ok (fp_Set r)) (last_write p acc c)"
      using Cons.prems by (cases c) (auto simp: write_record_def NewCausalSet_ok)
    then show ?case using Cons.IH by simp
  qed simp
  from this [of None] last have ok: "cs_ok (fp_Set r)" by simp
  have "ft_ok f" using files.run_inv assms(1) by simp
  then have "FileTaint_Size f \<le> ft_cap f" by (simp add: ft_ok_def FileTaint_Size_def)
  then show ?thesis using get(2) last ok run_cap [of "NewFileTaint cap ttl" cs] assms(1) by (simp add: NewFileTaint_def)
qed

theorem reader_sees_last_writer_witness:
  "foldl (last_write ''/etc/cron.d/x'') None [FWrite 5 ''/etc/cron.d/x'' 7 [7] 0] =
     Some (write_record 5 7 [7] 0)"
proof -
  let ?cs = "[FWrite 5 ''/etc/cron.d/x'' 7 [7] 0]"
  have "File_Lookup 9 ''/etc/cron.d/x'' (foldl fstep (NewFileTaint 0 0) ?cs) = Some (write_record 5 7 [7] 0)" by code_simp
  from reader_sees_last_writer [OF refl this] show ?thesis by blast
qed

text \<open>What an identity event mints: a fresh identifier, its origin, and the anchor linked to the parent.\<close>

lemma MintFromEvent_minted:
  assumes "kindFromEventTags (ev_Tags ev) = Some kind" "am_ids m + 1 \<noteq> 0" "am_store m = Some as"
    and "MintFromEvent recent written now ev m = (m', i, None)"
  shows "i = am_ids m + 1 \<and> Origin_Get i (am_origins m') \<noteq> None \<and>
    (\<exists>a as'. am_store m' = Some (as' @ [a]) \<and> an_ID a = i \<and> an_Kind a = kind \<and>
      an_ParentAnchorID a = fst (mint_parent recent kind ev m) \<and> (\<forall>b\<in>set as'. an_ID b \<noteq> i))"
proof -
  have "KindFromRootType (rootTypeForKind kind) = kind"
    by (cases kind) (simp_all add: KindFromRootType_def rootTypeForKind_def)
  then show ?thesis
    using assms by (auto simp: MintFromEvent_def Minter_New_def Let_def Anchor_Put_def FromOrigin_def mint_origin_def
        Origin_Put_def Origin_Get_def case_prod_beta split: if_splits)
qed

lemma only_identity_events_mint:
  "kindFromEventTags (ev_Tags ev) = None \<Longrightarrow> MintFromEvent recent written now ev m = (m, 0, None)"
  by (simp add: MintFromEvent_def)

end
