(* ===== verification/ProcTree.thy ===== *)
theory ProcTree
  imports Provenance
begin

text \<open>
  The process tree, \<^verbatim>\<open>pkg/proctree/graph.go\<close>: the nodes the daemon knows, with their parent and children,
  the sources they inherit, and the eviction of old leaves when there are too many. The children of a
  node, a Go set, are a list. Every causal set the daemon handles is built by \<^verbatim>\<open>NewCausalSet\<close> and \<^verbatim>\<open>Add\<close>, so
  the call sequences take lists of identifiers.
\<close>

record PNode =
  nd_PID :: u32
  nd_PPID :: u32
  nd_Comm :: string
  nd_Image :: string
  nd_UID :: u32
  nd_StartNs :: u64
  nd_Argv :: "string list"
  nd_CGroupID :: u64
  nd_Container :: string
  nd_Children :: "u32 list"
  nd_FirstSeen :: gotime
  nd_LastEvent :: gotime
  nd_PrimarySource :: LineageID
  nd_CausalSet :: CausalSet

record PGraph =
  pg_nodes :: "(u32, PNode) gomap"
  pg_cap :: int

definition Graph_New :: "int \<Rightarrow> PGraph" where
  "Graph_New cap = \<lparr>pg_nodes = [], pg_cap = (if cap \<le> 0 then 50000 else cap)\<rparr>"

definition add_child :: "u32 \<Rightarrow> PNode \<Rightarrow> PNode" where
  "add_child c n = n\<lparr>nd_Children := List.insert c (nd_Children n)\<rparr>"

definition del_child :: "u32 \<Rightarrow> PNode \<Rightarrow> PNode" where
  "del_child c n = n\<lparr>nd_Children := removeAll c (nd_Children n)\<rparr>"

definition update_node :: "u32 \<Rightarrow> (PNode \<Rightarrow> PNode) \<Rightarrow> (u32, PNode) gomap \<Rightarrow> (u32, PNode) gomap" where
  "update_node p f nodes = (case go_get nodes p of None \<Rightarrow> nodes | Some n \<Rightarrow> go_set p (f n) nodes)"

text \<open>Eviction: leaves in the order of their last event, until the target is reached.\<close>

fun evict_leaves :: "int \<Rightarrow> u32 list \<Rightarrow> (u32, PNode) gomap \<Rightarrow> (u32, PNode) gomap" where
  "evict_leaves target [] nodes = nodes"
| "evict_leaves target (l # ls) nodes =
     (case go_get nodes l of
        None \<Rightarrow> evict_leaves target ls nodes
      | Some n \<Rightarrow>
          let nodes1 = go_del l (update_node (nd_PPID n) (del_child l) nodes)
          in if int (length nodes1) \<le> target then nodes1 else evict_leaves target ls nodes1)"

definition evict_target :: "int \<Rightarrow> int" where
  "evict_target cap = cap - cap sdiv 10"

definition tree_leaves :: "(u32, PNode) gomap \<Rightarrow> (u32 \<times> gotime) list" where
  "tree_leaves nodes = [(p, nd_LastEvent n). (p, n) \<leftarrow> nodes, nd_Children n = []]"

definition evictLocked :: "PGraph \<Rightarrow> PGraph" where
  "evictLocked g =
     (let target = evict_target (pg_cap g) in
      if int (length (pg_nodes g)) \<le> target then g
      else g\<lparr>pg_nodes := evict_leaves target (map fst (sort_key snd (tree_leaves (pg_nodes g)))) (pg_nodes g)\<rparr>)"

text \<open>Spawn: the parent learns of the child, an unattributed child inherits its parent's source.\<close>

definition inherit_source :: "PNode \<Rightarrow> PNode \<Rightarrow> PNode" where
  "inherit_source parent n =
     (let n1 = (if nd_PrimarySource n = 0 \<and> nd_PrimarySource parent \<noteq> 0
                then n\<lparr>nd_PrimarySource := nd_PrimarySource parent\<rparr> else n)
      in if nd_CausalSet n1 = [] \<and> nd_CausalSet parent \<noteq> []
         then n1\<lparr>nd_CausalSet := fst (CausalSet_Merge (nd_CausalSet parent) (nd_CausalSet n1))\<rparr> else n1)"

definition spawned :: "gotime \<Rightarrow> PNode \<Rightarrow> PGraph \<Rightarrow> PNode" where
  "spawned now n0 g =
     (let n1 = n0\<lparr>nd_FirstSeen := (if nd_FirstSeen n0 = 0 then now else nd_FirstSeen n0), nd_LastEvent := now\<rparr>;
          n2 = (case go_get (pg_nodes g) (nd_PPID n1) of None \<Rightarrow> n1 | Some parent \<Rightarrow> inherit_source parent n1)
      in if nd_PrimarySource n2 \<noteq> 0
         then n2\<lparr>nd_CausalSet := fst (CausalSet_Add (nd_PrimarySource n2) (nd_CausalSet n2))\<rparr> else n2)"

definition OnSpawn :: "gotime \<Rightarrow> PNode \<Rightarrow> PGraph \<Rightarrow> PGraph" where
  "OnSpawn now n g =
     (let n1 = spawned now n g;
          g1 = g\<lparr>pg_nodes := go_set (nd_PID n) n1 (update_node (nd_PPID n) (add_child (nd_PID n)) (pg_nodes g))\<rparr>
      in if pg_cap g1 < int (length (pg_nodes g1)) then evictLocked g1 else g1)"

definition AttributeSource :: "gotime \<Rightarrow> u32 \<Rightarrow> LineageID \<Rightarrow> PGraph \<Rightarrow> PGraph" where
  "AttributeSource now pid i g =
     (if i = 0 then g
      else g\<lparr>pg_nodes := update_node pid
               (\<lambda>n. n\<lparr>nd_PrimarySource := i, nd_CausalSet := fst (CausalSet_Add i (nd_CausalSet n)), nd_LastEvent := now\<rparr>)
               (pg_nodes g)\<rparr>)"

definition MergeCausalSet :: "u32 \<Rightarrow> CausalSet \<Rightarrow> PGraph \<Rightarrow> PGraph \<times> bool" where
  "MergeCausalSet pid cset g =
     (if cset = [] then (g, False)
      else case go_get (pg_nodes g) pid of
             None \<Rightarrow> (g, False)
           | Some n \<Rightarrow>
               case CausalSet_Merge cset (nd_CausalSet n) of (c, changed) \<Rightarrow>
                 (g\<lparr>pg_nodes := go_set pid (n\<lparr>nd_CausalSet := c\<rparr>) (pg_nodes g)\<rparr>, changed))"

definition SourceOf :: "u32 \<Rightarrow> PGraph \<Rightarrow> LineageID \<times> CausalSet" where
  "SourceOf pid g =
     (case go_get (pg_nodes g) pid of None \<Rightarrow> (0, []) | Some n \<Rightarrow> (nd_PrimarySource n, NewCausalSet (nd_CausalSet n)))"

text \<open>Exit: the children known to the graph go to process 1, if it is known.\<close>

definition reparent :: "(u32, PNode) gomap \<Rightarrow> u32 \<Rightarrow> (u32, PNode) gomap" where
  "reparent nodes c =
     (case go_get nodes c of
        None \<Rightarrow> nodes
      | Some cn \<Rightarrow> update_node 1 (add_child c) (go_set c (cn\<lparr>nd_PPID := 1\<rparr>) nodes))"

definition OnExit :: "u32 \<Rightarrow> PGraph \<Rightarrow> PGraph" where
  "OnExit pid g =
     (case go_get (pg_nodes g) pid of
        None \<Rightarrow> g
      | Some n \<Rightarrow>
          let nodes1 = (if go_get (pg_nodes g) 1 = None then pg_nodes g else foldl reparent (pg_nodes g) (nd_Children n));
              ppid = (case go_get nodes1 pid of None \<Rightarrow> nd_PPID n | Some n1 \<Rightarrow> nd_PPID n1)
          in g\<lparr>pg_nodes := update_node ppid (del_child pid) (go_del pid nodes1)\<rparr>)"

definition Graph_Touch :: "gotime \<Rightarrow> u32 \<Rightarrow> PGraph \<Rightarrow> PGraph" where
  "Graph_Touch now pid g = g\<lparr>pg_nodes := update_node pid (\<lambda>n. n\<lparr>nd_LastEvent := now\<rparr>) (pg_nodes g)\<rparr>"

definition proc_node :: "PNode \<Rightarrow> ProcNode" where
  "proc_node n =
     \<lparr>pn_PID = nd_PID n, pn_Comm = nd_Comm n, pn_Argv = nd_Argv n, pn_UID = nd_UID n, pn_StartNs = nd_StartNs n,
      pn_Image = nd_Image n, pn_FirstAction = nd_FirstSeen n\<rparr>"

fun walk_up :: "nat \<Rightarrow> u32 \<Rightarrow> (u32, PNode) gomap \<Rightarrow> PNode list" where
  "walk_up 0 cur nodes = []"
| "walk_up (Suc d) cur nodes =
     (case go_get nodes cur of
        None \<Rightarrow> []
      | Some n \<Rightarrow> n # (if nd_PPID n = 0 \<or> nd_PPID n = cur then [] else walk_up d (nd_PPID n) nodes))"

definition Ancestors :: "u32 \<Rightarrow> int \<Rightarrow> PGraph \<Rightarrow> ProcNode list" where
  "Ancestors pid depth g =
     map proc_node (walk_up (if depth \<le> 0 \<or> 16 < depth then 16 else nat depth) pid (pg_nodes g))"

definition Graph_Count :: "PGraph \<Rightarrow> nat" where
  "Graph_Count g = length (pg_nodes g)"

subsection \<open>Calls and the invariant\<close>

datatype pcall = PSpawn gotime PNode "LineageID list" | PAttribute gotime u32 LineageID | PMerge u32 "LineageID list"
  | PExit u32 | PTouch gotime u32

primrec pstep :: "PGraph \<Rightarrow> pcall \<Rightarrow> PGraph" where
  "pstep g (PSpawn now n ids) = OnSpawn now (n\<lparr>nd_CausalSet := NewCausalSet ids\<rparr>) g"
| "pstep g (PAttribute now pid i) = AttributeSource now pid i g"
| "pstep g (PMerge pid ids) = fst (MergeCausalSet pid (NewCausalSet ids) g)"
| "pstep g (PExit pid) = OnExit pid g"
| "pstep g (PTouch now pid) = Graph_Touch now pid g"

text \<open>
  The sources of a node: its causal set is well formed, and contains the primary source unless it is
  full, when newer sources may have pushed that one out.
\<close>

definition sourced :: "LineageID \<Rightarrow> CausalSet \<Rightarrow> bool" where
  "sourced i c \<longleftrightarrow> cs_ok c \<and> (i \<noteq> 0 \<longrightarrow> i \<in> set c \<or> length c = CausalSetCap)"

definition node_ok :: "u32 \<Rightarrow> PNode \<Rightarrow> bool" where
  "node_ok p n \<longleftrightarrow> nd_PID n = p \<and> sourced (nd_PrimarySource n) (nd_CausalSet n)"

definition tree_ok :: "(u32, PNode) gomap \<Rightarrow> bool" where
  "tree_ok nodes \<longleftrightarrow> go_wf nodes \<and> (\<forall>p n. go_get nodes p = Some n \<longrightarrow> node_ok p n)"

lemma go_get_update_node [simp]:
  "go_get (update_node p f nodes) q = (if q = p then map_option f (go_get nodes p) else go_get nodes q)"
  by (simp add: update_node_def split: option.split)

lemma keys_update_node: "fst ` set (update_node p f nodes) = fst ` set nodes"
  by (auto simp: update_node_def AList.dom_update dest: map_of_SomeD intro: rev_image_eqI split: option.split)

lemma wf_update_node: "go_wf nodes \<Longrightarrow> go_wf (update_node p f nodes)"
  by (simp add: update_node_def split: option.split)

lemma length_update_node [simp]: "length (update_node p f nodes) = length nodes"
  by (auto simp: update_node_def length_go_set map_of_eq_None_iff split: option.split)

lemma tree_ok_get: "tree_ok nodes \<Longrightarrow> go_get nodes p = Some n \<Longrightarrow> node_ok p n"
  by (simp add: tree_ok_def)

lemma tree_ok_update: "tree_ok nodes \<Longrightarrow> (\<And>n. node_ok p n \<Longrightarrow> node_ok p (f n)) \<Longrightarrow> tree_ok (update_node p f nodes)"
  unfolding tree_ok_def by (auto simp del: map_of_eq_Some_iff simp: wf_update_node split: if_splits)

lemma tree_ok_set: "tree_ok nodes \<Longrightarrow> node_ok p n \<Longrightarrow> tree_ok (go_set p n nodes)"
  by (simp add: tree_ok_def)

lemma tree_ok_del: "tree_ok nodes \<Longrightarrow> tree_ok (go_del p nodes)"
  by (simp add: tree_ok_def)

lemma node_ok_links [simp]:
  "node_ok p (add_child c n) = node_ok p n" "node_ok p (del_child c n) = node_ok p n"
  "node_ok p (n\<lparr>nd_PPID := q\<rparr>) = node_ok p n" "node_ok p (n\<lparr>nd_LastEvent := t\<rparr>) = node_ok p n"
  by (simp_all add: node_ok_def add_child_def del_child_def)

lemma sourced_cs: "sourced i c \<Longrightarrow> cs_ok c"
  by (simp add: sourced_def)

lemma sourced_Add: "sourced i c \<Longrightarrow> sourced i (fst (CausalSet_Add j c))"
  by (cases "length c = CausalSetCap") (auto simp: sourced_def CausalSet_Add_ok, auto simp: CausalSet_Add_def cs_ok_def split: if_splits)

lemma sourced_Add_self: "cs_ok c \<Longrightarrow> sourced i (fst (CausalSet_Add i c))"
  by (cases "i = 0") (simp_all add: sourced_def CausalSet_Add_ok CausalSet_Add_in)

lemma sourced_Merge: "sourced i c \<Longrightarrow> sourced i (fst (CausalSet_Merge ids c))"
  unfolding CausalSet_Merge_fold by (induction ids arbitrary: c) (simp_all add: sourced_Add)

lemma spawned_ok: "cs_ok (nd_CausalSet n) \<Longrightarrow> node_ok (nd_PID n) (spawned now n g)"
  by (auto simp: spawned_def inherit_source_def node_ok_def Let_def sourced_Add_self CausalSet_Merge_ok split: option.split)
    (auto simp: sourced_def CausalSet_Merge_ok)

lemma evict_leaves_ok: "tree_ok nodes \<Longrightarrow> tree_ok (evict_leaves target ls nodes)"
  by (induction target ls nodes rule: evict_leaves.induct)
    (simp_all add: Let_def tree_ok_del tree_ok_update split: option.split)

lemma evictLocked_ok: "tree_ok (pg_nodes g) \<Longrightarrow> tree_ok (pg_nodes (evictLocked g))"
  by (simp add: evictLocked_def Let_def evict_leaves_ok)

lemma reparent_ok: "tree_ok nodes \<Longrightarrow> tree_ok (foldl reparent nodes cs)"
proof (induction cs arbitrary: nodes)
  case (Cons c cs)
  have "tree_ok (reparent nodes c)"
    using Cons.prems by (auto simp: reparent_def tree_ok_update tree_ok_set tree_ok_get split: option.split)
  then show ?case using Cons.IH by simp
qed simp

lemma pstep_ok: "tree_ok (pg_nodes g) \<Longrightarrow> tree_ok (pg_nodes (pstep g c))"
proof (cases c)
  case (PSpawn now n ids)
  assume g: "tree_ok (pg_nodes g)"
  let ?n = "n\<lparr>nd_CausalSet := NewCausalSet ids\<rparr>"
  have "node_ok (nd_PID ?n) (spawned now ?n g)" by (rule spawned_ok) (simp add: NewCausalSet_ok)
  then show ?thesis
    using g by (simp add: PSpawn OnSpawn_def Let_def evictLocked_ok tree_ok_set tree_ok_update)
next
  case (PAttribute now pid i)
  assume "tree_ok (pg_nodes g)"
  then show ?thesis
    by (auto simp: PAttribute AttributeSource_def node_ok_def sourced_cs sourced_Add_self intro!: tree_ok_update)
next
  case (PMerge pid ids)
  assume "tree_ok (pg_nodes g)"
  then show ?thesis
    by (auto simp: PMerge MergeCausalSet_def node_ok_def sourced_Merge case_prod_beta intro!: tree_ok_set
        dest: tree_ok_get split: option.split)
next
  case (PExit pid)
  assume "tree_ok (pg_nodes g)"
  then show ?thesis
    by (simp add: PExit OnExit_def Let_def tree_ok_update tree_ok_del reparent_ok split: option.split)
next
  case (PTouch now pid)
  assume "tree_ok (pg_nodes g)"
  then show ?thesis by (simp add: PTouch Graph_Touch_def tree_ok_update)
qed

interpretation tree: machine "Graph_New cap" pstep "\<lambda>g. tree_ok (pg_nodes g)" for cap
  by unfold_locales (simp add: Graph_New_def tree_ok_def, rule pstep_ok)

subsection \<open>Inheritance of sources\<close>

definition unattributed :: "PNode \<Rightarrow> bool" where
  "unattributed n \<longleftrightarrow> nd_PrimarySource n = 0 \<and> nd_CausalSet n = []"

fun descends :: "u32 \<Rightarrow> PNode list \<Rightarrow> bool" where
  "descends p [] \<longleftrightarrow> True"
| "descends p (n # ns) \<longleftrightarrow> nd_PPID n = p \<and> descends (nd_PID n) ns"

definition has_source :: "PGraph \<Rightarrow> LineageID \<Rightarrow> CausalSet \<Rightarrow> u32 \<Rightarrow> bool" where
  "has_source g i c p \<longleftrightarrow> (\<exists>n. go_get (pg_nodes g) p = Some n \<and> nd_PrimarySource n = i \<and> nd_CausalSet n = c)"

lemma SourceOf_has_source: "cs_ok c \<Longrightarrow> has_source g i c p \<Longrightarrow> SourceOf p g = (i, c)"
  by (auto simp: has_source_def SourceOf_def NewCausalSet_copy simp del: map_of_eq_Some_iff)

lemma OnSpawn_small:
  assumes "go_wf (pg_nodes g)" "int (length (pg_nodes g)) < pg_cap g"
  shows "pg_nodes (OnSpawn now n g)
      = go_set (nd_PID n) (spawned now n g) (update_node (nd_PPID n) (add_child (nd_PID n)) (pg_nodes g))"
    and "pg_cap (OnSpawn now n g) = pg_cap g"
    and "length (pg_nodes (OnSpawn now n g)) \<le> Suc (length (pg_nodes g))"
  using assms(2) by (auto simp: OnSpawn_def Let_def length_go_set)

lemma OnSpawn_child:
  assumes p: "has_source g i c (nd_PPID n)" and c: "cs_ok c" "i \<in> set c" "i \<noteq> 0" and n: "unattributed n"
    and small: "go_wf (pg_nodes g)" "int (length (pg_nodes g)) < pg_cap g"
  shows "has_source (OnSpawn now n g) i c (nd_PID n)"
proof -
  obtain m where m: "go_get (pg_nodes g) (nd_PPID n) = Some m" "nd_PrimarySource m = i" "nd_CausalSet m = c"
    using p unfolding has_source_def by blast
  have "fst (CausalSet_Merge c []) = c"
    using NewCausalSet_copy [OF c(1)] by (simp add: CausalSet_Merge_fold NewCausalSet_def)
  moreover have "c \<noteq> []" using c(2) by auto
  ultimately show ?thesis
    using m n c by (simp add: has_source_def OnSpawn_small [OF small] spawned_def inherit_source_def Let_def unattributed_def
        CausalSet_Add_def del: map_of_eq_Some_iff)
qed

lemma OnSpawn_other:
  assumes p: "has_source g i c q" and q: "q \<noteq> nd_PID n"
    and small: "go_wf (pg_nodes g)" "int (length (pg_nodes g)) < pg_cap g"
  shows "has_source (OnSpawn now n g) i c q"
  using p q by (auto simp: has_source_def OnSpawn_small [OF small] add_child_def simp del: map_of_eq_Some_iff)

lemma wf_OnSpawn:
  "go_wf (pg_nodes g) \<Longrightarrow> int (length (pg_nodes g)) < pg_cap g \<Longrightarrow> go_wf (pg_nodes (OnSpawn now n g))"
  by (simp add: OnSpawn_small wf_update_node)

lemma spawns_keep:
  assumes "has_source g i c p" "p \<notin> nd_PID ` set ns" "go_wf (pg_nodes g)"
    and "int (length (pg_nodes g) + length ns) \<le> pg_cap g"
  shows "has_source (foldl (\<lambda>g n. OnSpawn now n g) g ns) i c p"
  using assms
proof (induction ns arbitrary: g)
  case (Cons m ms)
  have s: "go_wf (pg_nodes g)" "int (length (pg_nodes g)) < pg_cap g" using Cons.prems by auto
  have "int (length (pg_nodes (OnSpawn now m g)) + length ms) \<le> pg_cap (OnSpawn now m g)"
    using Cons.prems OnSpawn_small(2,3) [OF s, of now m] by simp
  then show ?case using Cons.prems Cons.IH [OF OnSpawn_other [OF _ _ s, of i c p m now]] wf_OnSpawn [OF s] by simp
qed simp

lemma spawn_chain:
  assumes "has_source g i c p" "cs_ok c" "i \<in> set c" "i \<noteq> 0" "list_all unattributed ns" "descends p ns"
    and "distinct (p # map nd_PID ns)" "go_wf (pg_nodes g)" "int (length (pg_nodes g) + length ns) \<le> pg_cap g"
    and "q \<in> set (p # map nd_PID ns)"
  shows "has_source (foldl (\<lambda>g n. OnSpawn now n g) g ns) i c q"
  using assms
proof (induction ns arbitrary: g p q)
  case (Cons n ns)
  let ?g = "OnSpawn now n g"
  have small: "go_wf (pg_nodes g)" "int (length (pg_nodes g)) < pg_cap g" using Cons.prems by auto
  have next_ok: "has_source ?g i c (nd_PID n)"
    using Cons.prems by (intro OnSpawn_child small) auto
  have keep: "has_source ?g i c p" using Cons.prems by (intro OnSpawn_other small) auto
  have room: "int (length (pg_nodes ?g) + length ns) \<le> pg_cap ?g"
    using Cons.prems OnSpawn_small(2,3) [OF small, of now n] by simp
  have later: "has_source (foldl (\<lambda>g n. OnSpawn now n g) ?g ns) i c r" if "r \<in> set (nd_PID n # map nd_PID ns)" for r
    using Cons.prems that by (intro Cons.IH [OF next_ok _ _ _ _ _ _ wf_OnSpawn [OF small] room]) auto
  have "has_source (foldl (\<lambda>g n. OnSpawn now n g) ?g ns) i c p"
    using keep Cons.prems(7) wf_OnSpawn [OF small] room by (intro spawns_keep) auto
  then show ?case using later Cons.prems(10) by auto
qed simp


definition test_node :: "u32 \<Rightarrow> u32 \<Rightarrow> LineageID \<Rightarrow> PNode" where
  "test_node pid ppid i =
     \<lparr>nd_PID = pid, nd_PPID = ppid, nd_Comm = ''sh'', nd_Image = ''/bin/sh'', nd_UID = 0, nd_StartNs = 0, nd_Argv = [],
      nd_CGroupID = 0, nd_Container = [], nd_Children = [], nd_FirstSeen = 0, nd_LastEvent = 0, nd_PrimarySource = i,
      nd_CausalSet = []\<rparr>"


text \<open>
  The causal set does not always hold the primary source: sixteen sources merged into a node push it
  out, although the comment in OnSpawn names its presence an invariant.
\<close>

lemma merge_pushes_primary_out:
  "SourceOf 5 (foldl pstep (Graph_New 10) [PSpawn 3 (test_node 5 1 77) [], PMerge 5 [1,2,3,4,5,6,7,8,9,10,11,12,13,14,15,16]])
     = (77, [1,2,3,4,5,6,7,8,9,10,11,12,13,14,15,16])"
  by code_simp

subsection \<open>Eviction\<close>

lemma length_wf: "go_wf m \<Longrightarrow> length m = card (fst ` set m)"
  using distinct_card [of "map fst m"] by simp

lemma evict_leaves_keys:
  assumes "go_wf nodes" "distinct ls" "set ls \<subseteq> fst ` set nodes" "0 \<le> target" "target < int (length nodes)"
  shows "fst ` set (evict_leaves target ls nodes) = fst ` set nodes - set (take (length nodes - nat target) ls)"
  using assms
proof (induction ls arbitrary: nodes)
  case (Cons l ls)
  obtain n where n: "go_get nodes l = Some n"
    using Cons.prems(3) by (cases "go_get nodes l") (auto simp: map_of_eq_None_iff)
  let ?m = "go_del l (update_node (nd_PPID n) (del_child l) nodes)"
  have wf: "go_wf ?m" using Cons.prems(1) by (simp add: wf_update_node)
  have keys: "fst ` set ?m = fst ` set nodes - {l}" by (simp add: AList.delete_keys keys_update_node)
  have len: "Suc (length ?m) = length nodes"
  proof -
    have "l \<in> fst ` set nodes" using Cons.prems(3) by simp
    then have "Suc (card (fst ` set nodes - {l})) = card (fst ` set nodes)" by (intro card_Suc_Diff1) simp_all
    then show ?thesis unfolding length_wf [OF wf] length_wf [OF Cons.prems(1)] keys .
  qed
  obtain k where k: "length nodes - nat target = Suc k" "k = length ?m - nat target"
    using Cons.prems(5,4) len by (cases "length nodes - nat target") auto
  show ?case
  proof (cases "int (length ?m) \<le> target")
    case True
    then have "k = 0" using k by linarith
    then show ?thesis using True n keys k by (simp add: Let_def)
  next
    case False
    then have "fst ` set (evict_leaves target ls ?m) = fst ` set ?m - set (take k ls)"
      using Cons.prems wf keys k by (subst Cons.IH) auto
    then show ?thesis using False n keys k by (auto simp: Let_def)
  qed
qed simp

definition evicted :: "PGraph \<Rightarrow> u32 set" where
  "evicted g = fst ` set (pg_nodes g) - fst ` set (pg_nodes (evictLocked g))"

lemma tree_leaves_filter: "map fst (tree_leaves nodes) = map fst (filter (\<lambda>(p, n). nd_Children n = []) nodes)"
  by (induction nodes) (auto simp: tree_leaves_def)

lemma tree_leaves_member:
  "(p, t) \<in> set (tree_leaves nodes) \<longleftrightarrow> (\<exists>n. (p, n) \<in> set nodes \<and> nd_Children n = [] \<and> nd_LastEvent n = t)"
  by (auto simp: tree_leaves_def)

lemma take_or_drop: "x \<in> set xs \<Longrightarrow> x \<notin> set (take k xs) \<Longrightarrow> x \<in> set (drop k xs)"
  by (metis Un_iff append_take_drop_id set_append)

lemma sorted_take_drop:
  "sorted xs \<Longrightarrow> x \<in> set (take k xs) \<Longrightarrow> y \<in> set (drop k xs) \<Longrightarrow> x \<le> y"
  using sorted_append [of "take k xs" "drop k xs"] by simp

lemma evicted_prefix:
  assumes wf: "go_wf (pg_nodes g)" and target: "0 \<le> evict_target (pg_cap g)"
  shows "evicted g = fst ` set (take (length (pg_nodes g) - nat (evict_target (pg_cap g)))
           (sort_key snd (tree_leaves (pg_nodes g))))"
proof (cases "int (length (pg_nodes g)) \<le> evict_target (pg_cap g)")
  case True
  then show ?thesis by (simp add: evicted_def evictLocked_def)
next
  case False
  let ?ls = "map fst (sort_key snd (tree_leaves (pg_nodes g)))"
  have "distinct (map fst (tree_leaves (pg_nodes g)))"
    unfolding tree_leaves_filter by (rule distinct_map_filter [OF wf])
  then have d: "distinct ?ls" by (simp add: distinct_map)
  have s: "set ?ls \<subseteq> fst ` set (pg_nodes g)"
    by (force simp: tree_leaves_member)
  have big: "evict_target (pg_cap g) < int (length (pg_nodes g))" using False by simp
  have "evicted g = set (take (length (pg_nodes g) - nat (evict_target (pg_cap g))) ?ls)"
    using False double_diff [OF subset_trans [OF set_take_subset s] subset_refl]
    unfolding evicted_def evictLocked_def Let_def by (simp add: evict_leaves_keys [OF wf d s target big] del: set_map set_take_subset)
  then show ?thesis by (simp only: take_map set_map)
qed

lemma evict_target_bounds: "0 < cap \<Longrightarrow> 0 \<le> evict_target cap \<and> evict_target cap \<le> cap"
  by (simp add: evict_target_def signed_divide_int_def) presburger

text \<open>
  C24: eviction takes the oldest leaves and no more than it needs. In a graph with distinct process
  numbers and a positive capacity, an evicted process has no children, every childless process that
  stays had its last event no earlier than every evicted one, and the number of evicted processes is the
  excess over nine tenths of the capacity, or all leaves if there are fewer.
\<close>

theorem eviction_takes_oldest_leaves:
  assumes wf: "go_wf (pg_nodes g)" and cap: "0 < pg_cap g"
  shows "(\<forall>p \<in> evicted g. \<exists>n. go_get (pg_nodes g) p = Some n \<and> nd_Children n = [] \<and>
            (\<forall>q m. go_get (pg_nodes g) q = Some m \<longrightarrow> nd_Children m = [] \<longrightarrow> q \<notin> evicted g \<longrightarrow>
               nd_LastEvent n \<le> nd_LastEvent m))
       \<and> card (evicted g) = min (length (tree_leaves (pg_nodes g))) (Graph_Count g - nat (evict_target (pg_cap g)))"
proof -
  let ?s = "sort_key snd (tree_leaves (pg_nodes g))"
  let ?k = "length (pg_nodes g) - nat (evict_target (pg_cap g))"
  have ev: "evicted g = fst ` set (take ?k ?s)"
    using evicted_prefix [OF wf] evict_target_bounds [OF cap] by blast
  have get: "go_get (pg_nodes g) p = Some n \<longleftrightarrow> (p, n) \<in> set (pg_nodes g)" for p n
    using go_in_iff [OF wf] by blast
  have old: "nd_LastEvent n \<le> nd_LastEvent m"
    if p: "(p, nd_LastEvent n) \<in> set (take ?k ?s)" and q: "(q, m) \<in> set (pg_nodes g)" "nd_Children m = []" "q \<notin> evicted g"
    for p q n m
  proof -
    have "(q, nd_LastEvent m) \<in> set ?s" unfolding set_sort tree_leaves_member using q(1,2) by blast
    moreover have "(q, nd_LastEvent m) \<notin> set (take ?k ?s)" using q(3) unfolding ev by (rule contrapos_nn) (erule image_eqI [rotated], simp)
    ultimately have "(q, nd_LastEvent m) \<in> set (drop ?k ?s)" by (rule take_or_drop)
    then have m: "snd (q, nd_LastEvent m) \<in> set (drop ?k (map snd ?s))" unfolding drop_map set_map by (rule imageI)
    have n: "snd (p, nd_LastEvent n) \<in> set (take ?k (map snd ?s))" unfolding take_map set_map using p by (rule imageI)
    have "sorted (map snd ?s)" by simp
    from sorted_take_drop [OF this n m] show ?thesis by simp
  qed
  have "\<exists>n. (p, n) \<in> set (pg_nodes g) \<and> nd_Children n = [] \<and>
      (\<forall>q m. (q, m) \<in> set (pg_nodes g) \<longrightarrow> nd_Children m = [] \<longrightarrow> q \<notin> evicted g \<longrightarrow> nd_LastEvent n \<le> nd_LastEvent m)"
    if p: "p \<in> evicted g" for p
  proof -
    obtain t where t: "(p, t) \<in> set (take ?k ?s)" using p unfolding ev by auto
    have "(p, t) \<in> set ?s" by (rule in_set_takeD [OF t])
    then have "(p, t) \<in> set (tree_leaves (pg_nodes g))" by simp
    then obtain n where n: "(p, n) \<in> set (pg_nodes g)" "nd_Children n = []" "nd_LastEvent n = t"
      unfolding tree_leaves_member by blast
    show ?thesis using n t old [of p n] by blast
  qed
  moreover have "distinct (map fst (take ?k ?s))"
  proof -
    have "distinct (map fst (tree_leaves (pg_nodes g)))"
      unfolding tree_leaves_filter by (rule distinct_map_filter [OF wf])
    then have "distinct (map fst ?s)" by (simp add: distinct_map)
    then show ?thesis by (simp add: take_map [symmetric])
  qed
  then have "card (evicted g) = length (take ?k ?s)"
    using distinct_card [of "map fst (take ?k ?s)"] unfolding ev by (simp only: length_map set_map)
  ultimately show ?thesis unfolding get Graph_Count_def by (simp add: min.commute)
qed

theorem eviction_takes_oldest_leaves_witness:
  "let g = \<lparr>pg_nodes = [(5, test_node 5 1 0), (6, (test_node 6 5 0)\<lparr>nd_LastEvent := 4\<rparr>)], pg_cap = 1\<rparr>
   in go_wf (pg_nodes g) \<and> 0 < pg_cap g \<and> card (evicted g) = 1"
proof -
  let ?g = "\<lparr>pg_nodes = [(5, test_node 5 1 0), (6, (test_node 6 5 0)\<lparr>nd_LastEvent := 4\<rparr>)], pg_cap = 1\<rparr>"
  have "go_wf (pg_nodes ?g)" "0 < pg_cap ?g" by simp_all
  from eviction_takes_oldest_leaves [OF this]
  have "card (evicted ?g) = min (length (tree_leaves (pg_nodes ?g))) (Graph_Count ?g - nat (evict_target (pg_cap ?g)))"
    by blast
  also have "\<dots> = 1" by (simp add: tree_leaves_def test_node_def Graph_Count_def evict_target_def signed_divide_int_def)
  finally show ?thesis by simp
qed

subsection \<open>Ancestors\<close>

lemma walk_up_length: "length (walk_up d p nodes) \<le> d"
  by (induction d p nodes rule: walk_up.induct) (auto split: option.split)

lemma walk_up_hd: "walk_up (Suc d) p nodes \<noteq> [] \<longleftrightarrow> go_get nodes p \<noteq> None"
  by (simp split: option.split)

lemma walk_up_linked:
  "Suc k < length (walk_up d p nodes) \<Longrightarrow> go_get nodes (nd_PPID (walk_up d p nodes ! k)) = Some (walk_up d p nodes ! Suc k)"
proof (induction d p nodes arbitrary: k rule: walk_up.induct)
  case (2 d cur nodes)
  then obtain n where n: "go_get nodes cur = Some n" "\<not> (nd_PPID n = 0 \<or> nd_PPID n = cur)"
    by (cases "go_get nodes cur") (auto split: if_splits)
  show ?case
  proof (cases k)
    case 0
    have "walk_up d (nd_PPID n) nodes \<noteq> []" using 2(2) n 0 by simp
    then obtain e m where "d = Suc e" "go_get nodes (nd_PPID n) = Some m"
      by (cases d; cases "go_get nodes (nd_PPID n)") simp_all
    then show ?thesis using n 0 by simp
  next
    case (Suc j)
    then show ?thesis using 2(1) [OF n, of j] 2(2) n by simp
  qed
qed simp

lemma walk_up_complete:
  "walk_up d p nodes \<noteq> [] \<Longrightarrow> length (walk_up d p nodes) < d \<Longrightarrow>
     let n = last (walk_up d p nodes) in nd_PPID n = 0 \<or> go_get nodes (nd_PPID n) = None \<or> go_get nodes (nd_PPID n) = Some n"
proof (induction d p nodes rule: walk_up.induct)
  case (2 d cur nodes)
  then obtain n where n: "go_get nodes cur = Some n" by (cases "go_get nodes cur") auto
  show ?case
  proof (cases "nd_PPID n = 0 \<or> nd_PPID n = cur")
    case True
    then show ?thesis using n by (auto simp: Let_def)
  next
    case False
    show ?thesis
    proof (cases "walk_up d (nd_PPID n) nodes = []")
      case True
      then have "go_get nodes (nd_PPID n) = None" using 2(3) n False by (cases d) (auto split: option.splits)
      then show ?thesis using n False True by (simp add: Let_def)
    next
      case nonempty: False
      then show ?thesis using 2(1) [OF n False nonempty] 2(3) n False by (simp add: Let_def)
    qed
  qed
qed simp

text \<open>
  Ancestors lists at most sixteen processes, each the parent of the one before, and stops early only at
  a process without a known parent, or at one that names itself.
\<close>

lemma Ancestors_chain:
  "\<exists>ns. Ancestors p depth g = map proc_node ns \<and> length ns \<le> 16 \<and> (0 < depth \<longrightarrow> int (length ns) \<le> depth)
     \<and> (ns = [] \<longleftrightarrow> go_get (pg_nodes g) p = None) \<and> (ns \<noteq> [] \<longrightarrow> go_get (pg_nodes g) p = Some (hd ns))
     \<and> (\<forall>k. Suc k < length ns \<longrightarrow> go_get (pg_nodes g) (nd_PPID (ns ! k)) = Some (ns ! Suc k))"
proof -
  let ?d = "if depth \<le> 0 \<or> 16 < depth then 16 else nat depth"
  obtain e where e: "?d = Suc e" by (cases ?d) (auto split: if_splits)
  have "length (walk_up ?d p (pg_nodes g)) \<le> ?d" by (rule walk_up_length)
  then have "length (walk_up ?d p (pg_nodes g)) \<le> 16 \<and> (0 < depth \<longrightarrow> int (length (walk_up ?d p (pg_nodes g))) \<le> depth)"
    by (auto split: if_splits)
  moreover have "walk_up ?d p (pg_nodes g) \<noteq> [] \<longrightarrow> go_get (pg_nodes g) p = Some (hd (walk_up ?d p (pg_nodes g)))"
    unfolding e by (simp split: option.split)
  ultimately show ?thesis
    using walk_up_hd [of e p "pg_nodes g"] walk_up_linked [of _ ?d p "pg_nodes g"] unfolding Ancestors_def e
    by (intro exI [of _ "walk_up (Suc e) p (pg_nodes g)"]) blast
qed

end
