(* ===== verification/EvidenceChain.thy ===== *)
theory EvidenceChain
  imports Lineage EventModel
begin

text \<open>
  The tamper-evident event log, \<^verbatim>\<open>pkg/chain/chain.go\<close>: events are gathered into batches, each written to a
  file whose header carries the hash of the batch before it and a signature.

  SHA-256, Ed25519 and the JSON encoding of an event are parameters, kept in the record \<open>Crypto\<close>. A
  private key is \<open>None\<close> when empty, and otherwise a value of the length the library requires. The
  directory is a map from file names to contents; the outcome of a write, and which files can be
  removed, are arguments. Fixed-size Go arrays are byte lists of that length.
\<close>

type_synonym bytes = "u8 list"

record Crypto =
  cr_Sum256 :: "bytes \<Rightarrow> bytes"
  cr_Sign :: "bytes \<Rightarrow> bytes \<Rightarrow> bytes"
  cr_Verify :: "bytes \<Rightarrow> bytes \<Rightarrow> bytes \<Rightarrow> bool"
  cr_Public :: "bytes \<Rightarrow> bytes"
  cr_Marshal :: "Event \<Rightarrow> bytes option"

record BatchHeader =
  bh_BatchID :: u64
  bh_StartTime :: gotime
  bh_EndTime :: gotime
  bh_EventCount :: u32
  bh_PrevHash :: bytes
  bh_BodyHash :: bytes
  bh_Signature :: bytes
  bh_HostKeyID :: bytes

record EvChain =
  ch_BatchCap :: int
  ch_BodyCap :: int
  ch_Interval :: duration
  ch_PrivKey :: bytes
  ch_HostKeyID :: bytes
  ch_MaxBatches :: int
  ch_current :: "Event list"
  ch_bodyBytes :: int
  ch_nextBatchID :: u64
  ch_prevHash :: bytes

subsection \<open>Files\<close>

text \<open>
  A directory may be missing, unreadable, or hold files, files that cannot be opened, and directories.
\<close>

datatype dirent = File bytes | Locked | Subdir

type_synonym files = "(string, dirent) gomap"

datatype folder = NotExist | Denied | Folder files

datatype chain_failure = KeyRequired | MkdirFailed | ListFailed | OpenFailed | ReadFailed | MarshalFailed | WriteFailed

text \<open>The names are kept without the directory, which is the same for all of them.\<close>

definition is_batch :: "string \<times> dirent \<Rightarrow> bool" where
  "is_batch e \<longleftrightarrow> snd e \<noteq> Subdir \<and> suffix ''.bin'' (fst e) \<and> \<not> suffix ''.tmp'' (fst e)"

definition batch_names :: "files \<Rightarrow> string list" where
  "batch_names fs = sort (map fst (filter is_batch fs))"

primrec batchFiles :: "folder \<Rightarrow> chain_failure + string list" where
  "batchFiles NotExist = Inr []"
| "batchFiles Denied = Inl ListFailed"
| "batchFiles (Folder fs) = Inr (batch_names fs)"

primrec hex_digits :: "nat \<Rightarrow> nat \<Rightarrow> string" where
  "hex_digits 0 n = []"
| "hex_digits (Suc k) n = hex_digits k (n div 16) @ [''0123456789abcdef'' ! (n mod 16)]"

definition batch_name :: "u64 \<Rightarrow> string" where
  "batch_name i = hex_digits 16 (unat i) @ ''.bin''"

subsection \<open>Encoding\<close>

definition put_u32 :: "u32 \<Rightarrow> bytes" where
  "put_u32 w = map (\<lambda>i. ucast (drop_bit (8 * i) w)) [0..<4]"

definition get_u32 :: "bytes \<Rightarrow> u32" where
  "get_u32 bs = foldr (\<lambda>b w. push_bit 8 w OR ucast b) (take 4 bs) 0"

abbreviation unix_epoch :: int where "unix_epoch \<equiv> 62135596800000000000"

definition UnixNano :: "gotime \<Rightarrow> u64" where
  "UnixNano t = of_int (t - unix_epoch)"

definition time_Unix :: "u64 \<Rightarrow> gotime" where
  "time_Unix w = sint w + unix_epoch"

definition headerBytes :: "BatchHeader \<Rightarrow> bytes" where
  "headerBytes h =
     put_u64 (bh_BatchID h) @ put_u64 (UnixNano (bh_StartTime h)) @ put_u64 (UnixNano (bh_EndTime h)) @
     put_u32 (bh_EventCount h) @ bh_PrevHash h @ bh_BodyHash h @ bh_Signature h @ bh_HostKeyID h"

text \<open>
  \<^verbatim>\<open>binary.Read\<close> leaves its target zero when the input is too short; \<^verbatim>\<open>io.ReadFull\<close> then fills a part of
  it. Either way the input is used up.
\<close>

definition read_u64 :: "bytes \<Rightarrow> u64 \<times> bytes" where
  "read_u64 r = (if length r < 8 then (0, []) else (get_u64 r, drop 8 r))"

definition read_u32 :: "bytes \<Rightarrow> u32 \<times> bytes" where
  "read_u32 r = (if length r < 4 then (0, []) else (get_u32 r, drop 4 r))"

definition read_array :: "nat \<Rightarrow> bytes \<Rightarrow> bytes \<times> bytes" where
  "read_array n r = (take n r @ replicate (n - length r) 0, drop n r)"

definition decodeHeader :: "bytes \<Rightarrow> BatchHeader" where
  "decodeHeader b =
     (let (i, r1) = read_u64 b; (startNs, r2) = read_u64 r1; (endNs, r3) = read_u64 r2; (n, r4) = read_u32 r3;
          (prev, r5) = read_array 32 r4; (body, r6) = read_array 32 r5; (sig, r7) = read_array 64 r6;
          (key, r8) = read_array 16 r7
      in \<lparr>bh_BatchID = i, bh_StartTime = time_Unix startNs, bh_EndTime = time_Unix endNs, bh_EventCount = n,
          bh_PrevHash = prev, bh_BodyHash = body, bh_Signature = sig, bh_HostKeyID = key\<rparr>)"

definition batch_file :: "BatchHeader \<Rightarrow> bytes \<Rightarrow> bytes" where
  "batch_file h body =
     put_u32 (of_nat (length (headerBytes h))) @ headerBytes h @ put_u32 (of_nat (length body)) @ body"

definition split_batch :: "bytes \<Rightarrow> chain_failure + BatchHeader \<times> bytes" where
  "split_batch f =
     (let hLen = unat (get_u32 f); r1 = drop 4 f; r2 = drop hLen r1; bLen = unat (get_u32 r2); r3 = drop 4 r2 in
      if length f < 4 \<or> length r1 < hLen \<or> length r2 < 4 \<or> length r3 < bLen then Inl ReadFailed
      else Inr (decodeHeader (take hLen r1), take bLen r3))"

definition readBatch :: "files \<Rightarrow> string \<Rightarrow> chain_failure + BatchHeader \<times> bytes" where
  "readBatch fs name = (case go_get fs name of Some (File f) \<Rightarrow> split_batch f | _ \<Rightarrow> Inl OpenFailed)"

text \<open>The outcomes of a write: no temporary file, one left behind with some content, or success.\<close>

datatype write_outcome = NoTemp | LeftTemp bytes | Written

definition writeBatch :: "write_outcome \<Rightarrow> string \<Rightarrow> BatchHeader \<Rightarrow> bytes \<Rightarrow> files \<Rightarrow> files \<times> chain_failure option" where
  "writeBatch w name h body fs =
     (case w of
        NoTemp \<Rightarrow> (fs, Some WriteFailed)
      | LeftTemp part \<Rightarrow> (go_set (name @ ''.tmp'') (File part) fs, Some WriteFailed)
      | Written \<Rightarrow> (go_set name (File (batch_file h body)) (go_del (name @ ''.tmp'') fs), None))"

definition encodeBody :: "Crypto \<Rightarrow> Event list \<Rightarrow> bytes" where
  "encodeBody cr evs = concat (map (\<lambda>ev. case cr_Marshal cr ev of None \<Rightarrow> [] | Some b \<Rightarrow> b @ [10]) evs)"

subsection \<open>The chain\<close>

definition zeroHash :: bytes where
  "zeroHash = replicate 32 0"

definition batch_hash :: "Crypto \<Rightarrow> BatchHeader \<Rightarrow> bytes \<Rightarrow> bytes" where
  "batch_hash cr h body = cr_Sum256 cr (headerBytes h @ body)"

definition keyIDFor :: "Crypto \<Rightarrow> bytes \<Rightarrow> bytes" where
  "keyIDFor cr priv = take 16 (cr_Sum256 cr (cr_Public cr priv))"

definition batch_header :: "Crypto \<Rightarrow> gotime \<Rightarrow> EvChain \<Rightarrow> bytes \<Rightarrow> BatchHeader" where
  "batch_header cr now c body =
     (let start = ev_Time (hd (ch_current c)); end = ev_Time (last (ch_current c)); bodyHash = cr_Sum256 cr body in
      \<lparr>bh_BatchID = ch_nextBatchID c, bh_StartTime = (if start = 0 then now else start),
       bh_EndTime = (if end = 0 then now else end), bh_EventCount = of_nat (length (ch_current c)),
       bh_PrevHash = ch_prevHash c, bh_BodyHash = bodyHash,
       bh_Signature = fst (read_array 64 (cr_Sign cr (ch_PrivKey c) (ch_prevHash c @ bodyHash))),
       bh_HostKeyID = ch_HostKeyID c\<rparr>)"

definition rotateLocked :: "(string \<Rightarrow> bool) \<Rightarrow> int \<Rightarrow> files \<Rightarrow> files" where
  "rotateLocked removable maxBatches fs =
     (let names = batch_names fs; excess = int (length names) - maxBatches in
      if excess \<le> 0 then fs
      else filter (\<lambda>e. \<not> (fst e \<in> set (take (nat excess) names) \<and> removable (fst e))) fs)"

record disk =
  dk_now :: gotime
  dk_write :: write_outcome
  dk_removable :: "string \<Rightarrow> bool"

definition finaliseLocked :: "Crypto \<Rightarrow> disk \<Rightarrow> EvChain \<times> files \<Rightarrow> (EvChain \<times> files) \<times> chain_failure option" where
  "finaliseLocked cr d s = (case s of (c, fs) \<Rightarrow>
     if ch_current c = [] then (s, None)
     else
       let body = encodeBody cr (ch_current c); h = batch_header cr (dk_now d) c body in
       case writeBatch (dk_write d) (batch_name (bh_BatchID h)) h body fs of
         (fs1, Some e) \<Rightarrow> ((c, fs1), Some e)
       | (fs1, None) \<Rightarrow>
           let c1 = c\<lparr>ch_prevHash := batch_hash cr h body, ch_nextBatchID := ch_nextBatchID c + 1,
                      ch_current := [], ch_bodyBytes := 0\<rparr>
           in ((c1, if 0 < ch_MaxBatches c then rotateLocked (dk_removable d) (ch_MaxBatches c) fs1 else fs1), None))"

definition Chain_Add :: "Crypto \<Rightarrow> disk \<Rightarrow> Event \<Rightarrow> EvChain \<times> files \<Rightarrow> (EvChain \<times> files) \<times> chain_failure option" where
  "Chain_Add cr d ev s = (case s of (c, fs) \<Rightarrow>
     case cr_Marshal cr ev of
       None \<Rightarrow> (s, Some MarshalFailed)
     | Some body \<Rightarrow>
         let c1 = c\<lparr>ch_current := ch_current c @ [ev], ch_bodyBytes := wrap64 (ch_bodyBytes c + int (length body) + 1)\<rparr>
         in if ch_BatchCap c \<le> int (length (ch_current c1)) \<or> ch_BodyCap c \<le> ch_bodyBytes c1
            then finaliseLocked cr d (c1, fs) else ((c1, fs), None))"

definition Chain_Tick :: "Crypto \<Rightarrow> disk \<Rightarrow> EvChain \<times> files \<Rightarrow> (EvChain \<times> files) \<times> chain_failure option" where
  "Chain_Tick cr d s = (if ch_current (fst s) = [] then (s, None) else finaliseLocked cr d s)"

definition Chain_resume :: "Crypto \<Rightarrow> folder \<Rightarrow> EvChain \<Rightarrow> chain_failure + EvChain" where
  "Chain_resume cr dir c =
     (case batchFiles dir of
        Inl e \<Rightarrow> Inl e
      | Inr names \<Rightarrow>
          if names = [] then Inr c
          else case dir of
                 Folder fs \<Rightarrow>
                   (case readBatch fs (last names) of
                      Inl e \<Rightarrow> Inl e
                    | Inr (h, body) \<Rightarrow>
                        Inr (c\<lparr>ch_nextBatchID := bh_BatchID h + 1, ch_prevHash := batch_hash cr h body\<rparr>))
               | _ \<Rightarrow> Inr c)"

definition Chain_New :: "Crypto \<Rightarrow> bool \<Rightarrow> folder \<Rightarrow> bytes option \<Rightarrow> chain_failure + EvChain" where
  "Chain_New cr made dir privKey =
     (case privKey of
        None \<Rightarrow> Inl KeyRequired
      | Some key \<Rightarrow>
          if \<not> made then Inl MkdirFailed
          else Chain_resume cr (if dir = NotExist then Folder [] else dir)
                 \<lparr>ch_BatchCap = 10000, ch_BodyCap = 4 * 1024 * 1024, ch_Interval = 60 * 1000000000, ch_PrivKey = key,
                  ch_HostKeyID = keyIDFor cr key, ch_MaxBatches = 0, ch_current = [], ch_bodyBytes = 0,
                  ch_nextBatchID = 0, ch_prevHash = zeroHash\<rparr>)"

subsection \<open>Verification\<close>

datatype verify_failure = ListError chain_failure | ReadError string chain_failure | PrevHashMismatch u64
  | BodyHashMismatch u64 | SignatureInvalid u64

fun verify_from :: "Crypto \<Rightarrow> bytes \<Rightarrow> files \<Rightarrow> nat \<Rightarrow> bytes \<Rightarrow> string list \<Rightarrow> nat \<times> verify_failure option" where
  "verify_from cr pub fs i prevHash [] = (i, None)"
| "verify_from cr pub fs i prevHash (f # names) =
     (case readBatch fs f of
        Inl e \<Rightarrow> (i, Some (ReadError f e))
      | Inr (h, body) \<Rightarrow>
          if bh_PrevHash h \<noteq> prevHash then (i, Some (PrevHashMismatch (bh_BatchID h)))
          else if cr_Sum256 cr body \<noteq> bh_BodyHash h then (i, Some (BodyHashMismatch (bh_BatchID h)))
          else if \<not> cr_Verify cr pub (bh_PrevHash h @ bh_BodyHash h) (bh_Signature h)
          then (i, Some (SignatureInvalid (bh_BatchID h)))
          else verify_from cr pub fs (Suc i) (batch_hash cr h body) names)"

definition Chain_Verify :: "Crypto \<Rightarrow> bytes \<Rightarrow> folder \<Rightarrow> nat \<times> verify_failure option" where
  "Chain_Verify cr pub dir =
     (case batchFiles dir of
        Inl e \<Rightarrow> (0, Some (ListError e))
      | Inr names \<Rightarrow> verify_from cr pub (case dir of Folder fs \<Rightarrow> fs | _ \<Rightarrow> []) 0 zeroHash names)"

subsection \<open>Headers and files are read back\<close>

definition header_ok :: "BatchHeader \<Rightarrow> bool" where
  "header_ok h \<longleftrightarrow> length (bh_PrevHash h) = 32 \<and> length (bh_BodyHash h) = 32 \<and> length (bh_Signature h) = 64 \<and>
     length (bh_HostKeyID h) = 16"

text \<open>A time as it comes back from the file: its nanoseconds since 1970 are kept to 64 bits.\<close>

definition stored :: "BatchHeader \<Rightarrow> BatchHeader" where
  "stored h = h\<lparr>bh_StartTime := time_Unix (UnixNano (bh_StartTime h)), bh_EndTime := time_Unix (UnixNano (bh_EndTime h))\<rparr>"

lemma length_zeroHash [simp]: "length zeroHash = 32"
  by (simp add: zeroHash_def)

lemma length_put_u32 [simp]: "length (put_u32 w) = 4"
  by (simp add: put_u32_def)

lemma get_put_u32 [simp]: "get_u32 (put_u32 w @ bs) = w"
  using put_le_rev [of 0 4 w] by (simp add: get_u32_def put_u32_def)

lemma read_u64_put [simp]: "read_u64 (put_u64 w @ r) = (w, r)"
  by (simp add: read_u64_def)

lemma read_u32_put [simp]: "read_u32 (put_u32 w @ r) = (w, r)"
  by (simp add: read_u32_def)

lemma read_array_append [simp]: "length a = n \<Longrightarrow> read_array n (a @ r) = (a, r)"
  by (simp add: read_array_def)

lemma read_array_exact [simp]: "length a = n \<Longrightarrow> read_array n a = (a, [])"
  by (simp add: read_array_def)

lemma length_read_array [simp]: "length (fst (read_array n r)) = n"
  by (simp add: read_array_def)

lemma decode_header: "header_ok h \<Longrightarrow> decodeHeader (headerBytes h) = stored h"
  by (cases h) (simp add: header_ok_def decodeHeader_def headerBytes_def stored_def Let_def)

lemma UnixNano_time_Unix [simp]: "UnixNano (time_Unix w) = w"
  by (simp add: UnixNano_def time_Unix_def)

lemma headerBytes_stored [simp]: "headerBytes (stored h) = headerBytes h"
  by (simp add: headerBytes_def stored_def)

lemma stored_sel [simp]:
  "bh_BatchID (stored h) = bh_BatchID h" "bh_PrevHash (stored h) = bh_PrevHash h" "bh_BodyHash (stored h) = bh_BodyHash h"
  "bh_Signature (stored h) = bh_Signature h" "bh_HostKeyID (stored h) = bh_HostKeyID h" "bh_EventCount (stored h) = bh_EventCount h"
  by (simp_all add: stored_def)

lemma batch_hash_stored [simp]: "batch_hash cr (stored h) body = batch_hash cr h body"
  by (simp add: batch_hash_def)

lemma length_headerBytes: "header_ok h \<Longrightarrow> length (headerBytes h) = 172"
  by (simp add: headerBytes_def header_ok_def)

lemma split_batch_file:
  assumes "header_ok h" "length body < 2 ^ 32"
  shows "split_batch (batch_file h body) = Inr (stored h, body)"
proof -
  have len: "length (headerBytes h) = 172" using assms(1) by (rule length_headerBytes)
  have "unat (of_nat (length body) :: u32) = length body" using assms(2) by (simp add: unsigned_of_nat take_bit_nat_eq_self)
  then show ?thesis
    using assms(1) len by (simp add: split_batch_def batch_file_def Let_def decode_header)
qed

lemma headerBytes_inj:
  assumes ok: "header_ok h" "header_ok k" and eq: "headerBytes h @ b = headerBytes k @ c"
  shows "stored h = stored k \<and> b = c"
proof -
  have "headerBytes h = headerBytes k" "b = c"
    using eq length_headerBytes [OF ok(1)] length_headerBytes [OF ok(2)] by simp_all
  then show ?thesis using decode_header [OF ok(1)] decode_header [OF ok(2)] by simp
qed

subsection \<open>The names sort by batch number\<close>

lemma length_hex_digits [simp]: "length (hex_digits k n) = k"
  by (induction k arbitrary: n) simp_all

lemma hex_digit_mono: "i < j \<Longrightarrow> j < 16 \<Longrightarrow> ''0123456789abcdef'' ! i < ''0123456789abcdef'' ! j"
proof (rule sorted_wrt_nth_less [of "(<)"])
  show "sorted_wrt (<) ''0123456789abcdef''" by (simp add: less_char_def)
qed simp_all

lemma list_less_append: "length xs = length ys \<Longrightarrow> xs < ys \<Longrightarrow> xs @ us < ys @ vs" for xs :: "'a::linorder list"
  by (induction xs ys rule: list_induct2) auto

lemma list_less_same: "us < vs \<Longrightarrow> xs @ us < xs @ vs" for xs :: "'a::linorder list"
  by (induction xs) auto

lemma hex_digits_mono: "n < m \<Longrightarrow> m < 16 ^ k \<Longrightarrow> hex_digits k n < hex_digits k m"
proof (induction k arbitrary: n m)
  case (Suc k)
  show ?case
  proof (cases "n div 16 < m div 16")
    case True
    moreover have "m div 16 < 16 ^ k" using Suc.prems(2) by (simp add: less_mult_imp_div_less mult.commute)
    ultimately show ?thesis using Suc.IH by (simp add: list_less_append)
  next
    case False
    then have "n div 16 = m div 16" using Suc.prems(1) div_le_mono [of n m 16] by linarith
    moreover from this have "n mod 16 < m mod 16"
      using Suc.prems(1) div_mult_mod_eq [of n 16] div_mult_mod_eq [of m 16] by linarith
    ultimately have "n div 16 = m div 16" "[''0123456789abcdef'' ! (n mod 16)] < [''0123456789abcdef'' ! (m mod 16)]"
      using hex_digit_mono [of "n mod 16" "m mod 16"] by simp_all
    then show ?thesis unfolding hex_digits.simps by (simp only: list_less_same)
  qed
qed simp

lemma batch_name_mono: "i < j \<Longrightarrow> batch_name i < batch_name j"
proof -
  assume "i < j"
  then have "unat i < unat j" by (simp add: word_less_nat_alt)
  moreover have "unat j < 16 ^ 16" using unsigned_less [of j] by simp
  ultimately show ?thesis by (simp add: batch_name_def list_less_append hex_digits_mono)
qed

lemma batch_name_inj [simp]: "batch_name i = batch_name j \<longleftrightarrow> i = j"
  using batch_name_mono [of i j] batch_name_mono [of j i] by (metis less_irrefl neqE)

lemma sorted_batch_names:
  assumes "n \<le> 2 ^ 64"
  shows "sorted (map (\<lambda>i. batch_name (of_nat i)) [0..<n])" "distinct (map (\<lambda>i. batch_name (of_nat i)) [0..<n])"
proof -
  have "batch_name (of_nat i) < batch_name (of_nat j)" if "i < j" "j < n" for i j
    using that assms by (intro batch_name_mono) (simp add: word_less_nat_alt unsigned_of_nat take_bit_nat_eq_self)
  then have "sorted_wrt (<) (map (\<lambda>i. batch_name (of_nat i)) [0..<n])"
    by (simp add: sorted_wrt_iff_nth_less)
  then show "sorted (map (\<lambda>i. batch_name (of_nat i)) [0..<n])" "distinct (map (\<lambda>i. batch_name (of_nat i)) [0..<n])"
    using strict_sorted_iff by auto
qed

subsection \<open>Runs of the chain\<close>

datatype ecall = ECAdd disk Event | ECTick disk | ECRestart

text \<open>A restart opens the directory again with the same key; what was not yet written is lost.\<close>

primrec estep :: "Crypto \<Rightarrow> EvChain \<times> files \<Rightarrow> ecall \<Rightarrow> EvChain \<times> files" where
  "estep cr s (ECAdd d ev) = fst (Chain_Add cr d ev s)"
| "estep cr s (ECTick d) = fst (Chain_Tick cr d s)"
| "estep cr s ECRestart =
     (case Chain_New cr True (Folder (snd s)) (Some (ch_PrivKey (fst s))) of Inl e \<Rightarrow> s | Inr c \<Rightarrow> (c, snd s))"

text \<open>
  The bytes a call may have to write, and a run in which they always fit the 32-bit length of the file
  format. They can outgrow it only if writes keep failing or one event is that large.
\<close>

primrec call_body :: "Crypto \<Rightarrow> EvChain \<times> files \<Rightarrow> ecall \<Rightarrow> bytes" where
  "call_body cr s (ECAdd d ev) = encodeBody cr (ch_current (fst s) @ [ev])"
| "call_body cr s (ECTick d) = encodeBody cr (ch_current (fst s))"
| "call_body cr s ECRestart = []"

primrec fits :: "Crypto \<Rightarrow> EvChain \<times> files \<Rightarrow> ecall list \<Rightarrow> bool" where
  "fits cr s [] \<longleftrightarrow> True"
| "fits cr s (c # cs) \<longleftrightarrow> length (call_body cr s c) < 2 ^ 32 \<and> fits cr (estep cr s c) cs"

definition accepted :: "Crypto \<Rightarrow> ecall \<Rightarrow> Event list" where
  "accepted cr c = (case c of ECAdd d ev \<Rightarrow> if cr_Marshal cr ev = None then [] else [ev] | _ \<Rightarrow> [])"

text \<open>What the code relies on: hashes have 32 bytes, and a signature of the key verifies.\<close>

definition crypto_ok :: "Crypto \<Rightarrow> bytes \<Rightarrow> bool" where
  "crypto_ok cr key \<longleftrightarrow> (\<forall>x. length (cr_Sum256 cr x) = 32) \<and>
     (\<forall>m. length (cr_Sign cr key m) = 64 \<and> cr_Verify cr (cr_Public cr key) m (cr_Sign cr key m))"

text \<open>A list of batches that link up, from a first hash on.\<close>

fun linked :: "Crypto \<Rightarrow> bytes \<Rightarrow> bytes \<Rightarrow> (BatchHeader \<times> bytes) list \<Rightarrow> bool" where
  "linked cr pub prev [] \<longleftrightarrow> True"
| "linked cr pub prev ((h, b) # bs) \<longleftrightarrow>
     bh_PrevHash h = prev \<and> bh_BodyHash h = cr_Sum256 cr b \<and>
     cr_Verify cr pub (bh_PrevHash h @ bh_BodyHash h) (bh_Signature h) \<and> linked cr pub (batch_hash cr h b) bs"

fun head_hash :: "Crypto \<Rightarrow> bytes \<Rightarrow> (BatchHeader \<times> bytes) list \<Rightarrow> bytes" where
  "head_hash cr prev [] = prev"
| "head_hash cr prev ((h, b) # bs) = head_hash cr (batch_hash cr h b) bs"

definition names_upto :: "nat \<Rightarrow> string list" where
  "names_upto n = map (\<lambda>i. batch_name (of_nat i)) [0..<n]"

definition holds_batch :: "files \<Rightarrow> nat \<Rightarrow> BatchHeader \<times> bytes \<Rightarrow> bool" where
  "holds_batch fs i hb \<longleftrightarrow> go_get fs (batch_name (of_nat i)) = Some (File (batch_file (fst hb) (snd hb))) \<and>
     header_ok (fst hb) \<and> length (snd hb) < 2 ^ 32 \<and> bh_BatchID (fst hb) = of_nat i"

definition on_disk :: "files \<Rightarrow> (BatchHeader \<times> bytes) list \<Rightarrow> bool" where
  "on_disk fs bs \<longleftrightarrow> go_wf fs \<and> (\<forall>name e. go_get fs name = Some e \<longrightarrow> is_batch (name, e) \<longrightarrow> name \<in> set (names_upto (length bs)))
     \<and> (\<forall>i < length bs. holds_batch fs i (bs ! i))"

definition chain_ok :: "Crypto \<Rightarrow> bytes \<Rightarrow> (BatchHeader \<times> bytes) list \<Rightarrow> EvChain \<times> files \<Rightarrow> bool" where
  "chain_ok cr key bs s \<longleftrightarrow> on_disk (snd s) bs \<and> linked cr (cr_Public cr key) zeroHash bs \<and>
     ch_PrivKey (fst s) = key \<and> ch_HostKeyID (fst s) = keyIDFor cr key \<and> ch_MaxBatches (fst s) = 0 \<and>
     ch_nextBatchID (fst s) = of_nat (length bs) \<and> ch_prevHash (fst s) = head_hash cr zeroHash bs"

lemma linked_snoc:
  "linked cr pub prev (bs @ [(h, b)]) \<longleftrightarrow> linked cr pub prev bs \<and> linked cr pub (head_hash cr prev bs) [(h, b)]"
  by (induction cr pub prev bs rule: linked.induct) simp_all

lemma head_hash_snoc [simp]: "head_hash cr prev (bs @ [(h, b)]) = batch_hash cr h b"
  by (induction cr prev bs rule: head_hash.induct) simp_all

lemma length_head_hash: "(\<And>x. length (cr_Sum256 cr x) = 32) \<Longrightarrow> length prev = 32 \<Longrightarrow> length (head_hash cr prev bs) = 32"
  by (induction cr prev bs rule: head_hash.induct) (simp_all add: batch_hash_def)

lemma is_batch_name [simp]: "is_batch (batch_name i, File f)"
  by (auto simp: is_batch_def batch_name_def suffix_def)

lemma temp_name [simp]: "\<not> is_batch (batch_name i @ ''.tmp'', e)"
  by (auto simp: is_batch_def suffix_def)

lemma temp_neq [simp]: "batch_name i @ ''.tmp'' \<noteq> batch_name j" "batch_name j \<noteq> batch_name i @ ''.tmp''"
  using is_batch_name [of j "[]"] temp_name [of i "File []"] by metis+

lemma on_disk_names:
  assumes "on_disk fs bs" "length bs \<le> 2 ^ 64"
  shows "batch_names fs = names_upto (length bs)"
proof (rule sorted_distinct_set_unique)
  have wf: "go_wf fs" using assms(1) by (simp add: on_disk_def)
  show "sorted (batch_names fs)" by (simp add: batch_names_def)
  show "distinct (batch_names fs)" unfolding batch_names_def distinct_sort by (rule distinct_map_filter [OF wf])
  show "sorted (names_upto (length bs))" "distinct (names_upto (length bs))"
    unfolding names_upto_def by (rule sorted_batch_names [OF assms(2)])+
  have "name \<in> set (names_upto (length bs))" if n: "name \<in> set (batch_names fs)" for name
  proof -
    obtain e where "(name, e) \<in> set fs" "is_batch (name, e)" using n by (auto simp: batch_names_def)
    then show ?thesis using assms(1) go_in_iff [OF wf] unfolding on_disk_def by blast
  qed
  moreover have "name \<in> set (batch_names fs)" if n: "name \<in> set (names_upto (length bs))" for name
  proof -
    obtain i where i: "i < length bs" "name = batch_name (of_nat i)" using n by (auto simp: names_upto_def)
    then obtain f where "(name, File f) \<in> set fs"
      using assms(1) go_in_iff [OF wf] unfolding on_disk_def holds_batch_def by blast
    then show ?thesis using i by (force simp: batch_names_def)
  qed
  ultimately show "set (batch_names fs) = set (names_upto (length bs))" by blast
qed

lemma on_disk_read:
  "on_disk fs bs \<Longrightarrow> i < length bs \<Longrightarrow>
     readBatch fs (batch_name (of_nat i)) = Inr (stored (fst (bs ! i)), snd (bs ! i))"
  by (simp add: on_disk_def holds_batch_def readBatch_def split_batch_file del: map_of_eq_Some_iff)

lemma on_disk_temp: "on_disk fs bs \<Longrightarrow> on_disk (go_set (batch_name i @ ''.tmp'') (File p) fs) bs"
  by (auto simp: on_disk_def holds_batch_def simp del: map_of_eq_Some_iff split: if_splits)

lemma names_upto_Suc: "set (names_upto (Suc n)) = insert (batch_name (of_nat n)) (set (names_upto n))"
  by (simp add: names_upto_def)

lemma of_nat_u64_inj: "i < 2 ^ 64 \<Longrightarrow> j < 2 ^ 64 \<Longrightarrow> (of_nat i :: u64) = of_nat j \<longleftrightarrow> i = j"
  by (simp add: word_of_nat_eq_iff take_bit_nat_eq_self)

lemma on_disk_write:
  assumes ok: "on_disk fs bs" and n: "length bs < 2 ^ 64" and h: "header_ok h" "bh_BatchID h = of_nat (length bs)"
    and b: "length b < 2 ^ 32"
  shows "on_disk (go_set (batch_name (of_nat (length bs))) (File (batch_file h b))
           (go_del (batch_name (of_nat (length bs)) @ ''.tmp'') fs)) (bs @ [(h, b)])" (is "on_disk ?fs _")
proof -
  have get: "go_get ?fs name = (if name = batch_name (of_nat (length bs)) then Some (File (batch_file h b))
      else if name = batch_name (of_nat (length bs)) @ ''.tmp'' then None else go_get fs name)" for name
    by simp
  have "holds_batch ?fs i ((bs @ [(h, b)]) ! i)" if i: "i < Suc (length bs)" for i
  proof (cases "i = length bs")
    case True
    then show ?thesis unfolding holds_batch_def get using h b by simp
  next
    case False
    then have "(of_nat i :: u64) \<noteq> of_nat (length bs)" using i n of_nat_u64_inj [of i "length bs"] by simp
    moreover have "holds_batch fs i (bs ! i)" using ok False i unfolding on_disk_def by simp
    ultimately show ?thesis unfolding holds_batch_def get using False i by (simp add: nth_append)
  qed
  moreover have "go_wf ?fs" using ok by (simp add: on_disk_def)
  moreover have "name \<in> set (names_upto (Suc (length bs)))" if "go_get ?fs name = Some e" "is_batch (name, e)" for name e
    using that ok unfolding get names_upto_Suc on_disk_def by (auto split: if_splits simp del: map_of_eq_Some_iff)
  ultimately show ?thesis unfolding on_disk_def by simp
qed

definition advances :: "Crypto \<Rightarrow> bytes \<Rightarrow> (BatchHeader \<times> bytes) list \<Rightarrow> bytes \<Rightarrow> EvChain \<times> files \<Rightarrow> bool" where
  "advances cr key bs pending s \<longleftrightarrow>
     (\<exists>new. chain_ok cr key (bs @ new) s \<and> length new \<le> 1 \<and> concat (map snd new) @ encodeBody cr (ch_current (fst s)) = pending)"

lemma batch_header_sel [simp]:
  "bh_BatchID (batch_header cr now c b) = ch_nextBatchID c" "bh_PrevHash (batch_header cr now c b) = ch_prevHash c"
  "bh_BodyHash (batch_header cr now c b) = cr_Sum256 cr b" "bh_HostKeyID (batch_header cr now c b) = ch_HostKeyID c"
  "bh_Signature (batch_header cr now c b) = fst (read_array 64 (cr_Sign cr (ch_PrivKey c) (ch_prevHash c @ cr_Sum256 cr b)))"
  by (simp_all add: batch_header_def Let_def)

lemma batch_header_ok:
  assumes "crypto_ok cr key" "chain_ok cr key bs (c, fs)"
  shows "header_ok (batch_header cr now c b)"
proof -
  have "length (ch_prevHash c) = 32"
    using assms length_head_hash [of cr zeroHash bs] by (simp add: chain_ok_def crypto_ok_def)
  then show ?thesis using assms by (simp add: header_ok_def chain_ok_def keyIDFor_def crypto_ok_def)
qed

lemma finalise_ok:
  assumes cr: "crypto_ok cr key" and ok: "chain_ok cr key bs (c, fs)" and n: "length bs < 2 ^ 64"
    and b: "length (encodeBody cr (ch_current c)) < 2 ^ 32"
  shows "advances cr key bs (encodeBody cr (ch_current c)) (fst (finaliseLocked cr d (c, fs)))"
proof (cases "ch_current c = [] \<or> dk_write d \<noteq> Written")
  case True
  then have "\<exists>fs1. fst (finaliseLocked cr d (c, fs)) = (c, fs1) \<and> chain_ok cr key bs (c, fs1)"
    using ok by (cases "dk_write d") (auto simp: finaliseLocked_def writeBatch_def Let_def chain_ok_def on_disk_temp)
  then show ?thesis by (auto simp: advances_def intro!: exI [of _ "[]"])
next
  case False
  let ?b = "encodeBody cr (ch_current c)" and ?h = "batch_header cr (dk_now d) c (encodeBody cr (ch_current c))"
  have h: "header_ok ?h" by (rule batch_header_ok [OF cr ok])
  have disk: "on_disk (snd (fst (finaliseLocked cr d (c, fs)))) (bs @ [(?h, ?b)])"
    using False ok on_disk_write [OF _ n h _ b] by (simp add: finaliseLocked_def writeBatch_def Let_def chain_ok_def)
  have "linked cr (cr_Public cr key) zeroHash (bs @ [(?h, ?b)])"
    using ok cr by (simp add: linked_snoc chain_ok_def crypto_ok_def)
  then have "chain_ok cr key (bs @ [(?h, ?b)]) (fst (finaliseLocked cr d (c, fs)))"
    using False ok disk by (simp add: finaliseLocked_def writeBatch_def Let_def chain_ok_def)
  then show ?thesis
    using False by (auto simp: advances_def finaliseLocked_def writeBatch_def Let_def encodeBody_def intro!: exI [of _ "[(?h, ?b)]"])
qed

lemma chain_ok_current: "chain_ok cr key bs (c\<lparr>ch_current := evs, ch_bodyBytes := k\<rparr>, fs) = chain_ok cr key bs (c, fs)"
  by (simp add: chain_ok_def)

lemma encodeBody_append: "encodeBody cr (xs @ ys) = encodeBody cr xs @ encodeBody cr ys"
  by (simp add: encodeBody_def)

lemma advances_refl: "chain_ok cr key bs s \<Longrightarrow> advances cr key bs (encodeBody cr (ch_current (fst s))) s"
  by (auto simp: advances_def intro!: exI [of _ "[]"])

lemma Add_ok:
  assumes "crypto_ok cr key" "chain_ok cr key bs s" "length bs < 2 ^ 64" "length (call_body cr s (ECAdd d ev)) < 2 ^ 32"
  shows "advances cr key bs (encodeBody cr (ch_current (fst s) @ accepted cr (ECAdd d ev))) (estep cr s (ECAdd d ev))"
proof (cases "cr_Marshal cr ev")
  case None
  then show ?thesis using advances_refl [OF assms(2)] by (cases s) (simp add: Chain_Add_def accepted_def)
next
  case (Some b)
  obtain c fs where s: "s = (c, fs)" by (cases s)
  let ?c = "c\<lparr>ch_current := ch_current c @ [ev], ch_bodyBytes := wrap64 (ch_bodyBytes c + int (length b) + 1)\<rparr>"
  have ok: "chain_ok cr key bs (?c, fs)" using assms(2) by (simp add: s chain_ok_current)
  have "advances cr key bs (encodeBody cr (ch_current ?c)) (fst (finaliseLocked cr d (?c, fs)))"
    using assms s by (intro finalise_ok [OF _ ok]) simp_all
  then show ?thesis
    using advances_refl [OF ok] Some by (simp add: s Chain_Add_def accepted_def Let_def)
qed

lemma Tick_ok:
  assumes "crypto_ok cr key" "chain_ok cr key bs s" "length bs < 2 ^ 64" "length (call_body cr s (ECTick d)) < 2 ^ 32"
  shows "advances cr key bs (encodeBody cr (ch_current (fst s) @ accepted cr (ECTick d))) (estep cr s (ECTick d))"
proof -
  have "advances cr key bs (encodeBody cr (ch_current (fst s))) (fst (finaliseLocked cr d s))"
    using assms finalise_ok [of cr key bs "fst s" "snd s" d] by simp
  then show ?thesis
    using advances_refl [OF assms(2)] by (cases "ch_current (fst s) = []") (simp_all add: Chain_Tick_def accepted_def)
qed

lemma Restart_ok:
  assumes cr: "crypto_ok cr key" and ok: "chain_ok cr key bs s" and n: "length bs < 2 ^ 64"
  shows "chain_ok cr key bs (estep cr s ECRestart)"
proof (cases bs rule: rev_cases)
  case Nil
  then show ?thesis
    using ok on_disk_names [of "snd s" bs]
    by (simp add: Chain_New_def Chain_resume_def chain_ok_def names_upto_def)
next
  case (snoc bs1 hb)
  have disk: "on_disk (snd s) bs" using ok by (simp add: chain_ok_def)
  have names: "batch_names (snd s) = names_upto (length bs)" using on_disk_names [OF disk] n by simp
  have lst: "names_upto (length bs) \<noteq> []" "last (names_upto (length bs)) = batch_name (of_nat (length bs1))"
    by (simp_all add: snoc names_upto_def)
  have "readBatch (snd s) (batch_name (of_nat (length bs1))) = Inr (stored (fst hb), snd hb)"
    using on_disk_read [OF disk, of "length bs1"] by (simp add: snoc)
  moreover have "bh_BatchID (fst hb) = of_nat (length bs1)"
    using disk unfolding on_disk_def snoc holds_batch_def by (metis length_append_singleton lessI nth_append_length)
  moreover have "head_hash cr zeroHash bs = batch_hash cr (fst hb) (snd hb)" by (cases hb) (simp add: snoc)
  ultimately show ?thesis
    using ok names lst by (simp add: Chain_New_def Chain_resume_def chain_ok_def snoc)
qed

lemma run_ok:
  assumes "crypto_ok cr key" "chain_ok cr key bs s" "length bs + length calls < 2 ^ 64" "fits cr s calls"
  shows "\<exists>new. chain_ok cr key (bs @ new) (foldl (estep cr) s calls) \<and> length new \<le> length calls \<and>
    (ECRestart \<notin> set calls \<longrightarrow>
       concat (map snd new) @ encodeBody cr (ch_current (fst (foldl (estep cr) s calls)))
         = encodeBody cr (ch_current (fst s) @ concat (map (accepted cr) calls)))"
  using assms(2-)
proof (induction calls arbitrary: bs s)
  case Nil
  then show ?case by (auto intro!: exI [of _ "[]"])
next
  case (Cons call calls)
  have fit: "length (call_body cr s call) < 2 ^ 32" and n: "length bs < 2 ^ 64" using Cons.prems by simp_all
  have "\<exists>new. chain_ok cr key (bs @ new) (estep cr s call) \<and> length new \<le> 1 \<and> (call \<noteq> ECRestart \<longrightarrow>
      concat (map snd new) @ encodeBody cr (ch_current (fst (estep cr s call))) = encodeBody cr (ch_current (fst s) @ accepted cr call))"
  proof (cases call)
    case (ECAdd d ev)
    then show ?thesis using Add_ok [OF assms(1) Cons.prems(1) n] fit unfolding advances_def by blast
  next
    case (ECTick d)
    then show ?thesis using Tick_ok [OF assms(1) Cons.prems(1) n] fit unfolding advances_def by blast
  next
    case ECRestart
    then show ?thesis using Restart_ok [OF assms(1) Cons.prems(1) n] by (intro exI [of _ "[]"]) simp
  qed
  then obtain new where new: "chain_ok cr key (bs @ new) (estep cr s call)" "length new \<le> 1"
    "call \<noteq> ECRestart \<Longrightarrow> concat (map snd new) @ encodeBody cr (ch_current (fst (estep cr s call)))
       = encodeBody cr (ch_current (fst s) @ accepted cr call)" by blast
  obtain more_new where m: "chain_ok cr key ((bs @ new) @ more_new) (foldl (estep cr) (estep cr s call) calls)"
    "length more_new \<le> length calls"
    "ECRestart \<notin> set calls \<Longrightarrow> concat (map snd more_new) @ encodeBody cr (ch_current (fst (foldl (estep cr) (estep cr s call) calls)))
       = encodeBody cr (ch_current (fst (estep cr s call)) @ concat (map (accepted cr) calls))"
    using Cons.IH [OF new(1)] Cons.prems new(2) by fastforce
  show ?case
    using new m by (intro exI [of _ "new @ more_new"]) (auto simp: encodeBody_append)
qed

lemma New_ok:
  assumes "go_wf fs" "batch_names fs = []" "Chain_New cr True (Folder fs) (Some key) = Inr c"
  shows "chain_ok cr key [] (c, fs)" "ch_current c = []"
proof -
  have none: "\<not> is_batch e" if "e \<in> set fs" for e
  proof
    assume "is_batch e"
    then have "e \<in> set (filter is_batch fs)" using that by simp
    then have "fst e \<in> set (batch_names fs)" unfolding batch_names_def set_sort set_map by (rule imageI)
    then show False by (simp add: assms(2))
  qed
  have "\<not> is_batch (name, e)" if "go_get fs name = Some e" for name e
    by (rule none [OF map_of_SomeD [OF that]])
  then have "on_disk fs []" using assms(1) unfolding on_disk_def by (auto simp del: map_of_eq_Some_iff)
  then show "chain_ok cr key [] (c, fs)" "ch_current c = []"
    using assms(2,3) by (auto simp: Chain_New_def Chain_resume_def chain_ok_def)
qed

lemma verify_linked:
  assumes "list_all2 (\<lambda>f (h, b). readBatch fs f = Inr (stored h, b)) names bs" "linked cr pub prev bs"
  shows "verify_from cr pub fs i prev names = (i + length bs, None)"
  using assms
proof (induction names bs arbitrary: i prev rule: list_all2_induct)
  case (Cons f names hb bs)
  then show ?case by (cases hb) auto
qed simp

lemma disk_batches:
  assumes "on_disk fs bs" "length bs < 2 ^ 64"
  shows "list_all2 (\<lambda>f (h, b). readBatch fs f = Inr (stored h, b)) (batch_names fs) bs"
  using assms on_disk_read [OF assms(1)] on_disk_names [OF assms(1)]
  by (auto simp: list_all2_conv_all_nth names_upto_def case_prod_beta)

lemma run_verifies:
  assumes cr: "crypto_ok cr key" and dir: "go_wf fs" "batch_names fs = []"
    and new: "Chain_New cr True (Folder fs) (Some key) = Inr c"
    and run: "s = foldl (estep cr) (c, fs) calls" "fits cr (c, fs) calls" "length calls < 2 ^ 64"
  shows "Chain_Verify cr (cr_Public cr key) (Folder (snd s)) = (length (batch_names (snd s)), None)"
proof -
  obtain bs where bs: "chain_ok cr key bs s" "length bs \<le> length calls"
    using run_ok [OF cr New_ok(1) [OF dir new] _ run(2)] run(1,3) by auto
  have "on_disk (snd s) bs" "linked cr (cr_Public cr key) zeroHash bs" using bs(1) by (simp_all add: chain_ok_def)
  moreover have "length bs < 2 ^ 64" using bs(2) run(3) by simp
  ultimately show ?thesis
    using verify_linked [OF disk_batches] list_all2_lengthD [OF disk_batches] by (simp add: Chain_Verify_def)
qed


definition chain_bodies :: "files \<Rightarrow> bytes list" where
  "chain_bodies fs = map (\<lambda>f. case readBatch fs f of Inr (h, b) \<Rightarrow> b | Inl e \<Rightarrow> []) (batch_names fs)"

lemma chain_bodies_disk:
  assumes "on_disk fs bs" "length bs < 2 ^ 64"
  shows "chain_bodies fs = map snd bs"
proof -
  have "list_all2 (\<lambda>f hb. (case readBatch fs f of Inr (h, b) \<Rightarrow> b | Inl e \<Rightarrow> []) = snd hb) (batch_names fs) bs"
    by (rule list_all2_mono [OF disk_batches [OF assms]]) (auto split: prod.splits)
  then show ?thesis by (simp add: chain_bodies_def list_eq_iff_nth_eq list_all2_conv_all_nth)
qed


subsection \<open>What verification says about a directory\<close>

definition chain_batches :: "files \<Rightarrow> (chain_failure + BatchHeader \<times> bytes) list" where
  "chain_batches fs = map (readBatch fs) (batch_names fs)"

text \<open>
  The byte strings the verifier hashes, and the messages the host signed for its batches.
\<close>

definition hashed :: "(chain_failure + BatchHeader \<times> bytes) list \<Rightarrow> bytes set" where
  "hashed xs = (\<Union>x \<in> set xs. case x of Inr (h, b) \<Rightarrow> {b, headerBytes h @ b} | Inl e \<Rightarrow> {})"

definition signed_messages :: "(chain_failure + BatchHeader \<times> bytes) list \<Rightarrow> bytes set" where
  "signed_messages xs = (\<Union>x \<in> set xs. case x of Inr (h, b) \<Rightarrow> {bh_PrevHash h @ bh_BodyHash h} | Inl e \<Rightarrow> {})"

definition no_collision :: "Crypto \<Rightarrow> bytes set \<Rightarrow> bool" where
  "no_collision cr xs \<longleftrightarrow> inj_on (cr_Sum256 cr) xs \<and> zeroHash \<notin> cr_Sum256 cr ` xs"

text \<open>No batch of the directory carries a valid signature on a message the host did not sign.\<close>

definition unforged :: "Crypto \<Rightarrow> bytes \<Rightarrow> (chain_failure + BatchHeader \<times> bytes) list \<Rightarrow> bytes set \<Rightarrow> bool" where
  "unforged cr pub found host \<longleftrightarrow>
     (\<forall>x \<in> set found. case x of
        Inr (h, b) \<Rightarrow> cr_Verify cr pub (bh_PrevHash h @ bh_BodyHash h) (bh_Signature h) \<longrightarrow> bh_PrevHash h @ bh_BodyHash h \<in> host
      | Inl e \<Rightarrow> True)"

lemma decoded_ok: "header_ok (decodeHeader b)" "stored (decodeHeader b) = decodeHeader b"
  by (simp_all add: header_ok_def stored_def decodeHeader_def Let_def case_prod_beta)

lemma readBatch_decoded: "readBatch fs f = Inr (h, b) \<Longrightarrow> header_ok h \<and> stored h = h"
  by (auto simp: readBatch_def split_batch_def Let_def decoded_ok split: option.splits dirent.splits if_splits)

lemma verify_accepts:
  "verify_from cr pub fs i prev names = (n, None) \<Longrightarrow>
     \<exists>bs. map (readBatch fs) names = map Inr bs \<and> linked cr pub prev bs \<and> n = i + length bs"
proof (induction cr pub fs i prev names rule: verify_from.induct)
  case (2 cr pub fs i prev f names)
  then obtain h b where hb: "readBatch fs f = Inr (h, b)" by (auto split: sum.splits)
  then have ok: "bh_PrevHash h = prev" "bh_BodyHash h = cr_Sum256 cr b"
    "cr_Verify cr pub (bh_PrevHash h @ bh_BodyHash h) (bh_Signature h)"
    and rest: "verify_from cr pub fs (Suc i) (batch_hash cr h b) names = (n, None)"
    using 2(2) by (auto split: if_splits)
  have "\<exists>bs. map (readBatch fs) names = map Inr bs \<and> linked cr pub (batch_hash cr h b) bs \<and> n = Suc i + length bs"
    using 2(1) [OF hb refl] ok rest by simp
  then obtain bs where "map (readBatch fs) names = map Inr bs" "linked cr pub (batch_hash cr h b) bs" "n = Suc i + length bs"
    by blast
  then show ?case using hb ok by (intro exI [of _ "(h, b) # bs"]) simp
qed simp

lemma linked_member:
  "linked cr pub prev bs \<Longrightarrow> hb \<in> set bs \<Longrightarrow>
     bh_BodyHash (fst hb) = cr_Sum256 cr (snd hb) \<and> cr_Verify cr pub (bh_PrevHash (fst hb) @ bh_BodyHash (fst hb)) (bh_Signature (fst hb))"
  by (induction cr pub prev bs rule: linked.induct) auto

lemma linked_prev:
  "linked cr pub prev bs \<Longrightarrow> i < length bs \<Longrightarrow>
     bh_PrevHash (fst (bs ! i)) = (case i of 0 \<Rightarrow> prev | Suc j \<Rightarrow> batch_hash cr (fst (bs ! j)) (snd (bs ! j)))"
proof (induction cr pub prev bs arbitrary: i rule: linked.induct)
  case (2 cr pub prev h b bs)
  then show ?case by (cases i) (auto split: nat.splits)
qed simp

lemma nonzero_hash: "no_collision cr X \<Longrightarrow> headerBytes h @ b \<in> X \<Longrightarrow> batch_hash cr h b \<noteq> zeroHash"
  unfolding no_collision_def batch_hash_def by (metis imageI)

lemma batch_hash_inj:
  assumes c: "no_collision cr X" and ok: "header_ok h" "header_ok k"
    and X: "headerBytes h @ b \<in> X" "headerBytes k @ c \<in> X" and eq: "batch_hash cr h b = batch_hash cr k c"
  shows "stored h = stored k \<and> b = c"
proof (rule headerBytes_inj [OF ok])
  show "headerBytes h @ b = headerBytes k @ c"
    using c X eq unfolding no_collision_def batch_hash_def by (auto dest: inj_onD)
qed

text \<open>
  The situation of the two lists: batches of the host, numbered from 0, and batches found, both linked
  from the zero hash, without collisions among what is hashed.
\<close>

definition hashes_of :: "(BatchHeader \<times> bytes) list \<Rightarrow> bytes set" where
  "hashes_of bs = (\<Union>(h, b) \<in> set bs. {b, headerBytes h @ b})"

lemma hashes_of_nth: "i < length bs \<Longrightarrow> snd (bs ! i) \<in> hashes_of bs \<and> headerBytes (fst (bs ! i)) @ snd (bs ! i) \<in> hashes_of bs"
  by (force simp: hashes_of_def case_prod_beta)

lemma host_prev_inj:
  assumes host: "linked cr pub zeroHash host" "list_all (\<lambda>hb. header_ok (fst hb)) host"
    and ids: "\<forall>i < length host. bh_BatchID (fst (host ! i)) = of_nat i" "length host < 2 ^ 64"
    and c: "no_collision cr X" "hashes_of host \<subseteq> X"
    and ij: "i < length host" "j < length host" "bh_PrevHash (fst (host ! i)) = bh_PrevHash (fst (host ! j))"
  shows "i = j"
proof -
  have nonzero: "batch_hash cr (fst (host ! k)) (snd (host ! k)) \<noteq> zeroHash" if "k < length host" for k
    using c(2) hashes_of_nth [OF that] by (intro nonzero_hash [OF c(1)]) blast
  have zero: "bh_PrevHash (fst (host ! 0)) \<noteq> bh_PrevHash (fst (host ! Suc k))" if k: "Suc k < length host" for k
  proof -
    have "bh_PrevHash (fst (host ! 0)) = zeroHash" using linked_prev [OF host(1) le_less_trans [OF le0 k]] by simp
    moreover have "bh_PrevHash (fst (host ! Suc k)) = batch_hash cr (fst (host ! k)) (snd (host ! k))"
      using linked_prev [OF host(1) k] by simp
    ultimately show ?thesis using nonzero [OF Suc_lessD [OF k]] by metis
  qed
  have step: "k = l"
    if kl: "Suc k < length host" "Suc l < length host" and eq: "bh_PrevHash (fst (host ! Suc k)) = bh_PrevHash (fst (host ! Suc l))"
    for k l
  proof -
    have lt: "k < length host" "l < length host" using kl by simp_all
    have "batch_hash cr (fst (host ! k)) (snd (host ! k)) = batch_hash cr (fst (host ! l)) (snd (host ! l))"
      using eq linked_prev [OF host(1) kl(1)] linked_prev [OF host(1) kl(2)] by simp
    moreover have "header_ok (fst (host ! k))" "header_ok (fst (host ! l))" using host(2) lt by (simp_all add: list_all_length)
    moreover have "headerBytes (fst (host ! k)) @ snd (host ! k) \<in> X" "headerBytes (fst (host ! l)) @ snd (host ! l) \<in> X"
      using c(2) hashes_of_nth [OF lt(1)] hashes_of_nth [OF lt(2)] by blast+
    ultimately have "stored (fst (host ! k)) = stored (fst (host ! l))" using batch_hash_inj [OF c(1)] by blast
    then have "bh_BatchID (fst (host ! k)) = bh_BatchID (fst (host ! l))" by (metis stored_sel(1))
    then have "(of_nat k :: u64) = of_nat l" using ids(1) lt by simp
    then show ?thesis using lt ids(2) of_nat_u64_inj [of k l] by simp
  qed
  show ?thesis
  proof (cases i)
    case 0
    then show ?thesis using ij zero by (cases j) simp_all
  next
    case (Suc k)
    show ?thesis
    proof (cases j)
      case 0
      show ?thesis using zero [OF ij(1) [unfolded Suc]] ij(3) unfolding Suc 0 by metis
    next
      case j: (Suc l)
      have "k = l" by (rule step [OF ij [unfolded Suc j]])
      then show ?thesis unfolding Suc j by (rule arg_cong)
    qed
  qed
qed

lemma found_body:
  assumes host: "linked cr pub zeroHash host" "list_all (\<lambda>hb. header_ok (fst hb)) host"
    and found: "linked cr pub zeroHash found" "list_all (\<lambda>hb. header_ok (fst hb)) found"
    and c: "no_collision cr X" "hashes_of host \<subseteq> X" "hashes_of found \<subseteq> X"
    and sigs: "\<exists>j < length host.
        bh_PrevHash (fst (found ! i)) @ bh_BodyHash (fst (found ! i)) = bh_PrevHash (fst (host ! j)) @ bh_BodyHash (fst (host ! j))"
    and i: "i < length found"
  shows "\<exists>j < length host. bh_PrevHash (fst (found ! i)) = bh_PrevHash (fst (host ! j)) \<and> snd (found ! i) = snd (host ! j)"
proof -
  obtain j where j: "j < length host"
    "bh_PrevHash (fst (found ! i)) @ bh_BodyHash (fst (found ! i)) = bh_PrevHash (fst (host ! j)) @ bh_BodyHash (fst (host ! j))"
    using sigs by blast
  moreover have "length (bh_PrevHash (fst (found ! i))) = length (bh_PrevHash (fst (host ! j)))"
    using host(2) found(2) i j(1) by (simp add: list_all_length header_ok_def)
  ultimately have eq: "bh_PrevHash (fst (found ! i)) = bh_PrevHash (fst (host ! j))"
    "bh_BodyHash (fst (found ! i)) = bh_BodyHash (fst (host ! j))" by simp_all
  have "cr_Sum256 cr (snd (found ! i)) = cr_Sum256 cr (snd (host ! j))"
    using eq(2) linked_member [OF host(1) nth_mem [OF j(1)]] linked_member [OF found(1) nth_mem [OF i]] by simp
  moreover have "snd (found ! i) \<in> X" "snd (host ! j) \<in> X"
    using c(2,3) hashes_of_nth [OF i] hashes_of_nth [OF j(1)] by blast+
  ultimately have "snd (found ! i) = snd (host ! j)" using c(1) unfolding no_collision_def by (blast dest: inj_onD)
  then show ?thesis using j(1) eq(1) by blast
qed

lemma found_matches:
  assumes host: "linked cr pub zeroHash host" "list_all (\<lambda>hb. header_ok (fst hb)) host"
    and ids: "\<forall>i < length host. bh_BatchID (fst (host ! i)) = of_nat i" "length host < 2 ^ 64"
    and found: "linked cr pub zeroHash found" "list_all (\<lambda>hb. header_ok (fst hb)) found"
    and c: "no_collision cr X" "hashes_of host \<subseteq> X" "hashes_of found \<subseteq> X"
    and sigs: "\<forall>i < length found. \<exists>j < length host.
        bh_PrevHash (fst (found ! i)) @ bh_BodyHash (fst (found ! i)) = bh_PrevHash (fst (host ! j)) @ bh_BodyHash (fst (host ! j))"
  shows "i < length found \<Longrightarrow> i < length host \<and> bh_PrevHash (fst (found ! i)) = bh_PrevHash (fst (host ! i)) \<and>
      snd (found ! i) = snd (host ! i) \<and> (\<forall>k. i = Suc k \<longrightarrow> stored (fst (found ! k)) = stored (fst (host ! k)))"
proof (induction i)

  case 0
  obtain j where j: "j < length host" "bh_PrevHash (fst (found ! 0)) = bh_PrevHash (fst (host ! j))" "snd (found ! 0) = snd (host ! j)"
    using found_body [OF host found c sigs [rule_format, OF 0] 0] by blast
  have pos: "0 < length host" using j(1) by linarith
  have "bh_PrevHash (fst (host ! j)) = bh_PrevHash (fst (host ! 0))"
    using j(2) linked_prev [OF host(1) pos] linked_prev [OF found(1) 0] by simp
  then have "j = 0" by (rule host_prev_inj [OF host ids c(1,2) j(1) pos])
  then show ?case using j by simp
next
  case (Suc m)
  then have m: "m < length found" and IH: "m < length host" "bh_PrevHash (fst (found ! m)) = bh_PrevHash (fst (host ! m))" by simp_all
  obtain j where j: "j < length host" "bh_PrevHash (fst (found ! Suc m)) = bh_PrevHash (fst (host ! j))"
      "snd (found ! Suc m) = snd (host ! j)"
    using found_body [OF host found c sigs [rule_format, OF Suc.prems] Suc.prems] by blast
  have prev: "bh_PrevHash (fst (found ! Suc m)) = batch_hash cr (fst (found ! m)) (snd (found ! m))"
    using linked_prev [OF found(1) Suc.prems] by simp
  have "batch_hash cr (fst (found ! m)) (snd (found ! m)) \<noteq> zeroHash"
    using c(3) hashes_of_nth [OF m] by (intro nonzero_hash [OF c(1)]) blast
  then obtain l where l: "j = Suc l" using prev j linked_prev [OF host(1), of 0] by (cases j) auto
  then have "batch_hash cr (fst (found ! m)) (snd (found ! m)) = batch_hash cr (fst (host ! l)) (snd (host ! l))"
    using prev j linked_prev [OF host(1) j(1)] by simp
  then have eq: "stored (fst (found ! m)) = stored (fst (host ! l))"
  proof (rule batch_hash_inj [OF c(1), THEN conjunct1, rotated -1])
    show "header_ok (fst (found ! m))" using found(2) m by (simp add: list_all_length)
    show "header_ok (fst (host ! l))" using host(2) l j(1) by (simp add: list_all_length)
    show "headerBytes (fst (found ! m)) @ snd (found ! m) \<in> X" using c(3) hashes_of_nth [OF m] by blast
    show "headerBytes (fst (host ! l)) @ snd (host ! l) \<in> X" using c(2) hashes_of_nth [of l host] l j(1) by auto
  qed
  have "bh_PrevHash (fst (host ! l)) = bh_PrevHash (fst (host ! m))"
    using IH(2) arg_cong [OF eq, of bh_PrevHash] by simp
  moreover have "l < length host" using l j(1) by simp
  ultimately have "l = m" using host_prev_inj [OF host ids c(1,2) _ IH(1)] by blast
  then show ?case using j l eq by simp
qed

lemma disk_chain_batches:
  assumes "on_disk fs bs" "length bs < 2 ^ 64"
  shows "chain_batches fs = map (\<lambda>(h, b). Inr (stored h, b)) bs"
  using disk_batches [OF assms] by (auto simp: chain_batches_def list_eq_iff_nth_eq list_all2_conv_all_nth case_prod_beta)

lemma linked_stored: "linked cr pub prev (map (\<lambda>(h, b). (stored h, b)) bs) = linked cr pub prev bs"
  by (induction cr pub prev bs rule: linked.induct) simp_all

lemma header_ok_stored [simp]: "header_ok (stored h) = header_ok h"
  by (simp add: header_ok_def)

text \<open>The batches of a run, as they are read back.\<close>

lemma run_batches:
  assumes cr: "crypto_ok cr key" and dir: "go_wf fs" "batch_names fs = []"
    and new: "Chain_New cr True (Folder fs) (Some key) = Inr c"
    and run: "s = foldl (estep cr) (c, fs) calls" "fits cr (c, fs) calls" "length calls < 2 ^ 64"
  shows "\<exists>host. chain_batches (snd s) = map Inr host \<and> linked cr (cr_Public cr key) zeroHash host \<and>
    list_all (\<lambda>hb. header_ok (fst hb)) host \<and> (\<forall>i < length host. bh_BatchID (fst (host ! i)) = of_nat i) \<and>
    (\<forall>hb \<in> set host. stored (fst hb) = fst hb) \<and> length host < 2 ^ 64"
proof -
  obtain bs where bs: "chain_ok cr key bs s" "length bs \<le> length calls"
    using run_ok [OF cr New_ok(1) [OF dir new] _ run(2)] run(1,3) by auto
  let ?host = "map (\<lambda>(h, b). (stored h, b)) bs"
  have disk: "on_disk (snd s) bs" and lk: "linked cr (cr_Public cr key) zeroHash bs" using bs(1) by (simp_all add: chain_ok_def)
  have n: "length bs < 2 ^ 64" using bs(2) run(3) by simp
  have hb: "header_ok (fst (bs ! i)) \<and> bh_BatchID (fst (bs ! i)) = of_nat i" if "i < length bs" for i
    using disk that unfolding on_disk_def holds_batch_def by blast
  have "chain_batches (snd s) = map Inr ?host"
    by (simp add: disk_chain_batches [OF disk n] comp_def case_prod_beta)
  moreover have "list_all (\<lambda>hb. header_ok (fst hb)) ?host" using hb by (simp add: list_all_length case_prod_beta)
  moreover have "\<forall>i < length ?host. bh_BatchID (fst (?host ! i)) = of_nat i" using hb by (simp add: case_prod_beta)
  moreover have "\<forall>hb \<in> set ?host. stored (fst hb) = fst hb" by (auto simp: stored_def)
  ultimately show ?thesis using n linked_stored lk by (intro exI [of _ ?host]) simp
qed

lemma unforged_Inr:
  "unforged cr pub (map Inr bs) M \<longleftrightarrow> (\<forall>hb \<in> set bs.
     cr_Verify cr pub (bh_PrevHash (fst hb) @ bh_BodyHash (fst hb)) (bh_Signature (fst hb)) \<longrightarrow> bh_PrevHash (fst hb) @ bh_BodyHash (fst hb) \<in> M)"
  by (simp add: unforged_def case_prod_beta)

lemma signed_Inr: "signed_messages (map Inr bs) = (\<lambda>hb. bh_PrevHash (fst hb) @ bh_BodyHash (fst hb)) ` set bs"
  by (induction bs) (auto simp: signed_messages_def)

lemma hashed_Inr: "hashed (map Inr bs) = hashes_of bs"
  by (auto simp: hashed_def hashes_of_def)


subsection \<open>A concrete run\<close>

text \<open>
  A stand-in for the parameters: a hash that keeps the first 32 bytes, a signature that is always the
  same, and an encoding of one byte.
\<close>

definition test_crypto :: Crypto where
  "test_crypto = \<lparr>cr_Sum256 = (\<lambda>x. take 32 (x @ replicate 32 0)), cr_Sign = (\<lambda>k m. replicate 64 0),
     cr_Verify = (\<lambda>pub m sg. sg = replicate 64 0), cr_Public = (\<lambda>k. k), cr_Marshal = (\<lambda>ev. Some [7])\<rparr>"

definition test_disk :: "write_outcome \<Rightarrow> disk" where
  "test_disk w = \<lparr>dk_now = unix_epoch, dk_write = w, dk_removable = (\<lambda>f. True)\<rparr>"

definition test_chain :: EvChain where
  "test_chain =
     \<lparr>ch_BatchCap = 10000, ch_BodyCap = 4194304, ch_Interval = 60000000000, ch_PrivKey = [1],
      ch_HostKeyID = 1 # replicate 15 0, ch_MaxBatches = 0, ch_current = [], ch_bodyBytes = 0,
      ch_nextBatchID = 0, ch_prevHash = replicate 32 0\<rparr>"

lemma test_crypto_ok: "crypto_ok test_crypto [1]"
  by (auto simp: crypto_ok_def test_crypto_def)

lemma test_new: "Chain_New test_crypto True (Folder []) (Some [1]) = Inr test_chain"
  by (simp add: Chain_New_def Chain_resume_def test_chain_def test_crypto_def keyIDFor_def batch_names_def zeroHash_def)

lemma go_wf_nil: "go_wf []"
  by simp

lemma batch_names_nil: "batch_names [] = []"
  by (simp add: batch_names_def)

text \<open>A run whose events take less than \<open>2 ^ 32\<close> bytes in all always fits.\<close>

lemma finalise_current: "ch_current (fst (fst (finaliseLocked cr d (c, fs)))) \<in> {ch_current c, []}"
  by (simp add: finaliseLocked_def Let_def writeBatch_def split: write_outcome.split)

lemma pending_step:
  "length (encodeBody cr (ch_current (fst (estep cr s c))))
     \<le> length (encodeBody cr (ch_current (fst s))) + length (encodeBody cr (accepted cr c))"
proof (cases c)
  case (ECAdd d ev)
  obtain e fs where s: "s = (e, fs)" by (cases s)
  show ?thesis
  proof (cases "cr_Marshal cr ev")
    case None
    then show ?thesis by (simp add: ECAdd s Chain_Add_def)
  next
    case (Some b)
    let ?e = "e\<lparr>ch_current := ch_current e @ [ev], ch_bodyBytes := wrap64 (ch_bodyBytes e + int (length b) + 1)\<rparr>"
    have "ch_current (fst (estep cr s c)) \<in> {ch_current e @ [ev], []}"
      using finalise_current [of cr d ?e fs] Some by (simp add: ECAdd s Chain_Add_def Let_def)
    then show ?thesis using Some by (auto simp: ECAdd s accepted_def encodeBody_append) (auto simp: encodeBody_def)
  qed
next
  case (ECTick d)
  have "ch_current (fst (estep cr s c)) \<in> {ch_current (fst s), []}"
    using finalise_current [of cr d "fst s" "snd s"] by (simp add: ECTick Chain_Tick_def)
  then show ?thesis by (auto simp: encodeBody_def)
next
  case ECRestart
  have "ch_current (fst (estep cr s c)) \<in> {ch_current (fst s), []}"
    by (auto simp: ECRestart Chain_New_def Chain_resume_def split: sum.splits option.splits)
  then show ?thesis by (auto simp: encodeBody_def)
qed

lemma fits_small:
  "length (encodeBody cr (ch_current (fst s))) + length (encodeBody cr (concat (map (accepted cr) calls))) < 2 ^ 32 \<Longrightarrow> fits cr s calls"
proof (induction calls arbitrary: s)
  case (Cons c calls)
  have "length (call_body cr s c) \<le> length (encodeBody cr (ch_current (fst s))) + length (encodeBody cr (accepted cr c))"
    by (cases c) (auto simp: accepted_def encodeBody_def)
  then show ?case
    using Cons pending_step [of cr s c] by (simp add: encodeBody_append)
qed simp

abbreviation test_calls :: "ecall list" where
  "test_calls \<equiv> [ECAdd (test_disk Written) zero_Event, ECTick (test_disk (LeftTemp [])), ECTick (test_disk Written),
     ECAdd (test_disk Written) zero_Event, ECTick (test_disk Written)]"

lemma test_fits: "fits test_crypto (test_chain, []) test_calls"
  by (rule fits_small) (simp add: accepted_def encodeBody_def test_crypto_def test_chain_def)

lemmas test_setup = test_crypto_ok go_wf_nil batch_names_nil test_new refl test_fits



text \<open>The first batch of that run alone, as it would stand after the second was removed.\<close>

abbreviation test_found :: files where
  "test_found \<equiv> snd (foldl (estep test_crypto) (test_chain, []) (take 3 test_calls))"

definition hash_list :: "(chain_failure + BatchHeader \<times> bytes) list \<Rightarrow> bytes list" where
  "hash_list xs = concat (map (\<lambda>x. case x of Inr (h, b) \<Rightarrow> [b, headerBytes h @ b] | Inl e \<Rightarrow> []) xs)"

lemma no_collision_code:
  "no_collision cr (hashed xs \<union> hashed ys) \<longleftrightarrow>
     distinct (map (cr_Sum256 cr) (remdups (hash_list xs @ hash_list ys))) \<and>
     list_all (\<lambda>x. cr_Sum256 cr x \<noteq> zeroHash) (hash_list xs @ hash_list ys)"
proof -
  have h: "hashed zs = set (hash_list zs)" for zs
    by (induction zs) (auto simp: hashed_def hash_list_def split: sum.splits)
  then have u: "hashed xs \<union> hashed ys = set (remdups (hash_list xs @ hash_list ys))" by simp
  have "inj_on (cr_Sum256 cr) (set (remdups (hash_list xs @ hash_list ys)))
      \<longleftrightarrow> distinct (map (cr_Sum256 cr) (remdups (hash_list xs @ hash_list ys)))"
    unfolding distinct_map by simp
  moreover have "z \<notin> f ` A \<longleftrightarrow> (\<forall>x \<in> A. f x \<noteq> z)" for z :: bytes and f and A :: "bytes set" by blast
  ultimately show ?thesis unfolding no_collision_def u list_all_iff by (simp only: set_remdups)
qed


text \<open>
  Once rotation has removed the oldest batch, verification fails at the first batch that is left, whose
  previous hash is not zero; the comment on \<^verbatim>\<open>MaxBatches\<close> says the verifier still accepts the remaining range.
\<close>

lemma rotation_breaks_verify:
  "Chain_Verify test_crypto [1]
     (Folder (snd (foldl (estep test_crypto) (test_chain\<lparr>ch_MaxBatches := 1\<rparr>, []) test_calls))) = (0, Some (PrevHashMismatch 1))"
  by code_simp

end
