(* ===== verification/Spec2Isabelle.thy ===== *)
theory Spec2Isabelle
  imports Takeover Response PlannerWire ConnStages NetBan ProcTree EvidenceChain
begin

text \<open>
  A verification development for \<^bold>\<open>xhelix\<close>, a host intrusion detection and response daemon written in Go.
  Paths below are under \<^verbatim>\<open>src/\<close>.

  \<^bold>\<open>The program.\<close> Sensors turn kernel and log activity into events. The pipeline enriches an event,
  stage by stage, with tags; rules and detectors turn events into alerts. Alerts go to the response
  engine, which may stop, kill or ban, and to the takeover planner, which scores the signals of a process
  lineage and makes containment plans that an executor hands to the same engine. Outbound connections
  are judged by signed per-binary policies, trust zones and the egress guard, which pushes denies to
  the firewall. A safety net lists the addresses that nothing may ever block.

  \<^bold>\<open>Theories.\<close>

  \<^item> \<open>XPrelude\<close>: times, wrap-around integers, Go maps as association lists, strings, and the locale
    \<open>machine\<close> of call sequences with an invariant, which the components interpret.
  \<^item> \<open>GoNet\<close>, \<open>NetIP\<close>, \<open>GoExec\<close>, \<open>GoLib\<close>: the parts of Go's library that the code calls, with the
    lemmas on printing and parsing addresses, prefixes and Base64.
  \<^item> \<open>EventModel\<close> (\<^verbatim>\<open>pkg/model\<close>): events, alerts, rules.
  \<^item> \<open>ActionLog\<close> (\<^verbatim>\<open>pkg/actionlog/state.go\<close>): the containment state machine. Its history is a legal walk,
    and a held lineage is let go only through a release.
  \<^item> \<open>Decision\<close> (\<^verbatim>\<open>pkg/decision\<close>) and \<open>Capability\<close> (\<^verbatim>\<open>pkg/runtime/capabilityset.go\<close>): plans, the planner,
    and the inventory of what the host can do, behind the locale \<open>capability_checker\<close>.
  \<^item> \<open>Takeover\<close> (\<^verbatim>\<open>pkg/takeover\<close>): signals, their aggregation over a retention window, the score and the
    planner on top. The score does not depend on the order in which Go walks its maps.
  \<^item> \<open>Enforce\<close> (\<^verbatim>\<open>pkg/enforce/panic.go\<close>, \<^verbatim>\<open>quarantine.go\<close>) and \<open>Response\<close> (\<^verbatim>\<open>pkg/response\<close>): the panic
    switch, stopped processes, and the dispatch of alerts and plans to the backends. The action handlers
    share the locale \<open>handler\<close>.
  \<^item> \<open>PlannerWire\<close> (\<^verbatim>\<open>pkg/daemon/wire/wire.go\<close>): alerts to signals, and the tick that plans, executes and
    records.
  \<^item> \<open>SecretTaint\<close> (\<^verbatim>\<open>pkg/secrettaint\<close>): which events touch secrets, and the taint of lineages, behind the
    locale \<open>taint_store\<close>.
  \<^item> \<open>SafetyLists\<close> (\<^verbatim>\<open>pkg/safetynet\<close>): allow and block lists, the ring of attempts, the nft set.
  \<^item> \<open>EgressGuard\<close> (\<^verbatim>\<open>pkg/egressguard\<close>): verdicts, the cache of denies and the backends, behind the locale
    \<open>egress_backend\<close>; the taint and guard stages of \<^verbatim>\<open>pkg/pipeline/pipeline.go\<close>.
  \<^item> \<open>EgressPolicy\<close> (\<^verbatim>\<open>pkg/egresspolicy\<close>): policies, signatures, store, engine, and the proposals from the
    ledger of flows.
  \<^item> \<open>TrustZone\<close> (\<^verbatim>\<open>pkg/trustzone\<close>): assignments of subjects to zones and the verdict per zone.
  \<^item> \<open>ConnStages\<close>: the policy and zone stages of the pipeline, and the four stages together.
  \<^item> \<open>NetBan\<close> (\<^verbatim>\<open>pkg/netban\<close>): bans with a time to live, host quarantine, and the peers of open SSH
    connections.
  \<^item> \<open>Lineage\<close> (\<^verbatim>\<open>pkg/lineage\<close>) on \<open>PopCount\<close>: chains of lineages and their encoding, origins, taint sets and
    the registry of classes. The bit-parallel count of a set is its number of elements.
  \<^item> \<open>Provenance\<close> (\<^verbatim>\<open>pkg/source\<close>): causal sets, the provenance of files and the minting of anchors. A reader
    sees the last writer.
  \<^item> \<open>ProcTree\<close> (\<^verbatim>\<open>pkg/proctree/graph.go\<close>): the process tree. Sources reach all unattributed descendants,
    eviction takes the oldest leaves.
  \<^item> \<open>EvidenceChain\<close> (\<^verbatim>\<open>pkg/chain/chain.go\<close>): the hash-chained event log. What a run writes verifies and
    holds every accepted event, and what verifies is a prefix of what the host wrote.

  \<^bold>\<open>Correspondence.\<close> A struct is a record whose fields carry a short prefix, a string enumeration stays
  a string, an iota enumeration is a datatype. Go maps are association lists and every list order stands
  for an iteration order, so what is proved holds for all of them. Operations return the changed state;
  error values are values of an error datatype and texts for people are constructors with what they
  print. Clock readings, identifiers, file contents and the answers of commands are arguments; the
  commands run are recorded in a trace. Mutexes have no counterpart: a call is one step, and the call
  sequences of the \<open>machine\<close> interpretations stand for any interleaving of whole calls.

  \<^bold>\<open>Bounds.\<close> Machine integers keep their width: words for unsigned ones, \<open>wrap64\<close> for \<^verbatim>\<open>int\<close>. No definition
  needs fuel except the parser of textual IPv6 addresses and trimming, which count down from the
  length of their input, and loops the source itself bounds.

  \<^bold>\<open>Properties.\<close> The claims are numbered in order of importance, and each stands in the theory of its
  component; those on the planner with a host's inventory are below. A claim with hypotheses has
  a witness, which applies it to a concrete input. Parameters that stand for code outside the sources,
  such as the hash and the signatures of the evidence chain, come with named hypotheses
  (\<open>crypto_ok\<close>, \<open>no_collision\<close>, \<open>unforged\<close>), which the witness shows can hold.

  \<^bold>\<open>Not modelled.\<close> The daemon's wiring, command lines and web pages; sensors and eBPF programs; CEL rules
  and YAML files, which external libraries evaluate; SQL storage; statistics in floating point (baselines,
  beacon scores, alert decay, the soak ladder of \<^verbatim>\<open>pkg/enforce/soak.go\<close>); goroutines, tickers and channels
  around the modelled calls; watchers over procfs and sysfs; the stages of the pipeline not named above.
  Cryptography, encodings and file systems outside the sources are parameters.
\<close>

subsection \<open>The planner with the host's inventory\<close>

text \<open>What the planner's lemmas say for a missing checker and for the inventory of a host.\<close>

definition plan_for :: "CapabilitySet option \<Rightarrow> string \<Rightarrow> gotime \<Rightarrow> gotime \<Rightarrow> Input \<Rightarrow> ActionPlan" where
  "plan_for co i t1 t2 inp = Plan i t1 t2 (inp\<lparr>in_Caps := map_option AnnotatePlan co\<rparr>)"

lemma plan_for_caps:
  "plan_for None i t1 t2 inp = Plan i t1 t2 (inp\<lparr>in_Caps := Some id\<rparr>)"
  "plan_for (Some c) i t1 t2 inp = Plan i t1 t2 (inp\<lparr>in_Caps := Some (AnnotatePlan c)\<rparr>)"
  by (simp_all add: plan_for_def Plan_no_caps)

lemma plan_for_tier: "ap_Tier (plan_for co i t1 t2 inp) = tier_name (effective_tier inp)"
  by (cases co) (simp_all add: plan_for_caps caps.Plan_tier no_caps.Plan_tier)

lemma plan_for_actions:
  "Actions (plan_for co i t1 t2 inp) = tier_actions (effective_tier inp) (in_AttributedIPs inp \<noteq> [])"
  by (cases co) (simp_all add: plan_for_caps caps.Plan_actions no_caps.Plan_actions)

lemma plan_for_reversible:
  "ap_Reversible (plan_for co i t1 t2 inp) \<and> \<not> HasDestructiveAction (plan_for co i t1 t2 inp)"
  by (cases co) (simp_all only: plan_for_caps caps.Plan_reversible no_caps.Plan_reversible simp_thms)

lemma plan_for_warnings:
  "plan_for (Some c) i t1 t2 inp = AnnotatePlan c (plan_for None i t1 t2 inp)"
  by (simp add: plan_for_def Plan_annotated [where co = "Some (AnnotatePlan c)"])


lemma action_flags:
  "ap_IsolateHost p \<longleftrightarrow> ''isolate_host'' \<in> set (Actions p)"
  "ap_BanRemoteIP p \<longleftrightarrow> ''ban_remote_ip'' \<in> set (Actions p)"
  by (simp_all add: Actions_concat actionOrder_def)

lemma tier_actions_isolate: "''isolate_host'' \<in> set (tier_actions t b) \<longleftrightarrow> t = tierContained"
  by (cases t) simp_all

lemma tier_actions_ban: "''ban_remote_ip'' \<in> set (tier_actions t b) \<Longrightarrow> b"
  by (cases t) (simp_all split: if_splits)

lemma effective_contained: "effective_tier inp = tierContained \<Longrightarrow> layer5_ok inp"
  by (simp add: effective_tier_cases split: if_splits)

text \<open>
  C2: the planner is safe: whatever the input, its plan never kills a process, never rewrites a
  file, is reversible, isolates the host only when a bastion and an off-host mirror are available,
  and bans only when there is an attributed remote IP.
\<close>

theorem plan_is_safe:
  "let p = plan_for co i t1 t2 inp in
     ap_Reversible p \<and> \<not> ap_KillProcess p \<and> \<not> ap_RemediateFile p \<and>
     (ap_IsolateHost p \<longrightarrow> in_BastionAvailable inp \<and> in_OffHostMirrorAvailable inp) \<and>
     (ap_BanRemoteIP p \<longrightarrow> in_AttributedIPs inp \<noteq> [])"
  using plan_for_reversible [of co i t1 t2 inp] effective_contained [of inp]
  by (auto simp: Let_def HasDestructiveAction_def action_flags plan_for_actions tier_actions_isolate
      layer5_ok_def dest: tier_actions_ban)

definition sample_input :: Input where
  "sample_input = \<lparr>in_Alert = zero_Alert\<lparr>al_RuleID := ''r1''\<rparr>, in_Score = 100, in_LineageID = 7,
     in_ProcKey = [], in_Caps = None, in_State = None, in_CrownJewelTier = [],
     in_AttributedIPs = [''203.0.113.9''], in_BastionAvailable = True,
     in_OffHostMirrorAvailable = True\<rparr>"

theorem plan_is_safe_witness:
  "let p = plan_for None ''p1'' 5 6 sample_input in
     ap_IsolateHost p \<and> in_BastionAvailable sample_input \<and> ap_BanRemoteIP p \<and>
     in_AttributedIPs sample_input \<noteq> []"
proof -
  have "ap_IsolateHost (plan_for None ''p1'' 5 6 sample_input)"
    "ap_BanRemoteIP (plan_for None ''p1'' 5 6 sample_input)"
    by code_simp+
  then show ?thesis
    using plan_is_safe [of None "''p1''" 5 6 sample_input] by (simp add: Let_def)
qed

text \<open>
  C25: every plan is well formed: with a plan id, a score from 0 to 100 and an alert that can be
  traced (an event id or a rule id), \<^verbatim>\<open>Validate\<close> accepts what the planner returns.
\<close>

theorem plan_validates:
  assumes "i \<noteq> []" "0 \<le> in_Score inp" "in_Score inp \<le> 100"
    "ev_ID (al_Event (in_Alert inp)) \<noteq> [] \<or> al_RuleID (in_Alert inp) \<noteq> []"
  shows "ActionPlan_Validate (Some (plan_for co i t1 t2 inp)) = None"
  by (cases co) (simp_all add: plan_for_caps caps.Plan_valid [OF assms] no_caps.Plan_valid [OF assms])

theorem plan_validates_witness:
  "ActionPlan_Validate (Some (plan_for (Some (CapabilitySet_New ''linux'')) ''p1'' 5 6 sample_input)) = None"
  by (rule plan_validates) (simp_all add: sample_input_def)

text \<open>
  C3: no silent degradation: for every action that stays in a plan and every capability it needs
  that the host lacks, the plan carries the warning; and a plan whose host isolation was lowered
  carries the warning that says so.
\<close>

theorem no_silent_degradation:
  assumes "p = plan_for (Some c) i t1 t2 inp"
  shows "(a \<in> set (Actions p) \<longrightarrow> m \<in> set (go_get_or [] action_needs a) \<longrightarrow>
      \<not> go_get_or False (host_has c) m \<longrightarrow> a @ '' requires '' @ m \<in> set (ap_CapabilityWarnings p)) \<and>
    (tier_spec inp = tierContained \<longrightarrow> \<not> ap_IsolateHost p \<longrightarrow>
      ''isolate_host skipped: missing capability bastion+off-host-mirror'' \<in> set (ap_CapabilityWarnings p))"
proof -
  let ?q = "plan_for None i t1 t2 inp"
  have p: "p = AnnotatePlan c ?q" using assms by (simp add: plan_for_warnings)
  have w: "set (ap_CapabilityWarnings p) = set (ap_CapabilityWarnings ?q) \<union> plan_gaps c ?q"
    by (simp add: p AnnotatePlan_appends CanExecute_gaps)
  have "Actions p = Actions ?q" by (simp add: p)
  moreover have "tier_spec inp = tierContained \<Longrightarrow> \<not> ap_IsolateHost p \<Longrightarrow> \<not> layer5_ok inp"
    using plan_for_actions [of "Some c" i t1 t2 inp] assms
    by (auto simp: action_flags tier_actions_isolate effective_tier_def)
  ultimately show ?thesis
    unfolding w
    by (auto simp: plan_gaps_def missing_needs_def plan_for_def Plan_bare_warnings
        plan_tier_spec plan_Caps_irrelevant layer5_ok_def tier_spec_def)
qed

theorem no_silent_degradation_witness:
  "''isolate_host skipped: missing capability bastion+off-host-mirror'' \<in>
     set (ap_CapabilityWarnings (plan_for (Some (CapabilitySet_New ''linux'')) ''p1'' 5 6
       (sample_input\<lparr>in_BastionAvailable := False\<rparr>))) \<and>
   ''snapshot'' @ '' requires '' @ ''pkg/snapshot ready'' \<in>
     set (ap_CapabilityWarnings (plan_for (Some (CapabilitySet_New ''linux'')) ''p1'' 5 6
       (sample_input\<lparr>in_BastionAvailable := False\<rparr>)))"
proof -
  let ?inp = "sample_input\<lparr>in_BastionAvailable := False\<rparr>"
  let ?p = "plan_for (Some (CapabilitySet_New ''linux'')) ''p1'' 5 6 ?inp"
  have "tier_spec ?inp = tierContained" "\<not> ap_IsolateHost ?p" "''snapshot'' \<in> set (Actions ?p)"
    "''pkg/snapshot ready'' \<in> set (go_get_or [] action_needs ''snapshot'')"
    "\<not> go_get_or False (host_has (CapabilitySet_New ''linux'')) ''pkg/snapshot ready''"
    by code_simp+
  then show ?thesis using no_silent_degradation [OF refl] by blast
qed

text \<open>
  The planner is monotone and never silently de-escalates: a higher score never gives a lower
  tier, and a plan for a lineage that is already held is at least at the tier of its state, except
  that an unavailable host isolation falls back to cgroup isolation.
\<close>

theorem plan_monotone:
  assumes "s \<le> s'" "in_State inp = Some l"
  shows "\<exists>t t'. ap_Tier (plan_for co i t1 t2 (inp\<lparr>in_Score := s\<rparr>)) = tier_name t \<and>
    ap_Tier (plan_for co' i' t1' t2' (inp\<lparr>in_Score := s'\<rparr>)) = tier_name t' \<and> t \<le> t' \<and>
    min tierIsolated (tierFromState (Log_State l (in_LineageID inp))) \<le> t"
proof -
  let ?t = "effective_tier (inp\<lparr>in_Score := s\<rparr>)"
  have "tierFromState (Log_State l (in_LineageID inp)) \<le> tier_spec (inp\<lparr>in_Score := s\<rparr>)"
    using assms(2) by (simp add: plan_tier_max state_floor_def flip: plan_tier_spec)
  then have "min tierIsolated (tierFromState (Log_State l (in_LineageID inp))) \<le> ?t"
    by (auto simp: effective_tier_def min_le_iff_disj)
  then show ?thesis using effective_tier_mono [OF assms(1)] plan_for_tier by blast
qed

theorem plan_monotone_witness:
  "\<exists>t t'. ap_Tier (plan_for None ''p1'' 5 6 (sample_input\<lparr>in_State := Some sample_suspended_log, in_Score := 10\<rparr>)) = tier_name t \<and>
    ap_Tier (plan_for None ''p2'' 7 8 (sample_input\<lparr>in_State := Some sample_suspended_log, in_Score := 95\<rparr>)) = tier_name t' \<and> t \<le> t' \<and>
    min tierIsolated (tierFromState (Log_State sample_suspended_log 7)) \<le> t"
  using plan_monotone [of 10 95 "sample_input\<lparr>in_State := Some sample_suspended_log\<rparr>" sample_suspended_log
      None "''p1''" 5 6 None "''p2''" 7 8]
  by (simp add: sample_input_def)

text \<open>
  Plans expire: a plan without actions never does, a soft block after fifteen minutes, any
  harder plan after two hours, counted from its second clock reading.
\<close>

theorem plan_expiry:
  "ap_ExpiresAt (plan_for co i t1 t2 inp) =
    (case effective_tier inp of tierObserved \<Rightarrow> 0 | tierTriaged \<Rightarrow> t2 + 15 * minute | _ \<Rightarrow> t2 + 2 * hour)"
  by (cases co) (simp_all only: plan_for_caps caps.Plan_expiry no_caps.Plan_expiry)

end
